(* ===== verification/Prelude.thy ===== *)
theory Prelude
  imports Main "HOL-Library.Multiset" "HOL-Library.Char_ord" "HOL-Library.List_Lexorder"
    "HOL-Library.Product_Lexorder"
begin

text \<open>
  Shared ground of the development: Python's stable sort driven by a three-way comparator
  (\<open>functools.cmp_to_key\<close>), \<open>max\<close> with a key, insertion-ordered dictionaries, results that may be
  an exception, and the lemma collections the component theories add to.
\<close>

named_theorems py_defs \<open>definitions of the modelled Python primitives\<close>
named_theorems dict_simps \<open>lookups and key sets of insertion-ordered dictionaries\<close>

subsection \<open>Results that may raise\<close>

text \<open>\<open>Inl\<close> carries the exception, \<open>Inr\<close> the value; \<open>rbind\<close> stops at the first exception.\<close>

fun rbind :: "'e + 'a \<Rightarrow> ('a \<Rightarrow> 'e + 'b) \<Rightarrow> 'e + 'b" where
  "rbind (Inl e) f = Inl e"
| "rbind (Inr a) f = f a"

lemma rbind_Inr_iff [simp]: "rbind r f = Inr b \<longleftrightarrow> (\<exists>a. r = Inr a \<and> f a = Inr b)"
  by (cases r) auto

lemma rbind_Inl_iff: "rbind r f = Inl e \<longleftrightarrow> r = Inl e \<or> (\<exists>a. r = Inr a \<and> f a = Inl e)"
  by (cases r) auto

subsection \<open>First match, maximum by key\<close>

text \<open>\<open>next((x for x in xs if p(x)), None)\<close> is \<open>List.find\<close>. \<open>max(xs, key=f)\<close> keeps the first
  element among those with the largest key.\<close>

fun max_by :: "('a \<Rightarrow> 'k::linorder) \<Rightarrow> 'a \<Rightarrow> 'a list \<Rightarrow> 'a" where
  "max_by f m [] = m"
| "max_by f m (x # xs) = max_by f (if f m < f x then x else m) xs"

lemma max_by_in: "max_by f m xs \<in> set (m # xs)"
  by (induction xs arbitrary: m) (auto split: if_splits)

lemma max_by_ge_start: "f m \<le> f (max_by f m xs)"
proof (induction xs arbitrary: m)
  case (Cons x xs)
  show ?case
    using Cons.IH [of x] Cons.IH [of m] by (auto intro: order.trans less_imp_le)
qed simp

lemma max_by_ge: "x \<in> set (m # xs) \<Longrightarrow> f x \<le> f (max_by f m xs)"
proof (induction xs arbitrary: m x)
  case Nil
  then show ?case by simp
next
  case (Cons y ys)
  let ?m = "if f m < f y then y else m"
  have "f ?m \<le> f (max_by f ?m ys)" by (rule max_by_ge_start)
  moreover have "f m \<le> f ?m" "f y \<le> f ?m" by auto
  moreover have "x \<in> set ys \<Longrightarrow> f x \<le> f (max_by f ?m ys)"
    by (rule Cons.IH) simp
  ultimately show ?case
    using Cons.prems by (auto simp del: if_split intro: order.trans)
qed

subsection \<open>The stable sort of a comparator\<close>

text \<open>\<open>sorted(xs, key=cmp_to_key(cmp))\<close> only asks whether \<open>cmp(a, b) < 0\<close>, and keeps the order of
  elements that compare equal. With \<open>reverse=True\<close> it also keeps the order of equal elements.\<close>

fun insert_by :: "('a \<Rightarrow> 'a \<Rightarrow> int) \<Rightarrow> 'a \<Rightarrow> 'a list \<Rightarrow> 'a list" where
  "insert_by cmp x [] = [x]"
| "insert_by cmp x (y # ys) = (if cmp y x < 0 then y # insert_by cmp x ys else x # y # ys)"

definition sorted_by :: "('a \<Rightarrow> 'a \<Rightarrow> int) \<Rightarrow> 'a list \<Rightarrow> 'a list" where
  "sorted_by cmp xs = foldr (insert_by cmp) xs []"

definition sorted_by_desc :: "('a \<Rightarrow> 'a \<Rightarrow> int) \<Rightarrow> 'a list \<Rightarrow> 'a list" where
  "sorted_by_desc cmp xs = rev (sorted_by cmp (rev xs))"

text \<open>\<open>sorted(xs, key=f)\<close>, as the comparator that compares the keys.\<close>

definition key_cmp :: "('a \<Rightarrow> 'k::linorder) \<Rightarrow> 'a \<Rightarrow> 'a \<Rightarrow> int" where
  "key_cmp f x y = (if f x < f y then -1 else if f y < f x then 1 else 0)"

lemma mset_insert_by [simp]: "mset (insert_by cmp x xs) = add_mset x (mset xs)"
  by (induction xs) auto

lemma sorted_by_simps [simp]:
  "sorted_by cmp [] = []"
  "sorted_by cmp (x # xs) = insert_by cmp x (sorted_by cmp xs)"
  by (simp_all add: sorted_by_def)

lemma mset_sorted_by [simp]: "mset (sorted_by cmp xs) = mset xs"
  by (induction xs) auto

lemma set_sorted_by [simp]: "set (sorted_by cmp xs) = set xs"
  by (metis mset_sorted_by set_mset_mset)

lemma length_sorted_by [simp]: "length (sorted_by cmp xs) = length xs"
  by (metis mset_sorted_by size_mset)

lemma set_sorted_by_desc [simp]: "set (sorted_by_desc cmp xs) = set xs"
  by (simp add: sorted_by_desc_def)

lemma mset_sorted_by_desc [simp]: "mset (sorted_by_desc cmp xs) = mset xs"
  by (simp add: sorted_by_desc_def)

text \<open>What the clients of a comparator rely on: its sign is antisymmetric and it is transitive.\<close>

locale comparator =
  fixes cmp :: "'a \<Rightarrow> 'a \<Rightarrow> int"
  assumes sign_swap: "cmp x y < 0 \<longleftrightarrow> 0 < cmp y x"
    and le_trans: "cmp x y \<le> 0 \<Longrightarrow> cmp y z \<le> 0 \<Longrightarrow> cmp x z \<le> 0"
begin

lemma refl [simp]: "cmp x x = 0"
  using sign_swap [of x x] by linarith

lemma zero_sym: "cmp x y = 0 \<longleftrightarrow> cmp y x = 0"
  using sign_swap [of x y] sign_swap [of y x] by linarith

lemma total: "cmp x y \<le> 0 \<or> cmp y x \<le> 0"
  using sign_swap [of x y] sign_swap [of y x] by linarith

lemma le_swap: "cmp x y \<le> 0 \<longleftrightarrow> \<not> cmp y x < 0"
  using sign_swap [of y x] by linarith

lemma zero_trans: "cmp x y = 0 \<Longrightarrow> cmp y z = 0 \<Longrightarrow> cmp x z = 0"
  using le_trans [of x y z] le_trans [of z y x] zero_sym sign_swap [of x z]
  by (metis linorder_not_less nle_le)

lemma sorted_insert_by:
  "sorted_wrt (\<lambda>a b. cmp a b \<le> 0) xs \<Longrightarrow> sorted_wrt (\<lambda>a b. cmp a b \<le> 0) (insert_by cmp x xs)"
proof (induction xs)
  case (Cons y ys)
  have "set (insert_by cmp x ys) = insert x (set ys)"
    by (metis mset_insert_by set_mset_add_mset_insert set_mset_mset)
  moreover have "\<not> cmp y x < 0 \<Longrightarrow> cmp x y \<le> 0"
    using le_swap by blast
  ultimately show ?case
    using Cons by (auto intro: le_trans)
qed simp

lemma sorted_sorted_by: "sorted_wrt (\<lambda>a b. cmp a b \<le> 0) (sorted_by cmp xs)"
  by (induction xs) (auto intro: sorted_insert_by)

lemma sorted_sorted_by_desc: "sorted_wrt (\<lambda>a b. cmp b a \<le> 0) (sorted_by_desc cmp xs)"
  unfolding sorted_by_desc_def sorted_wrt_rev by (rule sorted_sorted_by)

lemma filter_insert_by:
  "filter (\<lambda>y. cmp z y = 0) (insert_by cmp x xs)
     = (if cmp z x = 0 then x # filter (\<lambda>y. cmp z y = 0) xs else filter (\<lambda>y. cmp z y = 0) xs)"
proof (induction xs)
  case (Cons y ys)
  have "cmp y x < 0 \<Longrightarrow> \<not> (cmp z x = 0 \<and> cmp z y = 0)"
    using zero_trans zero_sym by (metis less_irrefl)
  then show ?case using Cons by auto
qed simp

lemma stable_sorted_by: "filter (\<lambda>y. cmp z y = 0) (sorted_by cmp xs) = filter (\<lambda>y. cmp z y = 0) xs"
  by (induction xs) (auto simp: filter_insert_by)

end

lemma comparator_key_cmp: "comparator (key_cmp f)"
  by unfold_locales (auto simp: key_cmp_def split: if_splits)

interpretation by_key: comparator "key_cmp f" for f :: "'a \<Rightarrow> 'k::linorder"
  by (rule comparator_key_cmp)

lemma key_cmp_le [simp]: "key_cmp f x y \<le> 0 \<longleftrightarrow> f x \<le> f y"
  by (auto simp: key_cmp_def)

lemma sorted_key: "sorted (map f (sorted_by (key_cmp f) xs))"
  using by_key.sorted_sorted_by [of f xs] by (simp add: sorted_map)

subsection \<open>Insertion-ordered dictionaries\<close>

text \<open>A Python \<open>dict\<close> keeps the order in which its keys were first inserted: an association list
  with distinct keys. Assignment to a key that is present keeps its place.\<close>

type_synonym ('k, 'v) dict = "('k \<times> 'v) list"

definition dget :: "('k, 'v) dict \<Rightarrow> 'k \<Rightarrow> 'v option" where
  "dget d k = map_of d k"

fun dset :: "('k, 'v) dict \<Rightarrow> 'k \<Rightarrow> 'v \<Rightarrow> ('k, 'v) dict" where
  "dset [] k v = [(k, v)]"
| "dset ((k', v') # d) k v = (if k' = k then (k, v) # d else (k', v') # dset d k v)"

definition ddel :: "('k, 'v) dict \<Rightarrow> 'k \<Rightarrow> ('k, 'v) dict" where
  "ddel d k = filter (\<lambda>(k', _). k' \<noteq> k) d"

definition dkeys :: "('k, 'v) dict \<Rightarrow> 'k list" where
  "dkeys d = map fst d"

text \<open>\<open>d.setdefault(k, v)\<close> and \<open>d.get(k, v)\<close>.\<close>

definition dsetdefault :: "('k, 'v) dict \<Rightarrow> 'k \<Rightarrow> 'v \<Rightarrow> ('k, 'v) dict" where
  "dsetdefault d k v = (case dget d k of None \<Rightarrow> dset d k v | Some _ \<Rightarrow> d)"

definition dget_or :: "('k, 'v) dict \<Rightarrow> 'k \<Rightarrow> 'v \<Rightarrow> 'v" where
  "dget_or d k v = (case dget d k of None \<Rightarrow> v | Some x \<Rightarrow> x)"

definition dict_wf :: "('k, 'v) dict \<Rightarrow> bool" where
  "dict_wf d \<longleftrightarrow> distinct (dkeys d)"

lemma dget_Nil [simp]: "dget [] k = None"
  by (simp add: dget_def)

lemma dget_dset [simp, dict_simps]: "dget (dset d k v) k' = (if k' = k then Some v else dget d k')"
  by (induction d k v rule: dset.induct) (auto simp: dget_def)

lemma dget_ddel [simp, dict_simps]: "dget (ddel d k) k' = (if k' = k then None else dget d k')"
  by (induction d) (auto simp: dget_def ddel_def)

lemma dget_dsetdefault [simp, dict_simps]:
  "dget (dsetdefault d k v) k' = (if k' = k \<and> dget d k = None then Some v else dget d k')"
  by (auto simp: dsetdefault_def split: option.splits)

lemma dget_or_dset [simp, dict_simps]:
  "dget_or (dset d k v) k' w = (if k' = k then v else dget_or d k' w)"
  by (simp add: dget_or_def)

lemma dget_or_Nil [simp]: "dget_or [] k v = v"
  by (simp add: dget_or_def)

lemma set_dkeys_dset [simp, dict_simps]: "set (dkeys (dset d k v)) = insert k (set (dkeys d))"
  by (induction d k v rule: dset.induct) (auto simp: dkeys_def)

lemma dget_None_iff: "dget d k = None \<longleftrightarrow> k \<notin> set (dkeys d)"
  by (simp add: dget_def dkeys_def map_of_eq_None_iff)

lemma dget_Some_key: "dget d k = Some v \<Longrightarrow> k \<in> set (dkeys d)"
  using dget_None_iff [of d k] by auto

lemma dict_wf_Nil [simp]: "dict_wf []"
  by (simp add: dict_wf_def dkeys_def)

lemma dict_wf_dset [simp]: "dict_wf d \<Longrightarrow> dict_wf (dset d k v)"
proof (induction d k v rule: dset.induct)
  case (2 k' v' d k v)
  have "k' \<noteq> k \<Longrightarrow> k' \<notin> set (dkeys (dset d k v)) \<longleftrightarrow> k' \<notin> set (dkeys d)" by simp
  with 2 show ?case by (auto simp: dict_wf_def dkeys_def)
qed (simp add: dict_wf_def dkeys_def)

lemma dict_wf_ddel [simp]: "dict_wf d \<Longrightarrow> dict_wf (ddel d k)"
  unfolding dict_wf_def dkeys_def ddel_def by (induction d) auto

lemma dict_wf_dsetdefault [simp]: "dict_wf d \<Longrightarrow> dict_wf (dsetdefault d k v)"
  by (simp add: dsetdefault_def split: option.split)

lemma dict_wf_mem_iff: "dict_wf d \<Longrightarrow> (k, v) \<in> set d \<longleftrightarrow> dget d k = Some v"
  by (simp add: dict_wf_def dkeys_def dget_def)

end
