(* ===== verification/PyString.thy ===== *)
theory PyString
  imports Prelude
begin

text \<open>
  The methods of Python's \<open>str\<close>, and of \<open>pathlib.PurePosixPath\<close>, that the program uses. A \<open>char\<close> is
  one code point below 256; the character classes (\<open>\d\<close>, \<open>[A-Za-z]\<close>, case mapping) are the ASCII
  ones, so the model covers scripts, names and versions written in ASCII. Line ends and white space
  are Python's, over the whole range.
\<close>

subsection \<open>Character classes and case\<close>

definition code_point :: "char \<Rightarrow> nat" where
  "code_point c = of_char c"

definition is_digit :: "char \<Rightarrow> bool" where
  "is_digit c \<longleftrightarrow> 48 \<le> code_point c \<and> code_point c \<le> 57"

definition is_upper :: "char \<Rightarrow> bool" where
  "is_upper c \<longleftrightarrow> 65 \<le> code_point c \<and> code_point c \<le> 90"

definition is_lower :: "char \<Rightarrow> bool" where
  "is_lower c \<longleftrightarrow> 97 \<le> code_point c \<and> code_point c \<le> 122"

definition is_alpha :: "char \<Rightarrow> bool" where
  "is_alpha c \<longleftrightarrow> is_upper c \<or> is_lower c"

definition is_alnum :: "char \<Rightarrow> bool" where
  "is_alnum c \<longleftrightarrow> is_alpha c \<or> is_digit c"

text \<open>\<open>str.isspace\<close>: what \<open>strip()\<close> with no argument removes.\<close>

definition is_space :: "char \<Rightarrow> bool" where
  "is_space c \<longleftrightarrow> (let n = code_point c in
     9 \<le> n \<and> n \<le> 13 \<or> 28 \<le> n \<and> n \<le> 32 \<or> n = 133 \<or> n = 160)"

definition to_lower :: "char \<Rightarrow> char" where
  "to_lower c = (if is_upper c then char_of (code_point c + 32) else c)"

definition to_upper :: "char \<Rightarrow> char" where
  "to_upper c = (if is_lower c then char_of (code_point c - 32) else c)"

definition str_lower :: "string \<Rightarrow> string" where
  "str_lower s = map to_lower s"

definition str_upper :: "string \<Rightarrow> string" where
  "str_upper s = map to_upper s"

lemmas char_class_defs = code_point_def is_digit_def is_upper_def is_lower_def is_alpha_def
  is_alnum_def is_space_def

lemma code_point_char_of [simp]: "n < 256 \<Longrightarrow> code_point (char_of n) = n"
  by (simp add: code_point_def)

lemma to_lower_idem [simp]: "to_lower (to_lower c) = to_lower c"
  by (auto simp: to_lower_def is_upper_def)

lemma str_lower_idem [simp]: "str_lower (str_lower s) = str_lower s"
  by (simp add: str_lower_def)

lemma length_str_lower [simp]: "length (str_lower s) = length s"
  by (simp add: str_lower_def)

lemma str_lower_append [simp]: "str_lower (s @ t) = str_lower s @ str_lower t"
  by (simp add: str_lower_def)

lemma digit_not_alpha: "is_digit c \<Longrightarrow> \<not> is_alpha c"
  by (auto simp: char_class_defs)

lemma to_lower_digit [simp]: "is_digit c \<Longrightarrow> to_lower c = c"
  by (auto simp: to_lower_def char_class_defs)

lemma is_alpha_to_lower [simp]: "is_alpha (to_lower c) = is_alpha c"
  by (auto simp: to_lower_def is_alpha_def is_upper_def is_lower_def)

subsection \<open>Strip, prefixes, search, replace, split\<close>

definition lstrip_by :: "(char \<Rightarrow> bool) \<Rightarrow> string \<Rightarrow> string" where
  "lstrip_by P s = dropWhile P s"

definition rstrip_by :: "(char \<Rightarrow> bool) \<Rightarrow> string \<Rightarrow> string" where
  "rstrip_by P s = rev (dropWhile P (rev s))"

definition strip_by :: "(char \<Rightarrow> bool) \<Rightarrow> string \<Rightarrow> string" where
  "strip_by P s = rstrip_by P (lstrip_by P s)"

definition strip :: "string \<Rightarrow> string" where
  "strip s = strip_by is_space s"

fun starts_with :: "string \<Rightarrow> string \<Rightarrow> bool" where
  "starts_with s [] = True"
| "starts_with [] (p # ps) = False"
| "starts_with (c # s) (p # ps) = (c = p \<and> starts_with s ps)"

definition ends_with :: "string \<Rightarrow> string \<Rightarrow> bool" where
  "ends_with s p = starts_with (rev s) (rev p)"

text \<open>\<open>s.find(p)\<close>, with \<open>None\<close> for -1, and \<open>p in s\<close>.\<close>

fun find_sub :: "string \<Rightarrow> string \<Rightarrow> nat option" where
  "find_sub p [] = (if p = [] then Some 0 else None)"
| "find_sub p (c # s) = (if starts_with (c # s) p then Some 0 else map_option Suc (find_sub p s))"

definition contains :: "string \<Rightarrow> string \<Rightarrow> bool" where
  "contains s p \<longleftrightarrow> find_sub p s \<noteq> None"

text \<open>\<open>s.replace(old, new)\<close> for a non-empty \<open>old\<close>: left to right, without overlaps.\<close>

function replace_all :: "string \<Rightarrow> string \<Rightarrow> string \<Rightarrow> string" where
  "replace_all old new [] = []"
| "replace_all old new (c # s) =
     (if old \<noteq> [] \<and> starts_with (c # s) old
      then new @ replace_all old new (drop (length old) (c # s))
      else c # replace_all old new s)"
  by pat_completeness auto
termination
  by (relation "measure (\<lambda>(old, new, s). length s)") (auto simp: length_greater_0_conv)

text \<open>\<open>s.split(sep)\<close> for a one-character separator, and \<open>re.split("[...]", s)\<close> for a class of them.\<close>

fun split_on :: "(char \<Rightarrow> bool) \<Rightarrow> string \<Rightarrow> string list" where
  "split_on P [] = [[]]"
| "split_on P (c # s) =
     (if P c then [] # split_on P s
      else (case split_on P s of [] \<Rightarrow> [[c]] | x # xs \<Rightarrow> (c # x) # xs))"

text \<open>\<open>s.split(c, 1)\<close> when \<open>c\<close> occurs.\<close>

definition split_first :: "char \<Rightarrow> string \<Rightarrow> string \<times> string" where
  "split_first c s = (takeWhile (\<lambda>x. x \<noteq> c) s, drop 1 (dropWhile (\<lambda>x. x \<noteq> c) s))"

fun join :: "string \<Rightarrow> string list \<Rightarrow> string" where
  "join sep [] = []"
| "join sep [x] = x"
| "join sep (x # y # xs) = x @ sep @ join sep (y # xs)"

lemma starts_with_iff: "starts_with s p \<longleftrightarrow> (\<exists>t. s = p @ t)"
  by (induction s p rule: starts_with.induct) auto

lemma starts_with_append [simp]: "starts_with (p @ t) p"
  by (auto simp: starts_with_iff)

lemma starts_with_self [simp]: "starts_with p p"
  by (auto simp: starts_with_iff)

lemma ends_with_iff: "ends_with s p \<longleftrightarrow> (\<exists>t. s = t @ p)"
  unfolding ends_with_def starts_with_iff by (metis rev_append rev_rev_ident)

lemma starts_with_trans: "starts_with s p \<Longrightarrow> starts_with p q \<Longrightarrow> starts_with s q"
  by (auto simp: starts_with_iff)

lemma find_sub_None_iff: "find_sub p s = None \<longleftrightarrow> (\<forall>u v. s \<noteq> u @ p @ v)"
proof (induction p s rule: find_sub.induct)
  case (2 p c s)
  show ?case
  proof (cases "starts_with (c # s) p")
    case True
    then obtain t where "c # s = [] @ p @ t" by (auto simp: starts_with_iff)
    then have "\<not> (\<forall>u v. c # s \<noteq> u @ p @ v)" by blast
    with True show ?thesis by simp
  next
    case False
    have "(\<exists>u v. c # s = u @ p @ v) \<longleftrightarrow> (\<exists>u v. s = u @ p @ v)"
    proof
      assume "\<exists>u v. c # s = u @ p @ v"
      then obtain u v where uv: "c # s = u @ p @ v" by blast
      with False have "u \<noteq> []" by (auto simp: starts_with_iff)
      then obtain u' where "u = c # u'" using uv by (cases u) auto
      with uv show "\<exists>u v. s = u @ p @ v" by auto
    next
      assume "\<exists>u v. s = u @ p @ v"
      then obtain u v where "s = u @ p @ v" by blast
      then have "c # s = (c # u) @ p @ v" by simp
      then show "\<exists>u v. c # s = u @ p @ v" by blast
    qed
    then have "(\<forall>u v. c # s \<noteq> u @ p @ v) \<longleftrightarrow> (\<forall>u v. s \<noteq> u @ p @ v)" by blast
    with False "2.IH" show ?thesis by (simp only: find_sub.simps if_False option.map_disc_iff not_False_eq_True simp_thms)
  qed
qed auto

lemma contains_iff: "contains s p \<longleftrightarrow> (\<exists>u v. s = u @ p @ v)"
  by (auto simp: contains_def find_sub_None_iff)

lemma replace_all_absent: "\<not> contains s old \<Longrightarrow> replace_all old new s = s"
proof (induction old new s rule: replace_all.induct)
  case (2 old new c s)
  have "\<not> starts_with (c # s) old"
    using "2.prems" by (auto simp: contains_def)
  moreover have "\<not> contains s old"
  proof
    assume "contains s old"
    then obtain u v where "s = u @ old @ v" by (auto simp: contains_iff)
    then have "c # s = (c # u) @ old @ v" by simp
    then have "contains (c # s) old" unfolding contains_iff by blast
    with "2.prems" show False by simp
  qed
  ultimately show ?case using 2 by simp
qed simp

lemma split_on_not_Nil [simp]: "split_on P s \<noteq> []"
  by (cases s) (auto split: list.splits)

lemma split_on_no_sep: "s' \<in> set (split_on P s) \<Longrightarrow> c \<in> set s' \<Longrightarrow> \<not> P c"
proof (induction P s arbitrary: s' rule: split_on.induct)
  case (2 P d s)
  show ?case
  proof (cases "P d")
    case True
    with 2 show ?thesis by auto
  next
    case False
    obtain x xs where xs: "split_on P s = x # xs" by (cases "split_on P s") auto
    with False "2.prems" consider "s' = d # x" | "s' \<in> set xs" by auto
    then show ?thesis
    proof cases
      case 1
      with "2.prems" False "2.IH" (2) [OF False, of x] xs show ?thesis by auto
    next
      case 2
      with "2.prems" False "2.IH" (2) [OF False, of s'] xs show ?thesis by auto
    qed
  qed
qed simp

lemma split_on_id: "\<forall>c \<in> set s. \<not> P c \<Longrightarrow> split_on P s = [s]"
  by (induction s) auto

lemma split_on_append_sep:
  "\<forall>c \<in> set s. \<not> P c \<Longrightarrow> P d \<Longrightarrow> split_on P (s @ d # t) = s # split_on P t"
  by (induction s) auto

lemma split_on_map:
  "(\<And>c. P (f c) = P c) \<Longrightarrow> (\<And>c. \<not> P c \<Longrightarrow> f c = c) \<Longrightarrow> split_on P (map f s) = split_on P s"
proof (induction s)
  case (Cons c s)
  then show ?case by (cases "P c") simp_all
qed simp

subsection \<open>Lines\<close>

text \<open>The line boundaries of \<open>str.splitlines\<close> below code point 256; a CR LF pair is one boundary.\<close>

definition is_line_end :: "char \<Rightarrow> bool" where
  "is_line_end c \<longleftrightarrow> (let n = code_point c in
     10 \<le> n \<and> n \<le> 13 \<or> 28 \<le> n \<and> n \<le> 30 \<or> n = 133)"

function splitlines :: "string \<Rightarrow> string list" where
  "splitlines s =
     (if s = [] then []
      else let l = takeWhile (\<lambda>c. \<not> is_line_end c) s; r = dropWhile (\<lambda>c. \<not> is_line_end c) s
           in l # (case r of
                     [] \<Rightarrow> []
                   | c # r' \<Rightarrow>
                       (if code_point c = 13 \<and> r' \<noteq> [] \<and> code_point (hd r') = 10
                        then splitlines (tl r') else splitlines r')))"
  by pat_completeness auto
termination
proof (relation "measure length", goal_cases)
  case 1 show ?case by simp
next
  case (2 s l r c r')
  then have "length (c # r') \<le> length s" by (metis length_dropWhile_le)
  then have "length (tl r') < length s" by simp
  then show ?case by simp
next
  case (3 s l r c r')
  then have "length (c # r') \<le> length s" by (metis length_dropWhile_le)
  then show ?case by simp
qed

declare splitlines.simps [simp del]

lemma splitlines_Nil [simp]: "splitlines [] = []"
  by (simp add: splitlines.simps)

lemma splitlines_line:
  assumes "\<forall>c \<in> set l. \<not> is_line_end c" and "l \<noteq> []"
  shows "splitlines l = [l]"
  using assms by (subst splitlines.simps) (simp add: takeWhile_eq_all_conv [THEN iffD2] dropWhile_eq_Nil_conv [THEN iffD2])

lemma splitlines_LF:
  assumes "\<forall>c \<in> set l. \<not> is_line_end c" and "is_line_end c" and "code_point c \<noteq> 13"
  shows "splitlines (l @ c # r) = l # splitlines r"
  using assms by (subst splitlines.simps) (simp add: Let_def takeWhile_append2 dropWhile_append2)

lemma splitlines_CRLF:
  assumes "\<forall>c \<in> set l. \<not> is_line_end c"
  shows "splitlines (l @ CHR 0x0D # CHR 0x0A # r) = l # splitlines r"
  using assms by (subst splitlines.simps)
    (simp add: Let_def takeWhile_append2 dropWhile_append2 is_line_end_def code_point_def)

subsection \<open>Numbers\<close>

definition digit_val :: "char \<Rightarrow> nat" where
  "digit_val c = code_point c - 48"

text \<open>\<open>int(token)\<close> for a run of decimal digits.\<close>

definition nat_of_digits :: "string \<Rightarrow> nat" where
  "nat_of_digits s = foldl (\<lambda>n c. 10 * n + digit_val c) 0 s"

fun digits_of_nat :: "nat \<Rightarrow> string" where
  "digits_of_nat n =
     (if n < 10 then [char_of (48 + n)] else digits_of_nat (n div 10) @ [char_of (48 + n mod 10)])"

declare digits_of_nat.simps [simp del]

lemma nat_of_digits_snoc: "nat_of_digits (s @ [c]) = 10 * nat_of_digits s + digit_val c"
  by (simp add: nat_of_digits_def)

lemma nat_of_digits_of_nat [simp]: "nat_of_digits (digits_of_nat n) = n"
proof (induction n rule: digits_of_nat.induct)
  case (1 n)
  show ?case
  proof (cases "n < 10")
    case True
    then show ?thesis
      by (subst digits_of_nat.simps) (simp add: nat_of_digits_def digit_val_def)
  next
    case False
    then have "nat_of_digits (digits_of_nat (n div 10)) = n div 10" using 1 by simp
    with False show ?thesis
      by (subst digits_of_nat.simps) (simp add: nat_of_digits_snoc digit_val_def)
  qed
qed

lemma digits_of_nat_digit: "c \<in> set (digits_of_nat n) \<Longrightarrow> is_digit c"
proof (induction n rule: digits_of_nat.induct)
  case (1 n)
  have "n < 10 \<Longrightarrow> is_digit (char_of (48 + n))" and "is_digit (char_of (48 + n mod 10))"
    by (simp_all add: is_digit_def)
  with 1 show ?case
    by (subst (asm) digits_of_nat.simps) (auto split: if_splits)
qed

lemma digits_of_nat_not_Nil [simp]: "digits_of_nat n \<noteq> []"
  by (subst digits_of_nat.simps) simp

subsection \<open>Paths\<close>

text \<open>\<open>Path(s).name\<close>: the last component, empty and \<open>.\<close> components left out.\<close>

definition path_name :: "string \<Rightarrow> string" where
  "path_name s = (let parts = filter (\<lambda>p. p \<noteq> [] \<and> p \<noteq> ''.'') (split_on (\<lambda>c. c = CHR ''/'') s)
                  in if parts = [] then [] else last parts)"

text \<open>\<open>Path(s).suffix\<close>: from the last dot of the name, unless the name starts or ends with that dot.\<close>

definition path_suffix :: "string \<Rightarrow> string" where
  "path_suffix s =
     (let nm = path_name s; tail = takeWhile (\<lambda>c. c \<noteq> CHR ''.'') (rev nm);
          i = length nm - length tail
      in if tail = [] \<or> i \<le> 1 then [] else CHR ''.'' # rev tail)"

lemma path_name_plain: "CHR ''/'' \<notin> set s \<Longrightarrow> s \<noteq> ''.'' \<Longrightarrow> path_name s = s"
proof -
  assume "CHR ''/'' \<notin> set s" and dot: "s \<noteq> ''.''"
  then have "split_on (\<lambda>c. c = CHR ''/'') s = [s]" by (intro split_on_id) auto
  with dot show ?thesis by (auto simp: path_name_def)
qed

lemma path_name_no_slash: "CHR ''/'' \<notin> set (path_name s)"
proof -
  let ?ps = "split_on (\<lambda>c. c = CHR ''/'') s"
  let ?qs = "filter (\<lambda>p. p \<noteq> [] \<and> p \<noteq> ''.'') ?ps"
  show ?thesis
  proof (cases "?qs = []")
    case True
    then have "path_name s = []" unfolding path_name_def Let_def by (rule if_P)
    then show ?thesis by simp
  next
    case False
    then have nm: "path_name s = last ?qs" unfolding path_name_def Let_def by (rule if_not_P)
    from last_in_set [OF False] have "last ?qs \<in> set ?ps"
      by (rule subsetD [OF filter_is_subset])
    then have "\<not> (CHR ''/'' = CHR ''/'')" if "CHR ''/'' \<in> set (last ?qs)"
      using that by (rule split_on_no_sep)
    then show ?thesis unfolding nm by blast
  qed
qed

lemma path_name_idem [simp]: "path_name (path_name s) = path_name s"
proof -
  let ?qs = "filter (\<lambda>p. p \<noteq> [] \<and> p \<noteq> ''.'') (split_on (\<lambda>c. c = CHR ''/'') s)"
  have "path_name s \<noteq> ''.''"
  proof (cases "?qs = []")
    case True
    then have "path_name s = []" unfolding path_name_def Let_def by (rule if_P)
    then show ?thesis by simp
  next
    case False
    then have nm: "path_name s = last ?qs" unfolding path_name_def Let_def by (rule if_not_P)
    from last_in_set [OF False] have "last ?qs \<noteq> ''.''"
      unfolding set_filter by blast
    with nm show ?thesis by simp
  qed
  then show ?thesis by (rule path_name_plain [OF path_name_no_slash])
qed

subsection \<open>Optional texts\<close>

text \<open>The truth value of an optional text, and \<open>a or b\<close>.\<close>

definition truthy :: "string option \<Rightarrow> bool" where
  "truthy v \<longleftrightarrow> (case v of None \<Rightarrow> False | Some s \<Rightarrow> s \<noteq> [])"

definition or_else :: "string option \<Rightarrow> string option \<Rightarrow> string option" where
  "or_else a b = (if truthy a then a else b)"

end
