(* ===== verification/Versions.thy ===== *)
theory Versions
  imports PyString
begin

text \<open>
  \<^verbatim>\<open>dblift/core/migration/version_utils.py\<close> and \<^verbatim>\<open>target_version.py\<close>: the version comparison every
  command orders by, and the check of \<open>--target-version\<close> against the versions on disk. The comparison
  is proved equal to the order of a key (\<open>version_key\<close>), so it is a total preorder and the sorts of
  the program that use it are determined by it.
\<close>

subsection \<open>Segments and runs\<close>

text \<open>\<open>_VersionRun\<close>: (kind, number, text), kind 0 a digit run and kind 1 a letter run. Python orders
  the tuples component by component, as the product order does here.\<close>

type_synonym version_run = "nat \<times> nat \<times> string"
type_synonym version_part = "version_run list"

definition EMPTY_RUN :: version_run where
  "EMPTY_RUN = (0, 0, [])"

text \<open>\<open>_RUN_RE.findall\<close>: the maximal digit or letter runs of a segment, everything else skipped.\<close>

function run_tokens :: "string \<Rightarrow> string list" where
  "run_tokens [] = []"
| "run_tokens (c # s) =
     (if is_digit c then (c # takeWhile is_digit s) # run_tokens (dropWhile is_digit s)
      else if is_alpha c then (c # takeWhile is_alpha s) # run_tokens (dropWhile is_alpha s)
      else run_tokens s)"
  by pat_completeness auto
termination
  by (relation "measure length") (auto simp: le_imp_less_Suc length_dropWhile_le)

definition run_of_token :: "string \<Rightarrow> version_run" where
  "run_of_token token = (if list_all is_digit token then (0, nat_of_digits token, [])
                         else (1, 0, str_lower token))"

definition segment_runs :: "string \<Rightarrow> version_part" where
  "segment_runs segment =
     (let runs = map run_of_token (run_tokens segment) in if runs = [] then [EMPTY_RUN] else runs)"

definition is_version_sep :: "char \<Rightarrow> bool" where
  "is_version_sep c \<longleftrightarrow> c = CHR ''.'' \<or> c = CHR ''_''"

definition parse_version_parts :: "string \<Rightarrow> version_part list" where
  "parse_version_parts ver =
     (if ver = [] then [] else map segment_runs (split_on is_version_sep ver))"

subsection \<open>Comparison\<close>

fun compare_segments :: "version_part \<Rightarrow> version_part \<Rightarrow> int" where
  "compare_segments [] [] = 0"
| "compare_segments [] (r # rs) = -1"
| "compare_segments (l # ls) [] = 1"
| "compare_segments (l # ls) (r # rs) =
     (if l \<noteq> r then (if l < r then -1 else 1) else compare_segments ls rs)"

text \<open>The loop over the segments; a missing segment is read as \<open>[_EMPTY_RUN]\<close>.\<close>

fun compare_parts :: "version_part list \<Rightarrow> version_part list \<Rightarrow> int" where
  "compare_parts [] [] = 0"
| "compare_parts [] (q # qs) =
     (let r = compare_segments [EMPTY_RUN] q in if r \<noteq> 0 then r else compare_parts [] qs)"
| "compare_parts (p # ps) [] =
     (let r = compare_segments p [EMPTY_RUN] in if r \<noteq> 0 then r else compare_parts ps [])"
| "compare_parts (p # ps) (q # qs) =
     (let r = compare_segments p q in if r \<noteq> 0 then r else compare_parts ps qs)"

definition version_text :: "string option \<Rightarrow> string" where
  "version_text v = (case v of None \<Rightarrow> [] | Some s \<Rightarrow> strip s)"

definition compare_versions :: "string option \<Rightarrow> string option \<Rightarrow> int" where
  "compare_versions version1 version2 =
     (let v1 = version_text version1; v2 = version_text version2
      in if v1 = v2 then 0 else compare_parts (parse_version_parts v1) (parse_version_parts v2))"

text \<open>The callers compare two strings.\<close>

definition vcmp :: "string \<Rightarrow> string \<Rightarrow> int" where
  "vcmp a b = compare_versions (Some a) (Some b)"

subsection \<open>The order behind the comparison\<close>

text \<open>Trailing segments that compare as zero do not count.\<close>

fun trim_parts :: "version_part list \<Rightarrow> version_part list" where
  "trim_parts [] = []"
| "trim_parts (p # ps) = (if p = [EMPTY_RUN] \<and> trim_parts ps = [] then [] else p # trim_parts ps)"

definition version_key :: "string option \<Rightarrow> version_part list" where
  "version_key v = trim_parts (parse_version_parts (version_text v))"

definition order_sign :: "'a::linorder \<Rightarrow> 'a \<Rightarrow> int" where
  "order_sign a b = (if a < b then -1 else if a = b then 0 else 1)"

lemma compare_segments_eq: "compare_segments l r = order_sign l r"
  by (induction l r rule: compare_segments.induct) (auto simp: order_sign_def)

lemma order_sign_zero [simp]: "order_sign a b = 0 \<longleftrightarrow> a = b"
  by (auto simp: order_sign_def)

lemma order_sign_Cons:
  "order_sign (a # as) (b # bs) = (if a = b then order_sign as bs else order_sign a b)"
  by (auto simp: order_sign_def)

lemma Nil_less_iff [simp]: "[] < (xs :: 'a::linorder list) \<longleftrightarrow> xs \<noteq> []"
  by (cases xs) auto

lemma EMPTY_RUN_least: "EMPTY_RUN \<le> r"
  by (cases r) (auto simp: EMPTY_RUN_def less_eq_prod_def)

lemma EMPTY_part_least: "p \<noteq> [] \<Longrightarrow> [EMPTY_RUN] \<le> p"
proof (cases p)
  case (Cons r rs)
  then show ?thesis using EMPTY_RUN_least [of r] by (auto simp: le_less)
qed simp

lemma compare_parts_Nil_left:
  "\<forall>q \<in> set qs. q \<noteq> [] \<Longrightarrow> compare_parts [] qs = (if trim_parts qs = [] then 0 else -1)"
proof (induction qs)
  case (Cons q qs)
  then have "[EMPTY_RUN] \<le> q" by (simp add: EMPTY_part_least)
  then have "compare_segments [EMPTY_RUN] q = (if q = [EMPTY_RUN] then 0 else -1)"
    by (auto simp: compare_segments_eq order_sign_def)
  with Cons show ?case by (simp add: Let_def)
qed simp

lemma compare_parts_Nil_right:
  "\<forall>p \<in> set ps. p \<noteq> [] \<Longrightarrow> compare_parts ps [] = (if trim_parts ps = [] then 0 else 1)"
proof (induction ps)
  case (Cons p ps)
  then have "[EMPTY_RUN] \<le> p" by (simp add: EMPTY_part_least)
  then have "compare_segments p [EMPTY_RUN] = (if p = [EMPTY_RUN] then 0 else 1)"
    by (auto simp: compare_segments_eq order_sign_def)
  with Cons show ?case by (simp add: Let_def)
qed simp

lemma compare_parts_key:
  assumes "\<forall>p \<in> set ps. p \<noteq> []" and "\<forall>q \<in> set qs. q \<noteq> []"
  shows "compare_parts ps qs = order_sign (trim_parts ps) (trim_parts qs)"
  using assms
proof (induction ps qs rule: compare_parts.induct)
  case (2 q qs)
  then show ?case using compare_parts_Nil_left [of "q # qs"]
    by (auto simp: order_sign_def simp del: compare_parts.simps)
next
  case (3 p ps)
  then show ?case using compare_parts_Nil_right [of "p # ps"]
    by (auto simp: order_sign_def simp del: compare_parts.simps)
next
  case (4 p ps q qs)
  have IH: "p = q \<Longrightarrow> compare_parts ps qs = order_sign (trim_parts ps) (trim_parts qs)"
    using 4 by (simp add: compare_segments_eq)
  have least: "[EMPTY_RUN] \<le> p" "[EMPTY_RUN] \<le> q"
    using "4.prems" by (simp_all add: EMPTY_part_least)
  have step: "compare_parts (p # ps) (q # qs)
      = (if p = q then order_sign (trim_parts ps) (trim_parts qs) else order_sign p q)"
    using IH by (simp add: compare_segments_eq)
  show ?case unfolding step
    using least by (auto simp: order_sign_Cons) (auto simp: order_sign_def)
qed (simp add: order_sign_def)

lemma segment_runs_not_Nil [simp]: "segment_runs s \<noteq> []"
  by (simp add: segment_runs_def Let_def)

lemma parse_version_parts_not_Nil: "p \<in> set (parse_version_parts v) \<Longrightarrow> p \<noteq> []"
  by (auto simp: parse_version_parts_def split: if_splits)

lemma compare_versions_key:
  "compare_versions v w = order_sign (version_key v) (version_key w)"
proof -
  have "compare_parts (parse_version_parts a) (parse_version_parts b)
      = order_sign (trim_parts (parse_version_parts a)) (trim_parts (parse_version_parts b))" for a b
    by (intro compare_parts_key ballI parse_version_parts_not_Nil)
  then show ?thesis
    by (auto simp: compare_versions_def version_key_def Let_def)
qed

lemma vcmp_key: "vcmp a b = order_sign (version_key (Some a)) (version_key (Some b))"
  by (simp add: vcmp_def compare_versions_key)

lemma vcmp_le_iff: "vcmp a b \<le> 0 \<longleftrightarrow> version_key (Some a) \<le> version_key (Some b)"
  by (auto simp: vcmp_key order_sign_def)

lemma vcmp_less_iff: "vcmp a b < 0 \<longleftrightarrow> version_key (Some a) < version_key (Some b)"
  by (auto simp: vcmp_key order_sign_def)

lemma vcmp_zero_iff: "vcmp a b = 0 \<longleftrightarrow> version_key (Some a) = version_key (Some b)"
  by (simp add: vcmp_key)

interpretation version_cmp: comparator vcmp
  by unfold_locales (auto simp: vcmp_key order_sign_def split: if_splits)

interpretation opt_version_cmp: comparator compare_versions
  by unfold_locales (auto simp: compare_versions_key order_sign_def split: if_splits)

text \<open>
  C1. The migrator's comparison of two versions is the comparison of their keys in one linear order
  (lists of segments, segments lists of runs), the sign being -1, 0 or 1. So it is a total preorder:
  equality is an equivalence, trailing zero segments and the separator do not count, and a longer
  segment is above its prefix.
\<close>

theorem compare_versions_total_preorder:
  "compare_versions v w =
     (if version_key v < version_key w then -1 else if version_key v = version_key w then 0 else 1)"
  using compare_versions_key [of v w] by (simp add: order_sign_def)

subsection \<open>Separators and case\<close>

text \<open>\<open>1_2_3\<close> and \<open>1.2.3\<close> are the same version, whatever the segments hold.\<close>

lemma parse_version_parts_sep:
  "parse_version_parts (map (\<lambda>c. if c = CHR ''_'' then CHR ''.'' else c) v) = parse_version_parts v"
proof -
  let ?f = "\<lambda>c. if c = CHR ''_'' then CHR ''.'' else c"
  have "split_on is_version_sep (map ?f v) = split_on is_version_sep v"
    by (rule split_on_map) (auto simp: is_version_sep_def)
  then show ?thesis by (simp add: parse_version_parts_def)
qed

lemma nat_of_digits_zero: "nat_of_digits ''0'' = 0"
  by (simp add: nat_of_digits_def digit_val_def code_point_def)

lemma segment_runs_digits:
  assumes "list_all is_digit s" and "s \<noteq> []"
  shows "segment_runs s = [(0, nat_of_digits s, [])]"
proof -
  obtain c s' where s: "s = c # s'" using assms(2) by (cases s) auto
  have "\<forall>x \<in> set s'. is_digit x" "is_digit c" "list_all is_digit s'"
    using assms(1) s by (simp_all add: list_all_iff)
  then show ?thesis
    by (simp add: s segment_runs_def run_of_token_def takeWhile_eq_all_conv [THEN iffD2]
        dropWhile_eq_Nil_conv [THEN iffD2])
qed

subsection \<open>Target versions\<close>

text \<open>The merging loops of \<^verbatim>\<open>available_versions\<close> and \<^verbatim>\<open>merge_versions\<close>: a version is kept when it
  equals none seen before.\<close>

fun distinct_versions :: "string list \<Rightarrow> string list \<Rightarrow> string list" where
  "distinct_versions seen [] = seen"
| "distinct_versions seen (v # vs) =
     (if list_ex (\<lambda>k. vcmp v k = 0) seen then distinct_versions seen vs
      else distinct_versions (seen @ [v]) vs)"

definition merge_versions :: "string list list \<Rightarrow> string list" where
  "merge_versions groups = sorted_by vcmp (distinct_versions [] (concat groups))"

datatype target_error = InvalidTargetVersionError string "string list"

definition first_is_digit :: "string \<Rightarrow> bool" where
  "first_is_digit s = (case s of [] \<Rightarrow> False | c # _ \<Rightarrow> is_digit c)"

definition validate_target_version ::
  "string option \<Rightarrow> string list \<Rightarrow> bool \<Rightarrow> target_error + unit" where
  "validate_target_version target versions allow_zero =
     (case target of
        None \<Rightarrow> Inr ()
      | Some t \<Rightarrow>
          (let val = strip t in
           if allow_zero \<and> val \<noteq> [] \<and> vcmp val ''0'' = 0 \<and> first_is_digit val then Inr ()
           else if first_is_digit val \<and> list_ex (\<lambda>known. vcmp val known = 0) versions then Inr ()
           else Inl (InvalidTargetVersionError t versions)))"

abbreviation vkey :: "string \<Rightarrow> version_part list" where
  "vkey v \<equiv> version_key (Some v)"

lemma distinct_versions_spec:
  assumes "distinct (map vkey seen)"
  shows "distinct (map vkey (distinct_versions seen vs))
       \<and> set (distinct_versions seen vs) \<subseteq> set seen \<union> set vs
       \<and> vkey ` set (distinct_versions seen vs) = vkey ` (set seen \<union> set vs)"
  using assms
proof (induction seen vs rule: distinct_versions.induct)
  case (2 seen v vs)
  show ?case
  proof (cases "list_ex (\<lambda>k. vcmp v k = 0) seen")
    case True
    then have "vkey v \<in> vkey ` set seen" by (auto simp: list_ex_iff vcmp_zero_iff)
    with 2 True show ?thesis by auto
  next
    case False
    then have "vkey v \<notin> vkey ` set seen" by (auto simp: list_ex_iff vcmp_zero_iff)
    with 2 False show ?thesis by auto
  qed
qed simp

lemma sorted_strict:
  assumes "distinct (map vkey vs)"
  shows "sorted_wrt (\<lambda>a b. vcmp a b < 0) (sorted_by vcmp vs)"
proof -
  have "mset (map vkey (sorted_by vcmp vs)) = mset (map vkey vs)" by simp
  with assms have "distinct (map vkey (sorted_by vcmp vs))"
    by (metis mset_eq_imp_distinct_iff)
  moreover have "sorted (map vkey (sorted_by vcmp vs))"
    using version_cmp.sorted_sorted_by [of vs] by (simp add: vcmp_le_iff sorted_map)
  ultimately have "sorted_wrt (<) (map vkey (sorted_by vcmp vs))"
    by (simp add: strict_sorted_iff)
  then show ?thesis by (simp add: sorted_wrt_map vcmp_less_iff)
qed

text \<open>
  C2. Merging groups of versions returns them lowest first, strictly increasing under the migrator's
  comparison (so equal versions are counted once); every returned version was given, and every given
  version equals a returned one.
\<close>

theorem merge_versions_sound:
  "sorted_wrt (\<lambda>a b. vcmp a b < 0) (merge_versions groups)
   \<and> set (merge_versions groups) \<subseteq> set (concat groups)
   \<and> version_key ` Some ` set (merge_versions groups) = version_key ` Some ` set (concat groups)"
proof -
  have "distinct (map vkey (distinct_versions [] (concat groups)))"
    "set (distinct_versions [] (concat groups)) \<subseteq> set (concat groups)"
    "vkey ` set (distinct_versions [] (concat groups)) = vkey ` set (concat groups)"
    using distinct_versions_spec [of "[]" "concat groups"] by simp_all
  then show ?thesis
    by (simp add: merge_versions_def sorted_strict image_image)
qed

text \<open>
  C3. A target version is refused exactly when its stripped text does not start with a digit or
  equals no version on disk under the migrator's comparison; \<open>0\<close> and its spellings pass where the
  command allows them, and no target always passes.
\<close>

theorem validate_target_version_iff:
  "validate_target_version target versions allow_zero = Inr () \<longleftrightarrow>
     (case target of None \<Rightarrow> True
      | Some t \<Rightarrow> first_is_digit (strip t) \<and>
          (version_key (Some (strip t)) \<in> version_key ` Some ` set versions \<or>
           (allow_zero \<and> version_key (Some (strip t)) = version_key (Some ''0''))))"
proof (cases target)
  case (Some t)
  have "strip t \<noteq> []" if "first_is_digit (strip t)"
    using that by (auto simp: first_is_digit_def)
  moreover have "list_ex (\<lambda>known. vcmp (strip t) known = 0) versions
      \<longleftrightarrow> version_key (Some (strip t)) \<in> version_key ` Some ` set versions"
    by (auto simp: list_ex_iff vcmp_zero_iff)
  ultimately show ?thesis
    using Some by (auto simp: validate_target_version_def Let_def vcmp_zero_iff)
qed (simp add: validate_target_version_def)

end
