(* ===== verification/Migrations.thy ===== *)
theory Migrations
  imports Versions
begin

text \<open>
  The data model of \<^verbatim>\<open>dblift/core/migration\<close>: migration types and formats, the migration object with
  the fields the state layer reads, the outcome stored in the history table's \<open>success\<close> column and
  the two predicates on it, type matching, display states and eligibility.
\<close>

subsection \<open>Types and formats\<close>

datatype migration_type =
  SQL | PYTHON | REPEATABLE | UNDO_SQL | BASELINE | CALLBACK | DELETE | UNKNOWN

text \<open>\<open>MigrationType\<close>'s names and values coincide.\<close>

fun type_name :: "migration_type \<Rightarrow> string" where
  "type_name SQL = ''SQL''"
| "type_name PYTHON = ''PYTHON''"
| "type_name REPEATABLE = ''REPEATABLE''"
| "type_name UNDO_SQL = ''UNDO_SQL''"
| "type_name BASELINE = ''BASELINE''"
| "type_name CALLBACK = ''CALLBACK''"
| "type_name DELETE = ''DELETE''"
| "type_name UNKNOWN = ''UNKNOWN''"

definition VERSIONED_SCRIPT_TYPES :: "string list" where
  "VERSIONED_SCRIPT_TYPES = [''SQL'', ''PYTHON'']"

definition all_types :: "migration_type list" where
  "all_types = [SQL, PYTHON, REPEATABLE, UNDO_SQL, BASELINE, CALLBACK, DELETE, UNKNOWN]"

text \<open>\<open>MigrationType[name] if name in MigrationType.__members__ else UNKNOWN\<close>\<close>

definition type_of_name :: "string \<Rightarrow> migration_type" where
  "type_of_name s = (case List.find (\<lambda>t. type_name t = s) all_types of None \<Rightarrow> UNKNOWN | Some t \<Rightarrow> t)"

datatype migration_format =
  FSQL | FPYTHON | FJAVASCRIPT | FCYPHER | FCQL | FGREMLIN | FJSON | FYAML | FUNKNOWN

lemma type_name_inject [simp]: "type_name a = type_name b \<longleftrightarrow> a = b"
  by (cases a; cases b) auto

lemma type_of_name_roundtrip [simp]: "type_of_name (type_name t) = t"
  by (cases t) (simp_all add: type_of_name_def all_types_def)

subsection \<open>Type matching\<close>

text \<open>What \<open>migration_type_name\<close> accepts: an enum member, a bare string, \<open>None\<close>, an object with a string
  \<open>.value\<close>, one with a string \<open>.name\<close>, or anything else by its \<open>str()\<close>.\<close>

datatype type_value =
    TNone
  | TEnum migration_type
  | TStr string
  | TObject (obj_value: "string option") (obj_name: "string option") (obj_str: string)

fun migration_type_name :: "type_value \<Rightarrow> string" where
  "migration_type_name TNone = ''UNKNOWN''"
| "migration_type_name (TEnum t) = type_name t"
| "migration_type_name (TStr s) = s"
| "migration_type_name (TObject v n s) =
     (case v of Some x \<Rightarrow> x | None \<Rightarrow> (case n of Some x \<Rightarrow> x | None \<Rightarrow> s))"

definition is_versioned :: "type_value \<Rightarrow> bool" where
  "is_versioned v \<longleftrightarrow> migration_type_name v \<in> set VERSIONED_SCRIPT_TYPES"

definition is_migration_type :: "type_value \<Rightarrow> type_value \<Rightarrow> bool" where
  "is_migration_type v target \<longleftrightarrow> migration_type_name v = migration_type_name target"

lemma is_versioned_enum [simp]: "is_versioned (TEnum t) \<longleftrightarrow> t = SQL \<or> t = PYTHON"
  by (cases t) (simp_all add: is_versioned_def VERSIONED_SCRIPT_TYPES_def)

lemma is_migration_type_enum [simp]: "is_migration_type (TEnum a) (TEnum b) \<longleftrightarrow> a = b"
  by (simp add: is_migration_type_def)

lemma type_name_versioned [simp]: "type_name t \<in> set VERSIONED_SCRIPT_TYPES \<longleftrightarrow> t = SQL \<or> t = PYTHON"
  by (cases t) (simp_all add: VERSIONED_SCRIPT_TYPES_def)

subsection \<open>Outcomes\<close>

text \<open>A value a driver returns for the \<open>success\<close> or \<open>checksum\<close> column.\<close>

datatype db_value = VNone | VBool bool | VInt int | VStr string

fun is_migration_success :: "db_value \<Rightarrow> bool" where
  "is_migration_success VNone = False"
| "is_migration_success (VBool b) = b"
| "is_migration_success (VInt i) = (i = 1)"
| "is_migration_success (VStr s) = (str_lower s \<in> {''true'', ''1''})"

fun is_migration_failure :: "db_value \<Rightarrow> bool" where
  "is_migration_failure VNone = False"
| "is_migration_failure (VBool b) = (\<not> b)"
| "is_migration_failure (VInt i) = (i = 0)"
| "is_migration_failure (VStr s) = (s \<in> {''False'', ''false''})"

fun success_to_bool :: "db_value \<Rightarrow> bool" where
  "success_to_bool VNone = False"
| "success_to_bool (VBool b) = b"
| "success_to_bool (VInt i) = (i \<noteq> 0)"
| "success_to_bool (VStr s) =
     (str_lower (strip s) \<notin> {[], ''0'', ''false'', ''f'', ''n'', ''no''})"

lemma success_not_failure: "is_migration_success v \<Longrightarrow> \<not> is_migration_failure v"
proof (cases v)
  case (VStr s)
  have "str_lower ''False'' = ''false''" "str_lower ''false'' = ''false''" by code_simp+
  then show "is_migration_success v \<Longrightarrow> \<not> is_migration_failure v" using VStr by auto
qed auto

subsection \<open>The migration object\<close>

record migration =
  script_name :: string
  version :: "string option"
  description :: string
  mtype :: migration_type
  tags :: "string list"
  checksum :: "int option"
  content :: string
  path :: "string option"
  format :: migration_format
  success :: db_value
  status :: string
  execution_time :: "int option"
  installed_on :: "string option"
  installed_by :: "string option"
  installed_rank :: "int option"
  error_message :: "string option"
  resolved :: bool

text \<open>\<open>if migration.version\<close>: present and not empty; and \<open>str(migration.version)\<close>.\<close>

definition has_version :: "migration \<Rightarrow> bool" where
  "has_version m \<longleftrightarrow> (case version m of None \<Rightarrow> False | Some v \<Rightarrow> v \<noteq> [])"

definition version_str :: "migration \<Rightarrow> string" where
  "version_str m = (case version m of None \<Rightarrow> ''None'' | Some v \<Rightarrow> v)"

lemma has_version_cases: "has_version m \<longleftrightarrow> (\<exists>v. version m = Some v \<and> v \<noteq> [] \<and> version_str m = v)"
  by (auto simp: has_version_def version_str_def split: option.splits)

abbreviation versioned :: "migration \<Rightarrow> bool" where
  "versioned m \<equiv> is_versioned (TEnum (mtype m))"

abbreviation succeeded :: "migration \<Rightarrow> bool" where
  "succeeded m \<equiv> is_migration_success (success m)"

abbreviation failed_row :: "migration \<Rightarrow> bool" where
  "failed_row m \<equiv> is_migration_failure (success m)"

subsection \<open>Display states and eligibility\<close>

datatype display_state =
  Success | Failed | Pending | Undone | Deleted | Available | AboveTarget | Baseline | BelowBaseline
  | Missing | FailedMissing | FailedFuture | Future | OutOfOrder | Outdated | Superseded
  | UnknownState | NeedsRepair

fun display_value :: "display_state \<Rightarrow> string" where
  "display_value Success = ''Success''"
| "display_value Failed = ''Failed''"
| "display_value Pending = ''Pending''"
| "display_value Undone = ''Undone''"
| "display_value Deleted = ''Deleted''"
| "display_value Available = ''Available''"
| "display_value AboveTarget = ''Above target''"
| "display_value Baseline = ''Baseline''"
| "display_value BelowBaseline = ''Below baseline''"
| "display_value Missing = ''Missing''"
| "display_value FailedMissing = ''Failed missing''"
| "display_value FailedFuture = ''Failed future''"
| "display_value Future = ''Future''"
| "display_value OutOfOrder = ''Out of order''"
| "display_value Outdated = ''Outdated''"
| "display_value Superseded = ''Superseded''"
| "display_value UnknownState = ''Unknown''"
| "display_value NeedsRepair = ''Needs repair''"

datatype eligibility = PENDING | ABOVE_TARGET | BELOW_BASELINE | UNDO_AVAILABLE

fun eligibility_display :: "eligibility \<Rightarrow> display_state" where
  "eligibility_display PENDING = Pending"
| "eligibility_display ABOVE_TARGET = AboveTarget"
| "eligibility_display BELOW_BASELINE = BelowBaseline"
| "eligibility_display UNDO_AVAILABLE = Available"

end
