(* ===== verification/Checksums.thy ===== *)
theory Checksums
  imports Migrations "HOL-Library.Word"
begin

unbundle bit_operations_syntax

text \<open>
  Script checksums (\<^verbatim>\<open>calculate_migration_script_checksum\<close>, \<^verbatim>\<open>normalize_migration_checksum\<close> of
  \<^verbatim>\<open>migration.py\<close>): zlib's CRC-32 over the lines of a script, as the signed 32-bit number stored in the
  history table, and the normalisation that aligns what drivers return with it.
\<close>

subsection \<open>CRC-32\<close>

text \<open>\<open>zlib.crc32(data, crc)\<close>, bit by bit with the reflected polynomial.\<close>

definition crc_bit :: "32 word \<Rightarrow> 32 word" where
  "crc_bit c = (if bit c 0 then drop_bit 1 c XOR 0xEDB88320 else drop_bit 1 c)"

definition crc_byte :: "32 word \<Rightarrow> nat \<Rightarrow> 32 word" where
  "crc_byte c b = (crc_bit ^^ 8) (c XOR word_of_nat b)"

definition crc32 :: "nat list \<Rightarrow> 32 word \<Rightarrow> 32 word" where
  "crc32 data crc = NOT (foldl crc_byte (NOT crc) data)"

text \<open>UTF-8 of the code points below 256.\<close>

definition utf8_char :: "char \<Rightarrow> nat list" where
  "utf8_char c = (let n = code_point c in if n < 128 then [n] else [192 + n div 64, 128 + n mod 64])"

definition utf8 :: "string \<Rightarrow> nat list" where
  "utf8 s = concat (map utf8_char s)"

definition calculate_migration_script_checksum :: "string \<Rightarrow> int" where
  "calculate_migration_script_checksum text =
     (let crc = foldl (\<lambda>crc line. crc32 (utf8 line) crc) 0 (splitlines text)
      in if uint crc < 2 ^ 31 then uint crc else uint crc - 2 ^ 32)"

lemma crc32_append: "crc32 (xs @ ys) c = crc32 ys (crc32 xs c)"
  by (simp add: crc32_def)

lemma crc32_Nil [simp]: "crc32 [] c = c"
  by (simp add: crc32_def)

lemma crc_lines: "foldl (\<lambda>crc line. crc32 (utf8 line) crc) c ls = crc32 (utf8 (concat ls)) c"
  by (induction ls arbitrary: c) (simp_all add: utf8_def crc32_append)

lemma sint_mod: "sint (w :: 32 word) = (uint w + 2 ^ 31) mod 2 ^ 32 - 2 ^ 31"
  by (simp add: sint_uint signed_take_bit_eq_take_bit_shift take_bit_eq_mod)

lemma shift_mod32:
  assumes "0 \<le> u" and "u < (2::int) ^ 32"
  shows "(u + 2 ^ 31) mod 2 ^ 32 - 2 ^ 31 = (if u < 2 ^ 31 then u else u - 2 ^ 32)"
proof (cases "u < 2 ^ 31")
  case True
  then show ?thesis using assms by (simp add: mod_pos_pos_trivial)
next
  case False
  have "(u + 2 ^ 31) mod 2 ^ 32 = (u + 2 ^ 31 - 2 ^ 32) mod 2 ^ 32"
    by (rule minus_mod_self2 [symmetric])
  also have "\<dots> = u + 2 ^ 31 - 2 ^ 32"
    by (rule mod_pos_pos_trivial) (use False assms in simp_all)
  finally show ?thesis using False by simp
qed

lemma signed_of_unsigned: "(if uint (w :: 32 word) < 2 ^ 31 then uint w else uint w - 2 ^ 32) = sint w"
proof -
  have "0 \<le> uint w" "uint w < 2 ^ 32" using uint_lt2p [of w] by simp_all
  from shift_mod32 [OF this] show ?thesis unfolding sint_mod by (rule sym)
qed

lemma checksum_eq:
  "calculate_migration_script_checksum text = sint (crc32 (utf8 (concat (splitlines text))) 0)"
  by (simp only: calculate_migration_script_checksum_def Let_def crc_lines signed_of_unsigned)

lemma checksum_range: "- (2 ^ 31) \<le> calculate_migration_script_checksum text
    \<and> calculate_migration_script_checksum text < 2 ^ 31"
  unfolding checksum_eq using sint_greater_eq [of "crc32 (utf8 (concat (splitlines text))) 0"]
    sint_lt [of "crc32 (utf8 (concat (splitlines text))) 0"] by simp

subsection \<open>Line ends\<close>

definition no_line_end :: "string \<Rightarrow> bool" where
  "no_line_end l \<longleftrightarrow> list_all (\<lambda>c. \<not> is_line_end c) l"

definition lines_LF :: "string list \<Rightarrow> string" where
  "lines_LF ls = concat (map (\<lambda>l. l @ [CHR 0x0A]) ls)"

definition lines_CRLF :: "string list \<Rightarrow> string" where
  "lines_CRLF ls = concat (map (\<lambda>l. l @ [CHR 0x0D, CHR 0x0A]) ls)"

lemma splitlines_lines_LF: "list_all no_line_end ls \<Longrightarrow> splitlines (lines_LF ls) = ls"
proof (induction ls)
  case (Cons l ls)
  then have l: "\<forall>c \<in> set l. \<not> is_line_end c" by (simp add: no_line_end_def list_all_iff)
  have "is_line_end (CHR 0x0A)" "code_point (CHR 0x0A) \<noteq> 13"
    by (simp_all add: is_line_end_def code_point_def)
  with l have "splitlines (l @ CHR 0x0A # lines_LF ls) = l # splitlines (lines_LF ls)"
    by (rule splitlines_LF)
  with Cons show ?case by (simp add: lines_LF_def)
qed (simp add: lines_LF_def)

lemma splitlines_lines_CRLF: "list_all no_line_end ls \<Longrightarrow> splitlines (lines_CRLF ls) = ls"
proof (induction ls)
  case (Cons l ls)
  then have l: "\<forall>c \<in> set l. \<not> is_line_end c" by (simp add: no_line_end_def list_all_iff)
  have "splitlines (l @ CHR 0x0D # CHR 0x0A # lines_CRLF ls) = l # splitlines (lines_CRLF ls)"
    by (rule splitlines_CRLF [OF l])
  with Cons show ?case by (simp add: lines_CRLF_def)
qed (simp add: lines_CRLF_def)

text \<open>
  The checksum of a script is the CRC-32 of its lines joined, read as a signed 32-bit number, and
  does not depend on its line ends: with LF, with CR LF, or with the final line end missing, the same
  lines give the same number, between -2^31 and 2^31.
\<close>

theorem checksum_line_ends:
  assumes "list_all no_line_end (ls @ [l])"
  shows "calculate_migration_script_checksum (lines_CRLF (ls @ [l]))
           = calculate_migration_script_checksum (lines_LF (ls @ [l]))
         \<and> calculate_migration_script_checksum (lines_LF ls @ l)
           = calculate_migration_script_checksum (lines_LF (ls @ [l]))
         \<and> calculate_migration_script_checksum (lines_LF (ls @ [l]))
           = sint (crc32 (utf8 (concat (ls @ [l]))) 0)
         \<and> - (2 ^ 31) \<le> calculate_migration_script_checksum (lines_LF (ls @ [l]))
         \<and> calculate_migration_script_checksum (lines_LF (ls @ [l])) < 2 ^ 31"
proof -
  have l: "\<forall>c \<in> set l. \<not> is_line_end c"
    using assms by (simp add: no_line_end_def list_all_iff)
  have "splitlines (lines_LF ks @ l) = (if l = [] then ks else ks @ [l])"
    if "list_all no_line_end ks" for ks
    using that
  proof (induction ks)
    case Nil
    then show ?case using splitlines_line [OF l] by (simp add: lines_LF_def)
  next
    case (Cons k ks)
    then have k: "\<forall>c \<in> set k. \<not> is_line_end c" by (simp add: no_line_end_def list_all_iff)
    have "splitlines (k @ CHR 0x0A # (lines_LF ks @ l)) = k # splitlines (lines_LF ks @ l)"
      by (rule splitlines_LF [OF k]) (simp_all add: is_line_end_def code_point_def)
    with Cons show ?case by (simp add: lines_LF_def)
  qed
  from this [of ls] assms have "concat (splitlines (lines_LF ls @ l)) = concat (ls @ [l])"
    by simp
  moreover have "splitlines (lines_LF (ls @ [l])) = ls @ [l]" "splitlines (lines_CRLF (ls @ [l])) = ls @ [l]"
    using assms by (simp_all only: splitlines_lines_LF splitlines_lines_CRLF)
  ultimately show ?thesis
    using checksum_range [of "lines_LF (ls @ [l])"] by (simp only: checksum_eq)
qed

theorem checksum_line_ends_witness:
  "list_all no_line_end ([''a''] @ [''b''])
   \<and> calculate_migration_script_checksum (lines_CRLF [''a'', ''b''])
     = calculate_migration_script_checksum (lines_LF [''a'', ''b''])"
proof -
  have h: "list_all no_line_end ([''a''] @ [''b''])" by code_simp
  show ?thesis using h checksum_line_ends [OF h] by simp
qed

subsection \<open>Normalisation\<close>

text \<open>\<open>int(text)\<close>: white space around, a sign, decimal digits with single underscores between them.\<close>

fun digits_underscores :: "string \<Rightarrow> string option" where
  "digits_underscores [] = Some []"
| "digits_underscores [c] = (if is_digit c then Some [c] else None)"
| "digits_underscores (c # d # s) =
     (if \<not> is_digit c then None
      else if d = CHR ''_'' then
        (if s = [] then None else map_option (\<lambda>r. c # r) (digits_underscores s))
      else map_option (\<lambda>r. c # r) (digits_underscores (d # s)))"

definition parse_digits :: "string \<Rightarrow> nat option" where
  "parse_digits s = (if s = [] then None else map_option nat_of_digits (digits_underscores s))"

definition py_int :: "string \<Rightarrow> int option" where
  "py_int s = (case strip s of
       [] \<Rightarrow> None
     | c # t \<Rightarrow>
         (if c = CHR ''-'' then map_option (\<lambda>n. - int n) (parse_digits t)
          else if c = CHR ''+'' then map_option int (parse_digits t)
          else map_option int (parse_digits (c # t))))"

text \<open>\<open>val &= 0xFFFFFFFF\<close>, then the sign of a 32-bit number.\<close>

definition to_signed32 :: "int \<Rightarrow> int" where
  "to_signed32 i = (let val = i AND 0xFFFFFFFF in if val \<ge> 2 ^ 31 then val - 2 ^ 32 else val)"

text \<open>\<open>int(float(text))\<close> of a text that is no integer is the argument \<open>float_int\<close>: \<open>None\<close> when
  \<open>float\<close> or \<open>int\<close> raises \<open>ValueError\<close>.\<close>

definition normalize_migration_checksum :: "(string \<Rightarrow> int option) \<Rightarrow> db_value \<Rightarrow> int option" where
  "normalize_migration_checksum float_int v =
     (case v of
        VNone \<Rightarrow> None
      | VBool b \<Rightarrow> Some (to_signed32 (if b then 1 else 0))
      | VInt i \<Rightarrow> Some (to_signed32 i)
      | VStr s \<Rightarrow> (case py_int s of
                     Some i \<Rightarrow> Some (to_signed32 i)
                   | None \<Rightarrow> map_option to_signed32 (float_int s)))"

text \<open>On a migration's \<open>checksum: Optional[int]\<close>.\<close>

definition norm_checksum :: "int option \<Rightarrow> int option" where
  "norm_checksum c = map_option to_signed32 c"

lemma norm_checksum_eq:
  "norm_checksum c = normalize_migration_checksum f (case c of None \<Rightarrow> VNone | Some i \<Rightarrow> VInt i)"
  by (simp add: norm_checksum_def normalize_migration_checksum_def split: option.split)

lemma to_signed32_mod: "to_signed32 i = (i + 2 ^ 31) mod 2 ^ 32 - 2 ^ 31"
proof -
  have "i AND 0xFFFFFFFF = take_bit 32 i"
    by (simp add: take_bit_eq_mask mask_eq_exp_minus_1)
  then have a: "i AND 0xFFFFFFFF = i mod 2 ^ 32" by (simp only: take_bit_eq_mod)
  have "0 \<le> i mod 2 ^ 32" "i mod 2 ^ 32 < 2 ^ 32" by simp_all
  from shift_mod32 [OF this] have "to_signed32 i = (i mod 2 ^ 32 + 2 ^ 31) mod 2 ^ 32 - 2 ^ 31"
    unfolding to_signed32_def a Let_def by simp
  then show ?thesis by (simp only: mod_add_left_eq)
qed

lemma to_signed32_range: "- (2 ^ 31) \<le> to_signed32 i \<and> to_signed32 i < 2 ^ 31"
  unfolding to_signed32_mod by simp

lemma to_signed32_id: "- (2 ^ 31) \<le> i \<Longrightarrow> i < 2 ^ 31 \<Longrightarrow> to_signed32 i = i"
  unfolding to_signed32_mod by (simp add: mod_pos_pos_trivial)

lemma to_signed32_idem [simp]: "to_signed32 (to_signed32 i) = to_signed32 i"
  using to_signed32_range [of i] by (simp add: to_signed32_id)

lemma norm_checksum_idem [simp]: "norm_checksum (norm_checksum c) = norm_checksum c"
  by (cases c) (simp_all add: norm_checksum_def)

lemma norm_checksum_None [simp]: "norm_checksum c = None \<longleftrightarrow> c = None"
  by (simp add: norm_checksum_def)

text \<open>
  C4. Whether a driver returns a script's checksum as the signed number or as the unsigned number with
  the same 32 bits, the normalised value is the script's checksum; and normalising a value again
  changes nothing.
\<close>

theorem normalize_recovers_checksum:
  "normalize_migration_checksum f (VInt (calculate_migration_script_checksum text))
     = Some (calculate_migration_script_checksum text)
   \<and> normalize_migration_checksum f (VInt (calculate_migration_script_checksum text mod 2 ^ 32))
     = Some (calculate_migration_script_checksum text)
   \<and> norm_checksum (normalize_migration_checksum f v) = normalize_migration_checksum f v"
proof -
  let ?c = "calculate_migration_script_checksum text"
  have r: "- (2 ^ 31) \<le> ?c" "?c < 2 ^ 31" using checksum_range by auto
  have "to_signed32 (?c mod 2 ^ 32) = to_signed32 ?c"
    unfolding to_signed32_mod by (simp add: mod_simps)
  with r have "to_signed32 (?c mod 2 ^ 32) = ?c" "to_signed32 ?c = ?c"
    by (simp_all only: to_signed32_id)
  moreover have "norm_checksum (normalize_migration_checksum f v) = normalize_migration_checksum f v"
    by (auto simp: normalize_migration_checksum_def norm_checksum_def option.map_comp comp_def
        split: db_value.split option.split)
  ultimately show ?thesis by (simp add: normalize_migration_checksum_def)
qed

end
