(* ===== verification/PyRegex.thy ===== *)
theory PyRegex
  imports PyString
begin

text \<open>
  The part of Python's \<^verbatim>\<open>re\<close> the program uses, as a backtracking matcher: \<open>matches r s caps\<close> lists, in
  the order the engine tries them, the captures and the rest of the text after each way \<open>r\<close> matches a
  prefix of \<open>s\<close>. \<open>re.match\<close> takes the first one, \<open>re.search\<close> the first at the leftmost position.
  A repetition stops at an iteration that consumes nothing (no pattern of the program has one).
\<close>

datatype re =
    Eps
  | Cls "char \<Rightarrow> bool"
  | Seq re re
  | Alt re re
  | Star re
  | LazyStar re
  | Grp nat re
  | Eol

type_synonym caps = "nat \<Rightarrow> string option"

abbreviation no_caps :: caps where
  "no_caps \<equiv> \<lambda>_. None"

function matches :: "re \<Rightarrow> string \<Rightarrow> caps \<Rightarrow> (caps \<times> string) list" where
  "matches Eps s c = [(c, s)]"
| "matches (Cls P) s c = (case s of [] \<Rightarrow> [] | x # xs \<Rightarrow> if P x then [(c, xs)] else [])"
| "matches (Seq a b) s c = concat (map (\<lambda>(c', s'). matches b s' c') (matches a s c))"
| "matches (Alt a b) s c = matches a s c @ matches b s c"
| "matches (Star a) s c =
     concat (map (\<lambda>(c', s'). if length s' < length s then matches (Star a) s' c' else [])
       (matches a s c)) @ [(c, s)]"
| "matches (LazyStar a) s c =
     (c, s) # concat (map (\<lambda>(c', s'). if length s' < length s then matches (LazyStar a) s' c' else [])
       (matches a s c))"
| "matches (Grp n a) s c =
     map (\<lambda>(c', s'). (c'(n := Some (take (length s - length s') s)), s')) (matches a s c)"
| "matches Eol s c = (if s = [] \<or> s = [CHR 0x0A] then [(c, s)] else [])"
  by pat_completeness auto
termination
  by (relation "measures [\<lambda>(r, s, c). size r, \<lambda>(r, s, c). length s]") auto

text \<open>The two equations of the repetitions rewrite without end on an open text.\<close>

declare matches.simps(5,6) [simp del]

lemma matches_Star_Cls_Nil [simp]: "matches (Star (Cls P)) [] c = [(c, [])]"
  by (subst matches.simps) simp

lemma matches_Star_Cls_Cons [simp]:
  "matches (Star (Cls P)) (x # xs) c
     = (if P x then matches (Star (Cls P)) xs c else []) @ [(c, x # xs)]"
  by (subst matches.simps) simp

subsection \<open>Patterns\<close>

definition chr :: "char \<Rightarrow> re" where
  "chr x = Cls (\<lambda>y. y = x)"

fun lit :: "string \<Rightarrow> re" where
  "lit [] = Eps"
| "lit (c # s) = Seq (chr c) (lit s)"

definition plus :: "re \<Rightarrow> re" where
  "plus r = Seq r (Star r)"

definition opt :: "re \<Rightarrow> re" where
  "opt r = Alt r Eps"

definition any_char :: re where
  "any_char = Cls (\<lambda>c. c \<noteq> CHR 0x0A)"

text \<open>\<open>re.match\<close>: the captures and the rest of the text.\<close>

definition re_match :: "re \<Rightarrow> string \<Rightarrow> (caps \<times> string) option" where
  "re_match r s = (case matches r s no_caps of [] \<Rightarrow> None | m # _ \<Rightarrow> Some m)"

text \<open>\<open>re.search\<close>: the text before the match, the match, its captures and the text after.\<close>

fun re_search :: "re \<Rightarrow> string \<Rightarrow> (string \<times> string \<times> caps \<times> string) option" where
  "re_search r [] = (case re_match r [] of None \<Rightarrow> None | Some (c, s') \<Rightarrow> Some ([], [], c, s'))"
| "re_search r (x # xs) =
     (case re_match r (x # xs) of
        Some (c, s') \<Rightarrow> Some ([], take (Suc (length xs) - length s') (x # xs), c, s')
      | None \<Rightarrow> (case re_search r xs of
                   None \<Rightarrow> None
                 | Some (pre, m, c, s') \<Rightarrow> Some (x # pre, m, c, s')))"

subsection \<open>Facts about the matcher\<close>

lemma matches_suffix: "(c', s') \<in> set (matches r s c) \<Longrightarrow> \<exists>u. s = u @ s'"
proof (induction r s c arbitrary: c' s' rule: matches.induct)
  case (2 P s c)
  then show ?case by (cases s) (auto split: if_splits)
next
  case (3 a b s c)
  then obtain c1 s1 where 1: "(c1, s1) \<in> set (matches a s c)" "(c', s') \<in> set (matches b s1 c1)"
    by auto
  with "3.IH" obtain u v where "s = u @ s1" "s1 = v @ s'" by (metis (no_types, lifting))
  then show ?case by simp
next
  case (4 a b s c)
  then show ?case by (auto simp only: matches.simps set_append Un_iff)
next
  case (5 a s c)
  show ?case
  proof (cases "(c', s') = (c, s)")
    case False
    with "5.prems" obtain c1 s1 where 1: "(c1, s1) \<in> set (matches a s c)" "length s1 < length s"
        "(c', s') \<in> set (matches (Star a) s1 c1)"
      by (auto simp: matches.simps(5) [of a s c] split: if_splits)
    with "5.IH" obtain u v where "s = u @ s1" "s1 = v @ s'" by (metis (no_types, lifting))
    then show ?thesis by simp
  qed simp
next
  case (6 a s c)
  show ?case
  proof (cases "(c', s') = (c, s)")
    case False
    with "6.prems" obtain c1 s1 where 1: "(c1, s1) \<in> set (matches a s c)" "length s1 < length s"
        "(c', s') \<in> set (matches (LazyStar a) s1 c1)"
      by (auto simp: matches.simps(6) [of a s c] split: if_splits)
    with "6.IH" obtain u v where "s = u @ s1" "s1 = v @ s'" by (metis (no_types, lifting))
    then show ?thesis by simp
  qed simp
next
  case (7 n a s c)
  then obtain c1 where "(c1, s') \<in> set (matches a s c)" by auto
  then show ?case by (rule "7.IH")
qed (simp_all split: if_splits)

lemma matches_chr [simp]:
  "matches (chr x) s c = (case s of [] \<Rightarrow> [] | y # ys \<Rightarrow> if y = x then [(c, ys)] else [])"
  by (simp add: chr_def)

lemma matches_lit: "matches (lit p) s c = (if starts_with s p then [(c, drop (length p) s)] else [])"
proof (induction p arbitrary: s)
  case (Cons x p)
  then show ?case by (cases s) simp_all
qed simp

lemma set_matches_Star_Cls:
  "set (matches (Star (Cls P)) s c) = {(c, t) | u t. s = u @ t \<and> list_all P u}"
proof (induction s)
  case (Cons x xs)
  have "{(c, t) | u t. x # xs = u @ t \<and> list_all P u}
      = insert (c, x # xs) (if P x then {(c, t) | u t. xs = u @ t \<and> list_all P u} else {})"
    by (auto simp: Cons_eq_append_conv)
  with Cons show ?case by simp
qed simp

text \<open>Which captures and rests a pattern can give, as existence statements.\<close>

lemma in_matches_Seq:
  "(c', t) \<in> set (matches (Seq a b) s c) \<longleftrightarrow>
     (\<exists>c1 s1. (c1, s1) \<in> set (matches a s c) \<and> (c', t) \<in> set (matches b s1 c1))"
  by auto

lemma in_matches_Grp:
  "(c', t) \<in> set (matches (Grp n a) s c) \<longleftrightarrow>
     (\<exists>c1. (c1, t) \<in> set (matches a s c) \<and> c' = c1(n := Some (take (length s - length t) s)))"
  by auto

lemma in_matches_lit: "(c', t) \<in> set (matches (lit p) s c) \<longleftrightarrow> c' = c \<and> s = p @ t"
  by (auto simp: matches_lit starts_with_iff)

lemma in_matches_Eol:
  "(c', t) \<in> set (matches Eol s c) \<longleftrightarrow> c' = c \<and> t = s \<and> (s = [] \<or> s = [CHR 0x0A])"
  by auto

text \<open>When every way to match agrees on what is asked, the engine's first one gives it.\<close>

lemma re_match_unique:
  assumes "\<And>c s'. (c, s') \<in> set (matches r s no_caps) \<Longrightarrow> Q c s'"
    and "matches r s no_caps \<noteq> []"
  shows "\<exists>c s'. re_match r s = Some (c, s') \<and> Q c s'"
  using assms by (cases "matches r s no_caps") (auto simp: re_match_def)

lemma re_match_None_iff: "re_match r s = None \<longleftrightarrow> matches r s no_caps = []"
  by (simp add: re_match_def split: list.split)

end
