(* ===== verification/Filenames.thy ===== *)
theory Filenames
  imports Checksums PyRegex
begin

text \<open>
  The migration filename grammar: \<^verbatim>\<open>scripting/filename_parser.py\<close>, the format detector of
  \<^verbatim>\<open>formats/format_detector.py\<close>, and the version listing of \<^verbatim>\<open>target_version.py\<close>. The patterns are
  kept as the regular expressions of the code.
\<close>

subsection \<open>Formats\<close>

definition EXTENSION_MAP :: "(string \<times> migration_format) list" where
  "EXTENSION_MAP =
     [(''.sql'', FSQL), (''.py'', FPYTHON), (''.js'', FJAVASCRIPT), (''.cypher'', FCYPHER),
      (''.cql'', FCQL), (''.gremlin'', FGREMLIN), (''.json'', FJSON), (''.yaml'', FYAML),
      (''.yml'', FYAML)]"

definition detect_from_filename :: "string \<Rightarrow> migration_format" where
  "detect_from_filename name =
     (case map_of EXTENSION_MAP (str_lower (path_suffix name)) of None \<Rightarrow> FUNKNOWN | Some f \<Rightarrow> f)"

definition is_migration_file :: "string \<Rightarrow> bool" where
  "is_migration_file name \<longleftrightarrow> str_lower (path_suffix name) \<in> set (map fst EXTENSION_MAP)"

subsection \<open>Tags\<close>

definition tag_re :: re where
  "tag_re = Seq (chr CHR ''['') (Seq (Grp 1 (LazyStar any_char)) (chr CHR '']''))"

definition the_group :: "caps \<Rightarrow> nat \<Rightarrow> string" where
  "the_group c n = (case c n of None \<Rightarrow> [] | Some g \<Rightarrow> g)"

definition strip_migration_tags :: "string \<Rightarrow> string \<times> string list" where
  "strip_migration_tags filename =
     (case re_search tag_re filename of
        None \<Rightarrow> (filename, [])
      | Some (_, whole, c, _) \<Rightarrow>
          (replace_all whole [] filename,
           filter (\<lambda>t. t \<noteq> []) (map strip (split_on (\<lambda>x. x = CHR '','') (the_group c 1)))))"

subsection \<open>Callbacks\<close>

definition CALLBACK_PREFIXES :: "string list" where
  "CALLBACK_PREFIXES =
     [''beforeMigrate'', ''afterMigrate'', ''afterMigrateError'', ''beforeEach'', ''afterEach'',
      ''beforeValidate'', ''afterValidate'', ''beforeClean'', ''afterClean'', ''afterCleanError'',
      ''beforeUndo'', ''afterUndo'', ''afterUndoError'', ''beforeEachMigrate'', ''afterEachMigrate'',
      ''beforeVersioned'', ''afterVersioned'', ''beforeRepeatable'', ''afterRepeatable'']"

definition CALLBACK_SEPARATOR :: string where
  "CALLBACK_SEPARATOR = ''__''"

definition callback_event_prefix :: "string \<Rightarrow> string option" where
  "callback_event_prefix base_name =
     (let lowered = str_lower (fst (strip_migration_tags base_name))
      in List.find (\<lambda>prefix. starts_with lowered (str_lower prefix @ CALLBACK_SEPARATOR))
           CALLBACK_PREFIXES)"

definition callback_prefix_missing_separator :: "string \<Rightarrow> string option" where
  "callback_prefix_missing_separator base_name =
     (if callback_event_prefix base_name \<noteq> None then None
      else let lowered = str_lower (fst (strip_migration_tags base_name));
               candidates = filter (\<lambda>prefix. starts_with lowered (str_lower prefix)) CALLBACK_PREFIXES
           in case candidates of [] \<Rightarrow> None | p # ps \<Rightarrow> Some (max_by length p ps))"

definition matches_callback_event :: "string \<Rightarrow> string \<Rightarrow> bool" where
  "matches_callback_event base_name event_prefix =
     (case callback_event_prefix base_name of
        None \<Rightarrow> False
      | Some matched \<Rightarrow> str_lower matched = str_lower event_prefix)"

subsection \<open>Versioned names\<close>

text \<open>\<open>\d[A-Za-z0-9]*(?:[._][A-Za-z0-9]+)*\<close>\<close>

definition VERSION_BODY :: re where
  "VERSION_BODY = Seq (Cls is_digit) (Seq (Star (Cls is_alnum))
     (Star (Seq (Cls is_version_sep) (plus (Cls is_alnum)))))"

definition versioned_pattern :: "string \<Rightarrow> string \<Rightarrow> re" where
  "versioned_pattern prefix extension =
     Seq (lit prefix) (Seq (Grp 1 VERSION_BODY) (Seq (lit ''__'')
       (Seq (Grp 2 (plus any_char)) (Seq (lit extension) Eol))))"

definition repeatable_pattern :: "string \<Rightarrow> re" where
  "repeatable_pattern extension =
     Seq (lit ''R__'') (Seq (Grp 1 (plus any_char)) (Seq (lit extension) Eol))"

definition normalize_version :: "string \<Rightarrow> string" where
  "normalize_version v =
     (let digits = replace_all ''_'' [] (replace_all ''.'' [] v)
      in if digits \<noteq> [] \<and> list_all is_digit digits then replace_all ''_'' ''.'' v else v)"

text \<open>\<open>^[VUR](?:[0-9_]|[A-Za-z]?[0-9.]*__)\<close> and \<open>^[VRUB][\d_.]*__.*\.sql$\<close>, both ignoring case.\<close>

definition NEAR_MISS_RE :: re where
  "NEAR_MISS_RE = Seq (Cls (\<lambda>c. to_upper c \<in> set ''VUR''))
     (Alt (Cls (\<lambda>c. is_digit c \<or> c = CHR ''_''))
          (Seq (opt (Cls is_alpha)) (Seq (Star (Cls (\<lambda>c. is_digit c \<or> c = CHR ''.''))) (lit ''__''))))"

definition looks_like_migration :: "string \<Rightarrow> bool" where
  "looks_like_migration name \<longleftrightarrow> re_match NEAR_MISS_RE name \<noteq> None"

definition MIGRATION_SQL_FILENAME_RE :: re where
  "MIGRATION_SQL_FILENAME_RE = Seq (Cls (\<lambda>c. to_upper c \<in> set ''VRUB''))
     (Seq (Star (Cls (\<lambda>c. is_digit c \<or> c \<in> set ''_.''))) (Seq (lit ''__'') (Seq (Star any_char)
       (Seq (chr CHR ''.'') (Seq (Cls (\<lambda>c. to_lower c = CHR ''s''))
         (Seq (Cls (\<lambda>c. to_lower c = CHR ''q'')) (Seq (Cls (\<lambda>c. to_lower c = CHR ''l'')) Eol)))))))"

definition is_migration_sql_file :: "string \<Rightarrow> bool" where
  "is_migration_sql_file name \<longleftrightarrow> re_match MIGRATION_SQL_FILENAME_RE (path_name name) \<noteq> None"

subsection \<open>Classification\<close>

record filename_metadata =
  fm_type :: migration_type
  fm_version :: "string option"
  fm_description :: string
  fm_tags :: "string list"
  fm_event :: "string option"

definition metadata ::
  "migration_type \<Rightarrow> string option \<Rightarrow> string \<Rightarrow> string list \<Rightarrow> string option \<Rightarrow> filename_metadata" where
  "metadata t v d ts e =
     \<lparr>fm_type = t, fm_version = v, fm_description = d, fm_tags = ts, fm_event = e\<rparr>"

definition parse_migration_filename :: "string \<Rightarrow> filename_metadata" where
  "parse_migration_filename filename =
     (let (plain, ts) = strip_migration_tags filename;
          ext = str_lower (path_suffix plain)
      in if \<not> is_migration_file plain then metadata UNKNOWN None plain ts None
         else case callback_event_prefix plain of
           Some event \<Rightarrow> metadata CALLBACK None (replace_all ext [] plain) ts (Some event)
         | None \<Rightarrow>
        (case re_match (versioned_pattern ''V'' ext) plain of
           Some (c, _) \<Rightarrow>
             metadata SQL (Some (normalize_version (the_group c 1))) (the_group c 2) ts None
         | None \<Rightarrow>
        (case re_match (versioned_pattern ''U'' ext) plain of
           Some (c, _) \<Rightarrow>
             metadata UNDO_SQL (Some (normalize_version (the_group c 1))) (the_group c 2) ts None
         | None \<Rightarrow>
        (case re_match (repeatable_pattern ext) plain of
           Some (c, _) \<Rightarrow> metadata REPEATABLE None (the_group c 1) ts None
         | None \<Rightarrow>
             if plain = ''V__'' @ ext \<or> plain = ''V__.sql'' then metadata UNKNOWN None [] ts None
             else metadata UNKNOWN None (replace_all ''.sql'' [] (replace_all ext [] plain)) ts None))))"

text \<open>The loop of \<^verbatim>\<open>available_versions\<close>, over the script references found on disk.\<close>

fun available_versions_loop :: "string list \<Rightarrow> string list \<Rightarrow> string list" where
  "available_versions_loop seen [] = seen"
| "available_versions_loop seen (name # names) =
     (case fm_version (parse_migration_filename (path_name name)) of
        None \<Rightarrow> available_versions_loop seen names
      | Some v \<Rightarrow>
          if v \<noteq> [] \<and> \<not> list_ex (\<lambda>k. vcmp v k = 0) seen
          then available_versions_loop (seen @ [v]) names
          else available_versions_loop seen names)"

definition available_versions :: "string list \<Rightarrow> string list" where
  "available_versions names = sorted_by vcmp (available_versions_loop [] names)"

subsection \<open>The language of a version\<close>

text \<open>After its first digit, a version is made of letters, digits and separators, each separator
  followed by a letter or digit.\<close>

fun version_tail :: "string \<Rightarrow> bool" where
  "version_tail [] = True"
| "version_tail [c] = is_alnum c"
| "version_tail (c # d # s) =
     ((is_alnum c \<or> is_version_sep c \<and> is_alnum d) \<and> version_tail (d # s))"

definition version_body :: "string \<Rightarrow> bool" where
  "version_body v = (case v of [] \<Rightarrow> False | c # s \<Rightarrow> is_digit c \<and> version_tail s)"

lemma sep_not_alnum: "is_version_sep c \<Longrightarrow> \<not> is_alnum c"
  by (auto simp: is_version_sep_def char_class_defs)

lemma version_tail_alnum: "is_alnum c \<Longrightarrow> version_tail (c # s) = version_tail s"
  by (cases s) auto

lemma version_tail_append: "list_all is_alnum w \<Longrightarrow> version_tail (w @ u) = version_tail u"
  by (induction w) (auto simp: version_tail_alnum)

lemma version_tail_sep:
  "is_version_sep d \<Longrightarrow> version_tail (d # s) \<longleftrightarrow> s \<noteq> [] \<and> is_alnum (hd s) \<and> version_tail s"
  using sep_not_alnum by (cases s) auto

lemma version_tail_hd: "version_tail (c # s) \<Longrightarrow> is_alnum c \<or> is_version_sep c"
  by (cases s) auto

definition sep_group :: re where
  "sep_group = Seq (Cls is_version_sep) (plus (Cls is_alnum))"

lemma set_matches_plus_Cls:
  "set (matches (plus (Cls P)) s c) = {(c, t) | u t. s = u @ t \<and> u \<noteq> [] \<and> list_all P u}"
proof (cases s)
  case (Cons x xs)
  have "{(c, t) | u t. x # xs = u @ t \<and> u \<noteq> [] \<and> list_all P u}
      = (if P x then {(c, t) | u t. xs = u @ t \<and> list_all P u} else {})"
    by (auto simp: Cons_eq_append_conv)
  then show ?thesis by (simp add: Cons plus_def set_matches_Star_Cls)
qed (simp add: plus_def)

lemma set_matches_sep_group:
  "set (matches sep_group s c)
     = {(c, t) | d w t. s = d # w @ t \<and> is_version_sep d \<and> w \<noteq> [] \<and> list_all is_alnum w}"
proof (cases s)
  case (Cons x xs)
  then show ?thesis by (auto simp: sep_group_def set_matches_plus_Cls)
qed (simp add: sep_group_def)

lemma matches_sep_groups_step:
  "(c', t) \<in> set (matches (Star sep_group) s c) \<longleftrightarrow>
     (c' = c \<and> t = s) \<or> (\<exists>d w r. s = d # w @ r \<and> is_version_sep d \<and> w \<noteq> [] \<and> list_all is_alnum w
       \<and> (c', t) \<in> set (matches (Star sep_group) r c))"
proof -
  have "(c', t) \<in> set (matches (Star sep_group) s c) \<longleftrightarrow> (c' = c \<and> t = s) \<or>
      (\<exists>c1 r. (c1, r) \<in> set (matches sep_group s c) \<and> length r < length s
        \<and> (c', t) \<in> set (matches (Star sep_group) r c1))"
    by (subst matches.simps(5)) (auto split: if_splits)
  moreover have "(c1, r) \<in> set (matches sep_group s c) \<Longrightarrow> length r < length s" for c1 r
    by (auto simp: set_matches_sep_group)
  ultimately show ?thesis by (simp add: set_matches_sep_group) blast
qed

text \<open>A tail that starts with a separator has a first group, and a tail after it.\<close>

lemma version_tail_group:
  assumes "version_tail (d # v)" "is_version_sep d"
  obtains w r where "v = w @ r" "w \<noteq> []" "list_all is_alnum w" "version_tail r" "r = [] \<or> is_version_sep (hd r)"
proof
  let ?w = "takeWhile is_alnum v" and ?r = "dropWhile is_alnum v"
  have v: "v \<noteq> []" "is_alnum (hd v)" "version_tail v" using assms by (simp_all add: version_tail_sep)
  show "v = ?w @ ?r" by simp
  show "?w \<noteq> []" using v by (cases v) simp_all
  show "list_all is_alnum ?w" by (auto simp: list_all_iff dest: set_takeWhileD)
  with v show r: "version_tail ?r" by (metis takeWhile_dropWhile_id version_tail_append)
  show "?r = [] \<or> is_version_sep (hd ?r)"
  proof (cases ?r)
    case (Cons e es)
    then have "\<not> is_alnum e" using hd_dropWhile [of is_alnum v] by simp
    with r Cons version_tail_hd [of e es] show ?thesis by simp
  qed simp
qed

lemma set_matches_sep_groups:
  "(c', t) \<in> set (matches (Star sep_group) s c) \<longleftrightarrow>
     c' = c \<and> (\<exists>u. s = u @ t \<and> version_tail u \<and> (u = [] \<or> is_version_sep (hd u)))"
proof (induction "length s" arbitrary: s rule: less_induct)
  case less
  note step = matches_sep_groups_step [of c' t s c]
  have rec: "s = d # w @ r \<Longrightarrow> (c', t) \<in> set (matches (Star sep_group) r c) \<longleftrightarrow>
      c' = c \<and> (\<exists>u. r = u @ t \<and> version_tail u \<and> (u = [] \<or> is_version_sep (hd u)))" for d w r
    by (rule less) simp
  show ?case
  proof
    assume "(c', t) \<in> set (matches (Star sep_group) s c)"
    then consider "c' = c \<and> t = s"
      | d w r where "s = d # w @ r" "is_version_sep d" "w \<noteq> []" "list_all is_alnum w"
          "(c', t) \<in> set (matches (Star sep_group) r c)"
      using step by blast
    then show "c' = c \<and> (\<exists>u. s = u @ t \<and> version_tail u \<and> (u = [] \<or> is_version_sep (hd u)))"
    proof cases
      case 1
      then show ?thesis by (intro conjI exI [of _ "[]"]) auto
    next
      case 2
      then obtain u where u: "c' = c" "r = u @ t" "version_tail u" using rec by blast
      then have "version_tail (d # w @ u)"
        using 2 by (simp add: version_tail_sep version_tail_append list_all_iff)
      with u 2 show ?thesis by (intro conjI exI [of _ "d # w @ u"]) auto
    qed
  next
    assume "c' = c \<and> (\<exists>u. s = u @ t \<and> version_tail u \<and> (u = [] \<or> is_version_sep (hd u)))"
    then obtain u where u: "c' = c" "s = u @ t" "version_tail u" "u = [] \<or> is_version_sep (hd u)" by blast
    show "(c', t) \<in> set (matches (Star sep_group) s c)"
    proof (cases u)
      case (Cons d v)
      obtain w r where w: "v = w @ r" "w \<noteq> []" "list_all is_alnum w" "version_tail r" "r = [] \<or> is_version_sep (hd r)"
        using version_tail_group [of d v] u(3,4) Cons by auto
      have s: "s = d # w @ (r @ t)" using u(2) Cons w(1) by simp
      then have "(c', t) \<in> set (matches (Star sep_group) (r @ t) c)" using rec [OF s] u(1) w(4,5) by blast
      then show ?thesis using step s w(2,3) u(4) Cons by auto
    qed (use u step in simp)
  qed
qed

lemma set_matches_VERSION_BODY:
  "(c', t) \<in> set (matches VERSION_BODY s c) \<longleftrightarrow> c' = c \<and> (\<exists>u. s = u @ t \<and> version_body u)"
proof (cases s)
  case Nil
  then show ?thesis by (auto simp: VERSION_BODY_def version_body_def)
next
  case (Cons x xs)
  have "(c', t) \<in> set (matches VERSION_BODY s c) \<longleftrightarrow> is_digit x \<and> c' = c \<and>
      (\<exists>w u. xs = w @ u @ t \<and> list_all is_alnum w \<and> version_tail u \<and> (u = [] \<or> is_version_sep (hd u)))"
    by (auto simp: VERSION_BODY_def Cons set_matches_Star_Cls set_matches_sep_groups
        simp flip: sep_group_def)
  moreover have "(\<exists>w u. xs = w @ u @ t \<and> list_all is_alnum w \<and> version_tail u
      \<and> (u = [] \<or> is_version_sep (hd u))) \<longleftrightarrow> (\<exists>u. xs = u @ t \<and> version_tail u)" (is "?L \<longleftrightarrow> ?R")
  proof
    assume ?L
    then obtain w u where "xs = (w @ u) @ t" "list_all is_alnum w" "version_tail u" by auto
    then show ?R using version_tail_append by blast
  next
    assume ?R
    then obtain u where u: "xs = u @ t" "version_tail u" by blast
    let ?w = "takeWhile is_alnum u" and ?r = "dropWhile is_alnum u"
    have "list_all is_alnum ?w" by (auto simp: list_all_iff dest: set_takeWhileD)
    moreover from this u have r: "version_tail ?r" by (metis takeWhile_dropWhile_id version_tail_append)
    moreover have "?r = [] \<or> is_version_sep (hd ?r)"
    proof (cases ?r)
      case (Cons e es)
      then have "\<not> is_alnum e" using hd_dropWhile [of is_alnum u] by simp
      with r Cons version_tail_hd [of e es] show ?thesis by simp
    qed simp
    moreover have "xs = ?w @ ?r @ t" using u by simp
    ultimately show ?L by blast
  qed
  moreover have "(\<exists>u. s = u @ t \<and> version_body u) \<longleftrightarrow> is_digit x \<and> (\<exists>u. xs = u @ t \<and> version_tail u)"
    by (auto simp: Cons version_body_def Cons_eq_append_conv)
  ultimately show ?thesis by blast
qed

text \<open>No version contains or ends before a double underscore of its own: the split is unique.\<close>

lemma version_tail_split_unique:
  "version_tail u \<Longrightarrow> version_tail v \<Longrightarrow> u @ ''__'' @ x = v @ ''__'' @ y \<Longrightarrow> u = v"
proof (induction u arbitrary: v)
  case Nil
  have us: "\<not> is_alnum (CHR ''_'')" by (simp add: char_class_defs)
  show ?case
  proof (cases v)
    case (Cons c w)
    with Nil have c: "c = CHR ''_''" by simp
    show ?thesis
    proof (cases w)
      case Nil
      with Cons c us \<open>version_tail v\<close> show ?thesis by simp
    next
      case (Cons d w')
      with \<open>v = c # w\<close> Nil.prems c have "d = CHR ''_''" by simp
      with Cons \<open>v = c # w\<close> c us Nil.prems(2) show ?thesis by simp
    qed
  qed simp
next
  case (Cons c u)
  have us: "\<not> is_alnum (CHR ''_'')" by (simp add: char_class_defs)
  have tl: "version_tail u" using Cons.prems(1) by (cases u) auto
  show ?case
  proof (cases v)
    case Nil
    with Cons.prems have "c = CHR ''_''" by simp
    with Cons.prems(1) us obtain d u' where "u = d # u'" "is_alnum d" by (cases u) auto
    with Nil Cons.prems(3) us show ?thesis by auto
  next
    case (Cons d w)
    have "version_tail w" using Cons.prems(2) Cons by (cases w) auto
    with Cons.IH [of w] tl Cons Cons.prems(3) show ?thesis by simp
  qed
qed

lemma version_body_split_unique:
  "version_body u \<Longrightarrow> version_body v \<Longrightarrow> u @ ''__'' @ x = v @ ''__'' @ y \<Longrightarrow> u = v"
  by (auto simp: version_body_def dest: version_tail_split_unique split: list.splits)

subsection \<open>Names written by the convention are read back\<close>

definition tag_group :: "string list \<Rightarrow> string" where
  "tag_group ts = (if ts = [] then [] else CHR ''['' # join '','' ts @ '']'')"

definition tag_ok :: "string \<Rightarrow> bool" where
  "tag_ok t \<longleftrightarrow> t \<noteq> [] \<and> strip t = t \<and> list_all (\<lambda>c. c \<noteq> CHR '','' \<and> c \<noteq> CHR '']'' \<and> c \<noteq> CHR 0x0A) t"

definition description_ok :: "string \<Rightarrow> bool" where
  "description_ok d \<longleftrightarrow> d \<noteq> [] \<and> list_all (\<lambda>c. c \<noteq> CHR ''['' \<and> c \<noteq> CHR ''/'' \<and> c \<noteq> CHR 0x0A) d"

definition extension_ok :: "string \<Rightarrow> bool" where
  "extension_ok e \<longleftrightarrow> (case e of [] \<Rightarrow> False | c # r \<Rightarrow>
     c = CHR ''.'' \<and> r \<noteq> [] \<and> str_lower e = e \<and> list_all (\<lambda>x. is_lower x) r)"

lemma extensions_ok: "list_all extension_ok (map fst EXTENSION_MAP)"
  by code_simp

lemma matches_LazyStar_Cls:
  "matches (LazyStar (Cls P)) s c = map (\<lambda>n. (c, drop n s)) [0..<Suc (length (takeWhile P s))]"
proof (induction s)
  case Nil
  show ?case by (subst matches.simps(6)) simp
next
  case (Cons x xs)
  have "[0..<Suc (Suc k)] = 0 # map Suc [0..<Suc k]" for k
    by (metis map_Suc_upt upt_conv_Cons zero_less_Suc)
  then have *: "map (\<lambda>n. (c, drop n (x # xs))) [0..<Suc (Suc k)]
      = (c, x # xs) # map (\<lambda>n. (c, drop n xs)) [0..<Suc k]" for k
    by (simp only: list.map list.map_comp comp_def drop_Suc_Cons drop_0)
  show ?case
  proof (cases "P x")
    case True
    with Cons * show ?thesis by (subst matches.simps(6)) (simp del: upt_Suc)
  next
    case False
    then show ?thesis by (subst matches.simps(6)) simp
  qed
qed

lemma matches_tag_re_other: "CHR ''['' \<noteq> x \<Longrightarrow> matches tag_re (x # s) c = []"
  by (auto simp: tag_re_def)

lemma concat_first:
  assumes "\<forall>n < L. f n = []" and "f L = [x]" and "L \<le> K"
  shows "\<exists>r. concat (map f [0..<Suc K]) = x # r"
proof -
  have "[0..<Suc K] = [0..<L] @ L # [Suc L..<Suc K]"
    using assms(3) by (metis le_imp_less_Suc less_imp_le_nat upt_add_eq_append upt_conv_Cons zero_le
        le_add_diff_inverse plus_nat.add_0)
  then have "concat (map f [0..<Suc K]) = concat (map f [0..<L]) @ f L @ concat (map f [Suc L..<Suc K])"
    by (simp del: upt_Suc)
  moreover have "concat (map f [0..<L]) = []" using assms(1) by simp
  ultimately show ?thesis using assms(2) by (simp del: upt_Suc concat_eq_Nil_conv)
qed

lemma matches_tag_re:
  "matches tag_re (CHR ''['' # s) c
     = concat (map (\<lambda>n. matches (chr CHR '']'') (drop n s)
          (c(1 := Some (take (length s - length (drop n s)) s))))
        [0..<Suc (length (takeWhile (\<lambda>c. c \<noteq> CHR 0x0A) s))])"
proof -
  have "matches (chr CHR ''['') (CHR ''['' # s) c = [(c, s)]" by simp
  then show ?thesis
    by (simp add: tag_re_def any_char_def matches_LazyStar_Cls comp_def del: upt_Suc matches_chr)
qed

lemma re_match_tag:
  assumes "list_all (\<lambda>c. c \<noteq> CHR '']'' \<and> c \<noteq> CHR 0x0A) t"
  shows "re_match tag_re (CHR ''['' # t @ CHR '']'' # w) = Some (no_caps(1 := Some t), w)"
proof -
  let ?s = "t @ CHR '']'' # w"
  let ?P = "\<lambda>c. c \<noteq> CHR 0x0A"
  let ?f = "\<lambda>n. matches (chr CHR '']'') (drop n ?s) (no_caps(1 := Some (take n ?s)))"
  let ?K = "length (takeWhile ?P ?s)"
  have K: "length t \<le> ?K" using assms by (induction t) auto
  have nth: "n \<le> length ?s" if "n \<in> set [0..<Suc ?K]" for n
    using that length_takeWhile_le [of ?P ?s] by auto
  have "matches tag_re (CHR ''['' # ?s) no_caps
      = concat (map (\<lambda>n. matches (chr CHR '']'') (drop n ?s)
          (no_caps(1 := Some (take (length ?s - length (drop n ?s)) ?s)))) [0..<Suc ?K])"
    by (rule matches_tag_re)
  also have "\<dots> = concat (map ?f [0..<Suc ?K])"
    by (rule arg_cong [where f = concat], rule map_cong [OF refl], drule nth)
      (simp only: length_drop diff_diff_cancel)
  finally have m: "matches tag_re (CHR ''['' # ?s) no_caps = concat (map ?f [0..<Suc ?K])" .
  have "\<forall>n < length t. ?f n = []"
  proof (intro allI impI)
    fix n assume n: "n < length t"
    then have "drop n ?s = t ! n # drop (Suc n) ?s"
      by (metis Cons_nth_drop_Suc length_append nth_append trans_less_add1)
    moreover have "t ! n \<noteq> CHR '']''" using assms n by (simp add: list_all_length)
    ultimately show "?f n = []" by simp
  qed
  moreover have "?f (length t) = [(no_caps(1 := Some t), w)]" by simp
  ultimately obtain r where "concat (map ?f [0..<Suc ?K]) = (no_caps(1 := Some t), w) # r"
    using concat_first [of "length t" ?f] K by blast
  with m show ?thesis by (simp add: re_match_def)
qed

lemma re_search_tag:
  assumes "CHR ''['' \<notin> set u" and "list_all (\<lambda>c. c \<noteq> CHR '']'' \<and> c \<noteq> CHR 0x0A) t"
  shows "re_search tag_re (u @ CHR ''['' # t @ CHR '']'' # w)
    = Some (u, CHR ''['' # t @ '']'', no_caps(1 := Some t), w)"
  using assms(1)
proof (induction u)
  case Nil
  show ?case using re_match_tag [OF assms(2), of w] by (simp add: fun_eq_iff)
next
  case (Cons x u)
  then have "re_match tag_re (x # v) = None" for v
    by (simp add: re_match_None_iff matches_tag_re_other)
  with Cons show ?case by simp
qed

lemma re_search_tag_None: "CHR ''['' \<notin> set s \<Longrightarrow> re_search tag_re s = None"
proof (induction s)
  case (Cons x s)
  then have "re_match tag_re (x # s) = None"
    by (simp add: re_match_None_iff matches_tag_re_other)
  with Cons show ?case by simp
qed (simp add: re_match_def tag_re_def)

lemma strip_migration_tags_none: "CHR ''['' \<notin> set s \<Longrightarrow> strip_migration_tags s = (s, [])"
  by (simp add: strip_migration_tags_def re_search_tag_None)

lemma replace_all_bracket_absent: "CHR ''['' \<notin> set w \<Longrightarrow> replace_all (CHR ''['' # t) [] w = w"
  by (rule replace_all_absent) (auto simp: contains_iff)

lemma replace_all_once:
  "CHR ''['' \<notin> set u \<Longrightarrow> CHR ''['' \<notin> set w \<Longrightarrow>
   replace_all (CHR ''['' # t) [] (u @ (CHR ''['' # t) @ w) = u @ w"
  by (induction u) (auto simp: replace_all_bracket_absent)

lemma split_on_join:
  "ts \<noteq> [] \<Longrightarrow> list_all tag_ok ts \<Longrightarrow> split_on (\<lambda>x. x = CHR '','') (join '','' ts) = ts"
proof (induction ts rule: induct_list012)
  case (2 t)
  then show ?case by (simp add: split_on_id tag_ok_def list_all_iff)
next
  case (3 t t' ts)
  then show ?case
    by (simp add: split_on_append_sep tag_ok_def list_all_iff)
qed simp

lemma tag_chars: "tag_ok t \<Longrightarrow> list_all (\<lambda>c. c \<noteq> CHR '']'' \<and> c \<noteq> CHR 0x0A) t"
  unfolding tag_ok_def by (elim conjE) (erule list.pred_mono_strong, simp)

lemma join_chars:
  "list_all tag_ok ts \<Longrightarrow> list_all (\<lambda>c. c \<noteq> CHR '']'' \<and> c \<noteq> CHR 0x0A) (join '','' ts)"
  by (induction ts rule: induct_list012) (simp_all add: tag_chars)

lemma strip_migration_tags_group:
  assumes "list_all tag_ok ts" and "CHR ''['' \<notin> set u" and "CHR ''['' \<notin> set w"
  shows "strip_migration_tags (u @ tag_group ts @ w) = (u @ w, ts)"
proof (cases "ts = []")
  case True
  with assms show ?thesis by (simp add: tag_group_def strip_migration_tags_none)
next
  case False
  let ?j = "join '','' ts" and ?c = "no_caps(1 := Some (join '','' ts))"
  have whole: "u @ tag_group ts @ w = u @ CHR ''['' # ?j @ CHR '']'' # w"
    using False by (simp add: tag_group_def)
  have m: "re_search tag_re (u @ CHR ''['' # ?j @ CHR '']'' # w) = Some (u, CHR ''['' # ?j @ '']'', ?c, w)"
    by (rule re_search_tag [OF assms(2) join_chars [OF assms(1)]])
  have r: "replace_all (CHR ''['' # ?j @ '']'') [] (u @ CHR ''['' # ?j @ CHR '']'' # w) = u @ w"
    using replace_all_once [OF assms(2,3), of "?j @ '']''"] by (simp only: append.simps append_assoc)
  have "filter (\<lambda>t. t \<noteq> []) (map strip ts) = ts"
    using assms(1) by (induction ts) (auto simp: tag_ok_def)
  then have "filter (\<lambda>t. t \<noteq> []) (map strip (split_on (\<lambda>x. x = CHR '','') (the_group ?c 1))) = ts"
    by (simp only: the_group_def fun_upd_same option.case split_on_join [OF False assms(1)])
  then show ?thesis
    unfolding strip_migration_tags_def whole m by (simp only: option.case prod.case r)
qed

lemma path_suffix_ext:
  assumes "extension_ok e" and "x \<noteq> []" and "CHR ''/'' \<notin> set x"
  shows "path_suffix (x @ e) = e" and "path_name (x @ e) = x @ e"
proof -
  obtain r where e: "e = CHR ''.'' # r" "r \<noteq> []" "list_all is_lower r"
    using assms(1) by (auto simp: extension_ok_def split: list.splits)
  then have nd: "CHR ''.'' \<notin> set r" "CHR ''/'' \<notin> set r"
    by (auto simp: list_all_iff is_lower_def code_point_def)
  show p: "path_name (x @ e) = x @ e"
    using assms e nd by (intro path_name_plain) (auto simp: append_eq_Cons_conv)
  have "takeWhile (\<lambda>c. c \<noteq> CHR ''.'') (rev r @ CHR ''.'' # rev x) = rev r"
    using nd by (subst takeWhile_append2) auto
  then show "path_suffix (x @ e) = e"
    unfolding path_suffix_def p Let_def using e assms(2) by simp
qed

lemma callback_prefix_heads:
  "list_all (\<lambda>p. p \<noteq> [] \<and> hd (str_lower p) \<in> set ''ab'') CALLBACK_PREFIXES"
  by code_simp

lemma no_callback_prefix:
  assumes "CHR ''['' \<notin> set s" and "s \<noteq> []" and "to_lower (hd s) \<notin> set ''ab''"
  shows "callback_event_prefix s = None"
proof -
  have "\<not> starts_with (str_lower s) (str_lower p @ CALLBACK_SEPARATOR)"
    if "p \<in> set CALLBACK_PREFIXES" for p
  proof -
    have "p \<noteq> []" "hd (str_lower p) \<in> set ''ab''"
      using that callback_prefix_heads by (auto simp only: list_all_iff)
    then obtain c q where "str_lower p = c # q" "c \<in> set ''ab''"
      by (cases "str_lower p") (auto simp only: str_lower_def list.map map_is_Nil_conv list.sel)
    moreover obtain x t where "s = x # t" using assms(2) by (cases s) auto
    ultimately show ?thesis using assms(3) by (auto simp: str_lower_def)
  qed
  then show ?thesis
    by (simp add: callback_event_prefix_def strip_migration_tags_none [OF assms(1)] find_None_iff)
qed

lemma in_matches_plus_any:
  "(c', t) \<in> set (matches (plus any_char) s c) \<longleftrightarrow>
     c' = c \<and> (\<exists>u. s = u @ t \<and> u \<noteq> [] \<and> list_all (\<lambda>x. x \<noteq> CHR 0x0A) u)"
  by (auto simp: any_char_def set_matches_plus_Cls)

lemma take_before [simp]: "take (length (u @ t) - length t) (u @ t) = u"
  by simp

lemma in_matches_group_any:
  "(c', t) \<in> set (matches (Grp n (plus any_char)) s c) \<longleftrightarrow>
     (\<exists>u. c' = c(n := Some u) \<and> s = u @ t \<and> u \<noteq> [] \<and> list_all (\<lambda>x. x \<noteq> CHR 0x0A) u)"
  unfolding in_matches_Grp in_matches_plus_any by (metis take_before)

lemma in_matches_group_version:
  "(c', t) \<in> set (matches (Grp n VERSION_BODY) s c) \<longleftrightarrow>
     (\<exists>u. c' = c(n := Some u) \<and> s = u @ t \<and> version_body u)"
  unfolding in_matches_Grp set_matches_VERSION_BODY by (metis take_before)

lemma in_matches_versioned:
  "(c, t) \<in> set (matches (versioned_pattern p e) s no_caps) \<longleftrightarrow>
     (\<exists>u d. s = p @ u @ ''__'' @ d @ e @ t \<and> version_body u \<and> d \<noteq> []
        \<and> list_all (\<lambda>x. x \<noteq> CHR 0x0A) d \<and> (t = [] \<or> t = [CHR 0x0A])
        \<and> c = no_caps(1 := Some u, 2 := Some d))"
  unfolding versioned_pattern_def in_matches_Seq in_matches_lit in_matches_group_any
    in_matches_group_version in_matches_Eol
  by (rule iffI; elim exE conjE; hypsubst; intro exI conjI; (rule refl | assumption))

lemma in_matches_repeatable:
  "(c, t) \<in> set (matches (repeatable_pattern e) s no_caps) \<longleftrightarrow>
     (\<exists>d. s = ''R__'' @ d @ e @ t \<and> d \<noteq> [] \<and> list_all (\<lambda>x. x \<noteq> CHR 0x0A) d
        \<and> (t = [] \<or> t = [CHR 0x0A]) \<and> c = no_caps(1 := Some d))"
  unfolding repeatable_pattern_def in_matches_Seq in_matches_lit in_matches_group_any in_matches_Eol
  by (rule iffI; elim exE conjE; hypsubst; intro exI conjI; (rule refl | assumption))

lemma ext_tail_unique:
  assumes "list_all (\<lambda>x. x \<noteq> CHR 0x0A) (d @ e)" and "d @ e = d' @ e @ r" and "r = [] \<or> r = [CHR 0x0A]"
  shows "r = [] \<and> d' = d"
proof -
  have "r \<noteq> [CHR 0x0A]"
  proof
    assume "r = [CHR 0x0A]"
    with assms(2) have "CHR 0x0A \<in> set (d @ e)" by simp
    with assms(1) show False by (auto simp: list_all_iff)
  qed
  with assms show ?thesis by auto
qed

lemma extension_chars:
  assumes "extension_ok e"
  shows "list_all (\<lambda>x. x \<noteq> CHR 0x0A \<and> x \<noteq> CHR ''['') e" and "str_lower e = e"
proof -
  have "is_lower x \<Longrightarrow> x \<noteq> CHR 0x0A \<and> x \<noteq> CHR ''[''" for x
    by (auto simp: is_lower_def code_point_def)
  with assms show "list_all (\<lambda>x. x \<noteq> CHR 0x0A \<and> x \<noteq> CHR ''['') e"
    by (cases e) (simp_all add: extension_ok_def list_all_iff)
  show "str_lower e = e" using assms by (cases e) (simp_all add: extension_ok_def)
qed

lemma no_newline:
  "description_ok d \<Longrightarrow> extension_ok e \<Longrightarrow> list_all (\<lambda>x. x \<noteq> CHR 0x0A) (d @ e)"
  using extension_chars [of e] by (auto simp: description_ok_def list_all_iff)

lemma re_match_versioned:
  assumes v: "version_body v" and d: "description_ok d" and e: "extension_ok e"
  shows "\<exists>c. re_match (versioned_pattern [p] e) (p # v @ ''__'' @ d @ e) = Some (c, [])
     \<and> the_group c 1 = v \<and> the_group c 2 = d"
proof -
  let ?s = "p # v @ ''__'' @ d @ e" and ?r = "versioned_pattern [p] e"
  note nl = no_newline [OF d e]
  have "(no_caps(1 := Some v, 2 := Some d), []) \<in> set (matches ?r ?s no_caps)"
    unfolding in_matches_versioned using v d nl
    by (intro exI [of _ v] exI [of _ d]) (simp add: description_ok_def)
  then have ne: "matches ?r ?s no_caps \<noteq> []" by (metis empty_iff empty_set)
  have "t = [] \<and> the_group c 1 = v \<and> the_group c 2 = d"
    if m: "(c, t) \<in> set (matches ?r ?s no_caps)" for c t
  proof -
    from m obtain u d' where w: "v @ ''__'' @ d @ e = u @ ''__'' @ d' @ e @ t" "version_body u"
        "t = [] \<or> t = [CHR 0x0A]" "c = no_caps(1 := Some u, 2 := Some d')"
      unfolding in_matches_versioned by auto
    then have "u = v" using version_body_split_unique [OF v] by metis
    with w(1) have "d @ e = d' @ e @ t" by simp
    with ext_tail_unique [OF nl this w(3)] w(4) \<open>u = v\<close> show ?thesis by (simp add: the_group_def)
  qed
  from re_match_unique [where Q = "\<lambda>c t. t = [] \<and> the_group c 1 = v \<and> the_group c 2 = d", OF this ne]
  show ?thesis by blast
qed

lemma re_match_repeatable:
  assumes d: "description_ok d" and e: "extension_ok e"
  shows "\<exists>c. re_match (repeatable_pattern e) (''R__'' @ d @ e) = Some (c, []) \<and> the_group c 1 = d"
proof -
  let ?s = "''R__'' @ d @ e" and ?r = "repeatable_pattern e"
  note nl = no_newline [OF d e]
  have sound: "t = [] \<and> the_group c 1 = d" if m: "(c, t) \<in> set (matches ?r ?s no_caps)" for c t
  proof -
    from m obtain d' where w: "d @ e = d' @ e @ t" "t = [] \<or> t = [CHR 0x0A]"
        "c = no_caps(1 := Some d')"
      unfolding in_matches_repeatable by auto
    with ext_tail_unique [OF nl w(1,2)] show ?thesis by (simp add: the_group_def)
  qed
  have "(no_caps(1 := Some d), []) \<in> set (matches ?r ?s no_caps)"
    unfolding in_matches_repeatable using d nl
    by (intro exI [of _ d]) (simp add: description_ok_def)
  then have "matches ?r ?s no_caps \<noteq> []" by (metis empty_iff empty_set)
  from re_match_unique [where Q = "\<lambda>c t. t = [] \<and> the_group c 1 = d", OF sound this]
  show ?thesis by blast
qed

lemma re_match_other_prefix:
  "x \<noteq> p \<Longrightarrow> re_match (versioned_pattern [p] e) (x # s) = None"
  by (simp add: re_match_None_iff versioned_pattern_def)

lemma convention_metadata:
  assumes "extension_ok e" "e \<in> set (map fst EXTENSION_MAP)" "list_all tag_ok ts"
    and "CHR ''['' \<notin> set u" "CHR ''/'' \<notin> set u" "u \<noteq> []" "to_lower (hd u) \<notin> set ''ab''"
  shows "strip_migration_tags (u @ tag_group ts @ e) = (u @ e, ts)"
    and "str_lower (path_suffix (u @ e)) = e" and "is_migration_file (u @ e)"
    and "callback_event_prefix (u @ e) = None"
proof -
  have e: "CHR ''['' \<notin> set e" and el: "str_lower e = e"
    using extension_chars [OF assms(1)] by (auto simp: list_all_iff)
  show "strip_migration_tags (u @ tag_group ts @ e) = (u @ e, ts)"
    by (rule strip_migration_tags_group [OF assms(3,4) e])
  show s: "str_lower (path_suffix (u @ e)) = e"
    by (simp only: path_suffix_ext [OF assms(1,6,5)] el)
  then show "is_migration_file (u @ e)" using assms(2) by (simp only: is_migration_file_def)
  show "callback_event_prefix (u @ e) = None"
    using assms(4,6,7) e by (intro no_callback_prefix) auto
qed

lemma version_body_chars:
  assumes "version_body v" shows "CHR ''['' \<notin> set v" and "CHR ''/'' \<notin> set v"
proof -
  have "version_tail s \<Longrightarrow> x \<in> set s \<Longrightarrow> is_alnum x \<or> is_version_sep x" for s x
    by (induction s rule: version_tail.induct) auto
  moreover have "is_digit x \<Longrightarrow> is_alnum x" for x by (simp add: is_alnum_def)
  ultimately have "x \<in> set v \<Longrightarrow> is_alnum x \<or> is_version_sep x" for x
    using assms by (fastforce simp: version_body_def split: list.splits)
  moreover have "\<not> is_alnum (CHR ''['')" "\<not> is_version_sep (CHR ''['')"
      "\<not> is_alnum (CHR ''/'')" "\<not> is_version_sep (CHR ''/'')"
    by code_simp+
  ultimately show "CHR ''['' \<notin> set v" "CHR ''/'' \<notin> set v" by blast+
qed

text \<open>
  C5. A migration file named by the convention is read back: \<open>V<version>__<description>\<close>, optionally a
  tag group in brackets, and an extension of the map gives a versioned migration with that version
  (normalised), description and tags; the same with \<open>U\<close> gives its undo script, and
  \<open>R__<description>\<close> a repeatable. Versions start with a digit, separators stand between letters or
  digits; descriptions hold no bracket, slash or newline.
\<close>

theorem filename_convention_roundtrip:
  assumes "version_body v" and "description_ok d" and "list_all tag_ok ts"
    and "e \<in> set (map fst EXTENSION_MAP)"
  shows "parse_migration_filename (''V'' @ v @ ''__'' @ d @ tag_group ts @ e)
           = metadata SQL (Some (normalize_version v)) d ts None
       \<and> parse_migration_filename (''U'' @ v @ ''__'' @ d @ tag_group ts @ e)
           = metadata UNDO_SQL (Some (normalize_version v)) d ts None
       \<and> parse_migration_filename (''R__'' @ d @ tag_group ts @ e)
           = metadata REPEATABLE None d ts None"
proof -
  have e: "extension_ok e" using assms(4) extensions_ok by (simp only: list_all_iff)
  have dc: "CHR ''['' \<notin> set d" "CHR ''/'' \<notin> set d"
    using assms(2) by (auto simp: description_ok_def list_all_iff)
  note vc = version_body_chars [OF assms(1)]
  have low: "to_lower (CHR ''V'') \<notin> set ''ab''" "to_lower (CHR ''U'') \<notin> set ''ab''"
      "to_lower (CHR ''R'') \<notin> set ''ab''"
    by code_simp+
  let ?V = "''V'' @ v @ ''__'' @ d" and ?U = "''U'' @ v @ ''__'' @ d" and ?R = "''R__'' @ d"
  have V: "CHR ''['' \<notin> set ?V" "CHR ''/'' \<notin> set ?V" "?V \<noteq> []" "to_lower (hd ?V) \<notin> set ''ab''"
    using dc vc low(1) by simp_all
  have U: "CHR ''['' \<notin> set ?U" "CHR ''/'' \<notin> set ?U" "?U \<noteq> []" "to_lower (hd ?U) \<notin> set ''ab''"
    using dc vc low(2) by simp_all
  have R: "CHR ''['' \<notin> set ?R" "CHR ''/'' \<notin> set ?R" "?R \<noteq> []" "to_lower (hd ?R) \<notin> set ''ab''"
    using dc low(3) by simp_all
  note mV = convention_metadata [OF e assms(4,3) V] and mU = convention_metadata [OF e assms(4,3) U]
    and mR = convention_metadata [OF e assms(4,3) R]
  obtain c1 c2 c3 where
      m1: "re_match (versioned_pattern ''V'' e) (''V'' @ v @ ''__'' @ d @ e) = Some (c1, [])"
        "the_group c1 1 = v" "the_group c1 2 = d"
    and m2: "re_match (versioned_pattern ''U'' e) (''U'' @ v @ ''__'' @ d @ e) = Some (c2, [])"
        "the_group c2 1 = v" "the_group c2 2 = d"
    and m3: "re_match (repeatable_pattern e) (''R__'' @ d @ e) = Some (c3, [])" "the_group c3 1 = d"
    using re_match_versioned [OF assms(1,2) e, of "CHR ''V''"]
      re_match_versioned [OF assms(1,2) e, of "CHR ''U''"] re_match_repeatable [OF assms(2) e]
    by auto
  have n1: "re_match (versioned_pattern ''V'' e) (''U'' @ s) = None"
    and n2: "re_match (versioned_pattern ''V'' e) (''R__'' @ s) = None"
    and n3: "re_match (versioned_pattern ''U'' e) (''R__'' @ s) = None" for s
    by (simp_all add: re_match_other_prefix)
  have "parse_migration_filename (?V @ tag_group ts @ e)
      = metadata SQL (Some (normalize_version v)) d ts None"
    unfolding parse_migration_filename_def mV(1) Let_def prod.case mV(2)
    using mV(3,4) m1 by (simp only: append_assoc) simp
  moreover have "parse_migration_filename (?U @ tag_group ts @ e)
      = metadata UNDO_SQL (Some (normalize_version v)) d ts None"
    unfolding parse_migration_filename_def mU(1) Let_def prod.case mU(2)
    using mU(3,4) m2 n1 by (simp only: append_assoc) simp
  moreover have "parse_migration_filename (?R @ tag_group ts @ e)
      = metadata REPEATABLE None d ts None"
    unfolding parse_migration_filename_def mR(1) Let_def prod.case mR(2)
    using mR(3,4) m3 n2 n3 by (simp only: append_assoc) simp
  ultimately show ?thesis by (simp only: append_assoc)
qed

lemma filename_convention_roundtrip_witness:
  "parse_migration_filename (''V'' @ ''1_2'' @ ''__'' @ ''add'' @ tag_group [''a'', ''b''] @ ''.sql'')
     = metadata SQL (Some (normalize_version ''1_2'')) ''add'' [''a'', ''b''] None"
proof -
  have h: "version_body ''1_2''" "description_ok ''add''" "list_all tag_ok [''a'', ''b'']"
      "''.sql'' \<in> set (map fst EXTENSION_MAP)"
    by code_simp+
  show ?thesis by (rule filename_convention_roundtrip [OF h, THEN conjunct1])
qed

subsection \<open>One event per callback\<close>

lemma callback_prefixes_apart:
  "distinct (map str_lower CALLBACK_PREFIXES)"
  "list_all (\<lambda>p. CHR ''_'' \<notin> set (str_lower p)) CALLBACK_PREFIXES"
  by code_simp+

lemma before_separator:
  "CHR ''_'' \<notin> set p \<Longrightarrow> starts_with s (p @ CALLBACK_SEPARATOR) \<Longrightarrow> takeWhile (\<lambda>c. c \<noteq> CHR ''_'') s = p"
proof -
  have "CHR ''_'' \<notin> set p \<Longrightarrow> takeWhile (\<lambda>c. c \<noteq> CHR ''_'') (p @ CHR ''_'' # t) = p" for t
    by (subst takeWhile_append2) auto
  then show "CHR ''_'' \<notin> set p \<Longrightarrow> starts_with s (p @ CALLBACK_SEPARATOR) \<Longrightarrow> ?thesis"
    by (auto simp: starts_with_iff CALLBACK_SEPARATOR_def)
qed

text \<open>
  A file belongs to an event exactly when its name without tags starts, whatever the case, with
  the event's prefix followed by the separator: no file fires for two events (\<open>afterMigrate\<close> and
  \<open>afterMigrateError\<close>, \<open>beforeEach\<close> and \<open>beforeEachMigrate\<close>), and the order of the list of
  prefixes does not matter.
\<close>

theorem callback_event_prefix_iff:
  "callback_event_prefix name = Some p \<longleftrightarrow>
     p \<in> set CALLBACK_PREFIXES \<and>
     starts_with (str_lower (fst (strip_migration_tags name))) (str_lower p @ CALLBACK_SEPARATOR)"
proof -
  let ?s = "str_lower (fst (strip_migration_tags name))"
  let ?m = "\<lambda>p. starts_with ?s (str_lower p @ CALLBACK_SEPARATOR)"
  have apart: "p = q" if "p \<in> set CALLBACK_PREFIXES" "q \<in> set CALLBACK_PREFIXES" "?m p" "?m q" for p q
  proof -
    have "CHR ''_'' \<notin> set (str_lower p)" "CHR ''_'' \<notin> set (str_lower q)"
      using that(1,2) callback_prefixes_apart(2) by (auto simp only: list_all_iff)
    then have "str_lower p = str_lower q" using that(3,4) before_separator by metis
    with that(1,2) callback_prefixes_apart(1) show ?thesis
      by (simp only: distinct_map inj_on_def)
  qed
  have "List.find ?m CALLBACK_PREFIXES = Some p \<longleftrightarrow> p \<in> set CALLBACK_PREFIXES \<and> ?m p"
  proof (cases "List.find ?m CALLBACK_PREFIXES")
    case None
    then have "\<forall>p \<in> set CALLBACK_PREFIXES. \<not> ?m p" by (simp add: find_None_iff)
    with None show ?thesis by auto
  next
    case (Some q)
    then have "q \<in> set CALLBACK_PREFIXES" "?m q" by (auto simp: find_Some_iff)
    with Some show ?thesis using apart by auto
  qed
  then show ?thesis by (simp add: callback_event_prefix_def Let_def)
qed

subsection \<open>Normalised versions\<close>

lemma replace_all_char: "replace_all [a] [b] s = map (\<lambda>c. if c = a then b else c) s"
  by (induction s) auto

lemma strip_map:
  assumes "\<And>c. is_space (f c) = is_space c"
  shows "strip (map f s) = map f (strip s)"
proof -
  have "is_space \<circ> f = is_space" using assms by (simp add: fun_eq_iff)
  then show ?thesis
    by (simp add: strip_def strip_by_def lstrip_by_def rstrip_by_def dropWhile_map rev_map)
qed

text \<open>
  The version stored for a file name is the version written in it: normalising separators keeps
  the version equal under the migrator's comparison.
\<close>

theorem normalize_version_equal: "vcmp (normalize_version v) v = 0"
proof -
  let ?f = "\<lambda>c. if c = CHR ''_'' then CHR ''.'' else c"
  have "is_space (?f c) = is_space c" for c by (simp add: char_class_defs)
  then have "parse_version_parts (strip (map ?f v)) = parse_version_parts (strip v)"
    by (simp only: strip_map parse_version_parts_sep)
  then show ?thesis
    by (simp add: vcmp_zero_iff version_key_def version_text_def normalize_version_def
        replace_all_char Let_def)
qed

end
