(* ===== verification/Scripts.thy ===== *)
theory Scripts
  imports Filenames
begin

text \<open>
  \<^verbatim>\<open>scripting/migration_script_manager.py\<close> and \<^verbatim>\<open>migration_markers.py\<close>: discovery of the scripts under
  the configured directories, loading them into the catalog by type, the order of each part, the
  callbacks of an event, the once-only naming warnings, and the marker rows. The file system is an
  argument (record \<open>fs\<close>): paths are texts in normal form.
\<close>

subsection \<open>The migration constructor\<close>

datatype script_error =
    MigrationEncodingError string
  | ScriptValueError string
  | UnknownTypeKey migration_type
  | DirectoryPermissionError string

text \<open>\<open>Migration(script_name=..., ...)\<close>, the branch without a script path.\<close>

definition new_migration ::
  "string \<Rightarrow> string \<Rightarrow> string option \<Rightarrow> string option \<Rightarrow> migration_type option \<Rightarrow> string list
   \<Rightarrow> filename_metadata option \<Rightarrow> int option \<Rightarrow> script_error + migration" where
  "new_migration name text ver desc typ tgs given cs =
     (if name = [] then Inl (ScriptValueError ''Either script_path or script_name must be provided'')
      else
        let provided = (if given = None \<and> (typ = None \<or> \<not> truthy ver \<or> \<not> truthy desc \<or> tgs = [])
                        then Some (parse_migration_filename name) else given);
            parsed_version = (case provided of None \<Rightarrow> None | Some md \<Rightarrow> fm_version md);
            parsed_description = (case provided of None \<Rightarrow> [] | Some md \<Rightarrow> fm_description md);
            parsed_tags = (case provided of None \<Rightarrow> [] | Some md \<Rightarrow> fm_tags md);
            t = (case typ of Some t \<Rightarrow> t
                 | None \<Rightarrow> (case provided of None \<Rightarrow> UNKNOWN | Some md \<Rightarrow> fm_type md))
        in Inr \<lparr>script_name = name, version = or_else ver parsed_version,
                description = (if truthy desc then the desc else parsed_description),
                mtype = t, tags = (if tgs \<noteq> [] then tgs else parsed_tags),
                checksum = cs, content = text, path = None,
                format = (if t = BASELINE then FUNKNOWN else detect_from_filename name),
                success = VNone, status = ''PENDING'', execution_time = None, installed_on = None,
                installed_by = None, installed_rank = None, error_message = None,
                resolved = False\<rparr>)"

subsection \<open>The file system\<close>

record fs =
  fs_resolve :: "string \<Rightarrow> string option"
  fs_is_dir :: "string \<Rightarrow> bool"
  fs_readable :: "string \<Rightarrow> bool"
  fs_list :: "string \<Rightarrow> bool \<Rightarrow> string list"
  fs_is_file :: "string \<Rightarrow> bool"
  fs_is_symlink :: "string \<Rightarrow> bool"
  fs_read :: "string \<Rightarrow> string + string"

definition path_join :: "string \<Rightarrow> string \<Rightarrow> string" where
  "path_join d p = (if starts_with p ''/'' then p else d @ ''/'' @ p)"

definition load_migration_script ::
  "fs \<Rightarrow> string \<Rightarrow> filename_metadata option \<Rightarrow> script_error + migration" where
  "load_migration_script f script_path given =
     (let name = path_name script_path;
          md = (case given of Some x \<Rightarrow> x | None \<Rightarrow> parse_migration_filename name)
      in case fs_read f script_path of
           Inl e \<Rightarrow> Inl (MigrationEncodingError e)
         | Inr text \<Rightarrow>
             rbind (new_migration name text None None None [] (Some md)
                      (Some (calculate_migration_script_checksum text)))
               (\<lambda>m. Inr (if mtype m = SQL \<and> format m \<noteq> FSQL \<and> format m \<noteq> FUNKNOWN
                         then m\<lparr>path := Some script_path, mtype := PYTHON\<rparr>
                         else m\<lparr>path := Some script_path\<rparr>)))"

subsection \<open>Naming warnings\<close>

record warn_state =
  reported :: "string list"
  warnings :: "string list"

definition report_callback_naming_violation :: "string \<Rightarrow> warn_state \<Rightarrow> warn_state" where
  "report_callback_naming_violation name st =
     (if name \<in> set (reported st) then st
      else if callback_prefix_missing_separator name \<noteq> None
      then st\<lparr>reported := reported st @ [name], warnings := warnings st @ [name]\<rparr>
      else if looks_like_migration name
      then st\<lparr>reported := reported st @ [name], warnings := warnings st @ [name]\<rparr>
      else st)"

subsection \<open>Discovery\<close>

record discovered_script =
  ds_path :: string
  ds_resolved :: string
  ds_metadata :: filename_metadata

definition DISCOVERED_TYPES :: "migration_type list" where
  "DISCOVERED_TYPES = [SQL, REPEATABLE, UNDO_SQL, CALLBACK]"

text \<open>The directories to search, each once by its resolved path.\<close>

fun normalized_dirs :: "fs \<Rightarrow> string list \<Rightarrow> string list \<Rightarrow> (string \<times> string) list" where
  "normalized_dirs f seen [] = []"
| "normalized_dirs f seen (d # ds) =
     (let r = (case fs_resolve f d of Some r \<Rightarrow> r | None \<Rightarrow> d)
      in if r \<in> set seen then normalized_dirs f seen ds
         else (d, r) # normalized_dirs f (r # seen) ds)"

definition resolved_map :: "fs \<Rightarrow> (string \<times> bool) list \<Rightarrow> (string, bool) dict" where
  "resolved_map f m =
     foldl (\<lambda>d (p, b). dset d (case fs_resolve f p of Some r \<Rightarrow> r | None \<Rightarrow> p) b) [] m"

text \<open>\<open>resolved.relative_to(dir)\<close> succeeds.\<close>

definition is_inside :: "string \<Rightarrow> string \<Rightarrow> bool" where
  "is_inside p d \<longleftrightarrow> p = d \<or> starts_with p (d @ ''/'')"

record discovery =
  dv_scripts :: "string list"
  dv_metadata :: "(string, discovered_script) dict"
  dv_warn :: warn_state

definition discover_file ::
  "fs \<Rightarrow> string \<Rightarrow> string \<times> string \<Rightarrow> string \<Rightarrow> discovery \<Rightarrow> discovery" where
  "discover_file f main_dir dir rel st =
     (let (d, rd) = dir; p = path_join d rel in
      if \<not> (fs_is_file f p \<and> \<not> fs_is_symlink f p \<and> is_migration_file (path_name p)) then st
      else case fs_resolve f p of
        None \<Rightarrow> st
      | Some rp \<Rightarrow>
          if \<not> is_inside rp rd then st
          else let md = parse_migration_filename (path_name p) in
            if fm_type md \<in> set DISCOVERED_TYPES
            then let reference = (if rd \<noteq> main_dir then d @ ''/'' @ rel else rel)
                 in st\<lparr>dv_scripts := dv_scripts st @ [reference],
                       dv_metadata := dset (dv_metadata st) reference
                         \<lparr>ds_path = p, ds_resolved = rp, ds_metadata = md\<rparr>\<rparr>
            else st\<lparr>dv_warn := report_callback_naming_violation (path_name p) (dv_warn st)\<rparr>)"

fun discover_dirs ::
  "fs \<Rightarrow> string \<Rightarrow> bool \<Rightarrow> (string, bool) dict \<Rightarrow> (string \<times> string) list \<Rightarrow> discovery
   \<Rightarrow> script_error + discovery" where
  "discover_dirs f main_dir recursive rmap [] st = Inr st"
| "discover_dirs f main_dir recursive rmap ((d, rd) # ds) st =
     (if \<not> fs_is_dir f d then discover_dirs f main_dir recursive rmap ds st
      else if \<not> fs_readable f d then Inl (DirectoryPermissionError d)
      else let rec = dget_or rmap rd (dget_or rmap d recursive)
           in discover_dirs f main_dir recursive rmap ds
                (fold (discover_file f main_dir (d, rd)) (fs_list f d rec) st))"

definition get_all_scripts ::
  "fs \<Rightarrow> string \<Rightarrow> bool \<Rightarrow> string list \<Rightarrow> (string \<times> bool) list \<Rightarrow> warn_state \<Rightarrow> script_error + discovery" where
  "get_all_scripts f migrations_dir recursive additional dir_recursive_map w =
     discover_dirs f (case fs_resolve f migrations_dir of Some r \<Rightarrow> r | None \<Rightarrow> migrations_dir)
       recursive (resolved_map f dir_recursive_map)
       (normalized_dirs f [] (migrations_dir # additional))
       \<lparr>dv_scripts = [], dv_metadata = [], dv_warn = w\<rparr>"

subsection \<open>Loading the catalog\<close>

type_synonym catalog = "(migration_type, migration list) dict"

definition empty_catalog :: catalog where
  "empty_catalog = [(SQL, []), (UNDO_SQL, []), (REPEATABLE, []), (BASELINE, []), (CALLBACK, [])]"

record load_state =
  ls_seen :: "string list"
  ls_catalog :: catalog
  ls_callbacks :: "migration list"
  ls_invalid :: "(string \<times> string) list"
  ls_excluded :: "string list"

definition script_path_of :: "string \<Rightarrow> string list \<Rightarrow> string \<Rightarrow> string" where
  "script_path_of dir additional ref =
     (if additional \<noteq> [] \<and> contains ref ''/''
      then (case List.find (\<lambda>d. starts_with ref (d @ ''/'')) additional of
              Some d \<Rightarrow> path_join d (drop (length (d @ ''/'')) ref)
            | None \<Rightarrow> path_join dir ref)
      else path_join dir ref)"

text \<open>The path a file is recognised by: the resolved one kept by the discovery, resolved anew when the
  reference leads elsewhere, or the path itself when it cannot be resolved.\<close>

definition ref_key :: "fs \<Rightarrow> string \<Rightarrow> string list \<Rightarrow> (string, discovered_script) dict \<Rightarrow> string \<Rightarrow> string" where
  "ref_key f dir additional discovered ref =
     (let p = script_path_of dir additional ref in
      case (case dget discovered ref of
              Some d \<Rightarrow> if p = ds_path d then Some (ds_resolved d) else fs_resolve f p
            | None \<Rightarrow> fs_resolve f p) of Some r \<Rightarrow> r | None \<Rightarrow> p)"

definition place_script ::
  "fs \<Rightarrow> string \<Rightarrow> string \<Rightarrow> filename_metadata \<Rightarrow> load_state \<Rightarrow> script_error + load_state" where
  "place_script f ref p md st =
     (case load_migration_script f p (Some md) of
        Inl (ScriptValueError e) \<Rightarrow> Inr (st\<lparr>ls_invalid := ls_invalid st @ [(ref, e)]\<rparr>)
      | Inl e \<Rightarrow> Inl e
      | Inr m \<Rightarrow>
          if fm_type md = CALLBACK then Inr (st\<lparr>ls_callbacks := ls_callbacks st @ [m]\<rparr>)
          else case dget (ls_catalog st) (fm_type md) of
              None \<Rightarrow> Inl (UnknownTypeKey (fm_type md))
            | Some ms \<Rightarrow> Inr (st\<lparr>ls_catalog := dset (ls_catalog st) (fm_type md) (ms @ [m])\<rparr>))"

definition load_one ::
  "fs \<Rightarrow> string \<Rightarrow> string list \<Rightarrow> (string, discovered_script) dict \<Rightarrow> string \<Rightarrow> load_state
   \<Rightarrow> script_error + load_state" where
  "load_one f dir additional discovered ref st =
     (let p = script_path_of dir additional ref;
          key = ref_key f dir additional discovered ref
      in if key \<in> set (ls_seen st) then Inr st
         else
           let st1 = st\<lparr>ls_seen := ls_seen st @ [key]\<rparr>;
               md = (case dget discovered ref of Some d \<Rightarrow> ds_metadata d
                     | None \<Rightarrow> parse_migration_filename (path_name p))
           in if fm_type md = BASELINE
                 \<and> \<not> list_ex (\<lambda>prefix. starts_with (path_name p) prefix) CALLBACK_PREFIXES
              then Inr (st1\<lparr>ls_excluded := ls_excluded st1 @ [ref]\<rparr>)
              else place_script f ref p md st1)"

fun load_loop ::
  "fs \<Rightarrow> string \<Rightarrow> string list \<Rightarrow> (string, discovered_script) dict \<Rightarrow> string list \<Rightarrow> load_state
   \<Rightarrow> script_error + load_state" where
  "load_loop f dir additional discovered [] st = Inr st"
| "load_loop f dir additional discovered (ref # refs) st =
     rbind (load_one f dir additional discovered ref st) (load_loop f dir additional discovered refs)"

definition cmp_migration_sort :: "migration \<Rightarrow> migration \<Rightarrow> int" where
  "cmp_migration_sort a b = compare_versions (version a) (version b)"

definition script_name_lower :: "migration \<Rightarrow> string" where
  "script_name_lower m = str_lower (script_name m)"

text \<open>The sorts at the end: callbacks by name join their part of the catalog, versioned scripts by
  version, repeatable scripts by lower-case name.\<close>

definition sort_catalog :: "load_state \<Rightarrow> catalog" where
  "sort_catalog st =
     (let c1 = dset (ls_catalog st) CALLBACK
                 (dget_or (ls_catalog st) CALLBACK [] @ sorted_by (key_cmp script_name) (ls_callbacks st));
          c2 = dset c1 SQL (sorted_by cmp_migration_sort (dget_or c1 SQL []))
      in dset c2 REPEATABLE (sorted_by (key_cmp script_name_lower) (dget_or c2 REPEATABLE [])))"

definition initial_load :: load_state where
  "initial_load = \<lparr>ls_seen = [], ls_catalog = empty_catalog, ls_callbacks = [], ls_invalid = [],
                   ls_excluded = []\<rparr>"

definition load_migration_scripts ::
  "fs \<Rightarrow> string \<Rightarrow> bool \<Rightarrow> string list \<Rightarrow> (string \<times> bool) list \<Rightarrow> warn_state
   \<Rightarrow> script_error + (catalog \<times> warn_state)" where
  "load_migration_scripts f dir recursive additional dir_recursive_map w =
     rbind (get_all_scripts f dir recursive additional dir_recursive_map w) (\<lambda>dv.
     rbind (load_loop f dir additional (dv_metadata dv) (dv_scripts dv) initial_load) (\<lambda>st.
       Inr (sort_catalog st, dv_warn dv)))"

definition catalog_list :: "catalog \<Rightarrow> migration list" where
  "catalog_list c = dget_or c SQL [] @ dget_or c REPEATABLE [] @ dget_or c UNDO_SQL []
                      @ dget_or c BASELINE [] @ dget_or c CALLBACK []"

definition get_migration_scripts ::
  "fs \<Rightarrow> string \<Rightarrow> bool \<Rightarrow> string list \<Rightarrow> (string \<times> bool) list \<Rightarrow> warn_state
   \<Rightarrow> script_error + (migration list \<times> warn_state)" where
  "get_migration_scripts f dir recursive additional dir_recursive_map w =
     rbind (load_migration_scripts f dir recursive additional dir_recursive_map w)
       (\<lambda>(c, w'). Inr (catalog_list c, w'))"

text \<open>With a command-scoped catalog the list is filtered as it is.\<close>

definition get_callbacks_by_event :: "string \<Rightarrow> migration list \<Rightarrow> migration list" where
  "get_callbacks_by_event event_prefix callbacks =
     sorted_by (key_cmp script_name_lower)
       (filter (\<lambda>cb. matches_callback_event (path_name (script_name cb)) event_prefix) callbacks)"

definition is_valid_script_name :: "string \<Rightarrow> bool" where
  "is_valid_script_name filename \<longleftrightarrow> fm_type (parse_migration_filename filename) \<in> set DISCOVERED_TYPES"

definition is_versioned_script_name :: "string \<Rightarrow> bool" where
  "is_versioned_script_name filename \<longleftrightarrow>
     (let md = parse_migration_filename filename in fm_type md = SQL \<and> truthy (fm_version md))"

subsection \<open>Changed scripts\<close>

definition successful_non_delete_records :: "migration list \<Rightarrow> migration list" where
  "successful_non_delete_records ms = filter (\<lambda>m. mtype m \<noteq> DELETE \<and> mtype m \<noteq> UNDO_SQL \<and> succeeded m) ms"

definition last_successful_non_delete_record :: "migration list \<Rightarrow> string \<Rightarrow> migration option" where
  "last_successful_non_delete_record applied name =
     List.find (\<lambda>m. script_name m = name) (successful_non_delete_records (rev applied))"

text \<open>The file is \<open>None\<close> when it does not exist, otherwise what reading it gives.\<close>

definition current_script_checksum ::
  "(script_error + string) option \<Rightarrow> migration option \<Rightarrow> script_error + int option" where
  "current_script_checksum file script =
     (case (case script of None \<Rightarrow> None | Some m \<Rightarrow> norm_checksum (checksum m)) of
        Some c \<Rightarrow> Inr (Some c)
      | None \<Rightarrow> (case file of
            None \<Rightarrow> Inr None
          | Some (Inl e) \<Rightarrow> Inl e
          | Some (Inr raw) \<Rightarrow> Inr (norm_checksum (Some (calculate_migration_script_checksum raw)))))"

definition has_script_changed ::
  "string \<Rightarrow> migration list \<Rightarrow> (script_error + string) option \<Rightarrow> script_error + bool" where
  "has_script_changed name applied file =
     (if applied = [] then Inr True
      else case last_successful_non_delete_record applied name of
        None \<Rightarrow> Inr True
      | Some m \<Rightarrow>
          rbind (current_script_checksum file None) (\<lambda>current.
            case norm_checksum (checksum m) of
              None \<Rightarrow> Inr True
            | Some a \<Rightarrow> (case current of None \<Rightarrow> Inr True | Some c \<Rightarrow> Inr (c \<noteq> a))))"

subsection \<open>Marker rows\<close>

definition str_of_opt :: "string option \<Rightarrow> string" where
  "str_of_opt v = (case v of None \<Rightarrow> ''None'' | Some s \<Rightarrow> s)"

definition baseline_marker :: "string option \<Rightarrow> string \<Rightarrow> script_error + migration" where
  "baseline_marker ver desc =
     (let marker_name = ''B'' @ str_of_opt ver @ ''__'' @ desc @ ''.sql'';
          marker_content = ''-- Baseline migration for version '' @ str_of_opt ver
      in new_migration marker_name marker_content ver (Some desc) (Some BASELINE) []
           (Some (parse_migration_filename marker_name))
           (Some (calculate_migration_script_checksum marker_content)))"

definition delete_marker ::
  "string \<Rightarrow> string option \<Rightarrow> string \<Rightarrow> string \<Rightarrow> script_error + migration" where
  "delete_marker name ver reason original_type_name =
     (let marker_description = ''[DELETE:'' @ original_type_name @ ''] '' @ reason;
          marker_content = ''-- Delete operation: '' @ marker_description
      in new_migration name marker_content ver (Some marker_description) (Some DELETE) []
           (Some (parse_migration_filename name))
           (Some (calculate_migration_script_checksum marker_content)))"

subsection \<open>What a loaded script holds\<close>

lemma new_migration_fields:
  "new_migration name text ver desc typ tgs given cs = Inr m \<Longrightarrow>
     script_name m = name \<and> name \<noteq> [] \<and> content m = text \<and> checksum m = cs \<and> path m = None
     \<and> success m = VNone \<and> \<not> resolved m"
  by (auto simp: new_migration_def Let_def split: if_splits)

lemma new_migration_type:
  "new_migration name text ver desc (Some t) tgs given cs = Inr m \<Longrightarrow> mtype m = t"
  "new_migration name text ver desc None tgs (Some md) cs = Inr m \<Longrightarrow> mtype m = fm_type md"
  by (auto simp: new_migration_def Let_def split: if_splits)

lemma load_migration_script_fields:
  assumes "load_migration_script f p (Some md) = Inr m"
  shows "path m = Some p \<and> fs_read f p = Inr (content m)
    \<and> checksum m = Some (calculate_migration_script_checksum (content m))
    \<and> script_name m = path_name p \<and> path_name p \<noteq> []
    \<and> (mtype m = fm_type md \<or> fm_type md = SQL \<and> mtype m = PYTHON)"
proof -
  from assms obtain raw n where r: "fs_read f p = Inr raw"
      "new_migration (path_name p) raw None None None [] (Some md)
         (Some (calculate_migration_script_checksum raw)) = Inr n"
      "m = (if mtype n = SQL \<and> format n \<noteq> FSQL \<and> format n \<noteq> FUNKNOWN
            then n\<lparr>path := Some p, mtype := PYTHON\<rparr> else n\<lparr>path := Some p\<rparr>)"
    by (auto simp: load_migration_script_def Let_def split: sum.splits)
  from new_migration_fields [OF r(2)] new_migration_type(2) [OF r(2)] r(1,3)
  show ?thesis by simp
qed

lemma load_migration_script_error:
  assumes "load_migration_script f p (Some md) = Inl (ScriptValueError e)"
  shows "path_name p = []"
  using assms
  by (auto simp: load_migration_script_def Let_def new_migration_def rbind_Inl_iff
      split: sum.splits if_splits)

subsection \<open>The catalog holds every discovered script once\<close>

fun first_by :: "('a \<Rightarrow> 'k) \<Rightarrow> 'k list \<Rightarrow> 'a list \<Rightarrow> 'a list" where
  "first_by k seen [] = []"
| "first_by k seen (x # xs) =
     (if k x \<in> set seen then first_by k seen xs else x # first_by k (seen @ [k x]) xs)"

definition all_loaded :: "load_state \<Rightarrow> migration list" where
  "all_loaded st = concat (map snd (ls_catalog st)) @ ls_callbacks st"

definition catalog_keys :: "migration_type list" where
  "catalog_keys = [SQL, UNDO_SQL, REPEATABLE, BASELINE, CALLBACK]"

lemma mset_dset_append:
  "dget c t = Some ms \<Longrightarrow>
   mset (concat (map snd (dset c t (ms @ [m])))) = add_mset m (mset (concat (map snd c)))"
  by (induction c t "ms @ [m]" rule: dset.induct) (auto simp: dget_def split: if_splits)

lemma dkeys_dset_present: "dget d k \<noteq> None \<Longrightarrow> dkeys (dset d k v) = dkeys d"
  by (induction d k v rule: dset.induct) (auto simp: dget_def dkeys_def)

lemma load_one_spec:
  assumes "load_one f dir additional dv ref st = Inr st'"
    and "dget dv ref = Some d" and "fm_type (ds_metadata d) \<in> set DISCOVERED_TYPES"
  shows "if ref_key f dir additional dv ref \<in> set (ls_seen st) then st' = st
         else ls_seen st' = ls_seen st @ [ref_key f dir additional dv ref]
           \<and> dkeys (ls_catalog st') = dkeys (ls_catalog st)
           \<and> (if path_name (script_path_of dir additional ref) = [] then all_loaded st' = all_loaded st
              else \<exists>m. load_migration_script f (script_path_of dir additional ref) (Some (ds_metadata d)) = Inr m
                     \<and> mset (all_loaded st') = add_mset m (mset (all_loaded st)))"
proof (cases "ref_key f dir additional dv ref \<in> set (ls_seen st)")
  case True
  with assms(1) show ?thesis by (simp add: load_one_def Let_def)
next
  case False
  let ?p = "script_path_of dir additional ref"
  let ?st1 = "st\<lparr>ls_seen := ls_seen st @ [ref_key f dir additional dv ref]\<rparr>"
  have "fm_type (ds_metadata d) \<noteq> BASELINE" using assms(3) by (auto simp: DISCOVERED_TYPES_def)
  with assms(1,2) False have step: "place_script f ref ?p (ds_metadata d) ?st1 = Inr st'"
    by (simp add: load_one_def Let_def)
  show ?thesis
  proof (cases "load_migration_script f ?p (Some (ds_metadata d))")
    case (Inl e)
    with step obtain x where e: "e = ScriptValueError x" by (cases e) (auto simp: place_script_def)
    with Inl have "path_name ?p = []" by (metis load_migration_script_error)
    with step Inl e False show ?thesis by (auto simp: place_script_def all_loaded_def)
  next
    case (Inr m)
    then have "path_name ?p \<noteq> []" using load_migration_script_fields by blast
    with step Inr False show ?thesis
      by (auto simp: place_script_def all_loaded_def mset_dset_append dkeys_dset_present
          split: if_splits option.splits)
  qed
qed

definition catalog_entry :: "fs \<Rightarrow> migration \<Rightarrow> bool" where
  "catalog_entry f m \<longleftrightarrow>
     (case path m of None \<Rightarrow> False
      | Some p \<Rightarrow> fs_read f p = Inr (content m)
          \<and> checksum m = Some (calculate_migration_script_checksum (content m))
          \<and> script_name m = path_name p)"

definition discovered_ok :: "(string, discovered_script) dict \<Rightarrow> string \<Rightarrow> bool" where
  "discovered_ok dv ref \<longleftrightarrow>
     (case dget dv ref of None \<Rightarrow> False | Some d \<Rightarrow> fm_type (ds_metadata d) \<in> set DISCOVERED_TYPES)"

definition loadable :: "string \<Rightarrow> string list \<Rightarrow> string \<Rightarrow> bool" where
  "loadable dir additional ref \<longleftrightarrow> path_name (script_path_of dir additional ref) \<noteq> []"

lemma load_loop_spec:
  assumes "load_loop f dir additional dv refs st = Inr st'"
    and "\<forall>ref \<in> set refs. discovered_ok dv ref"
  shows "dkeys (ls_catalog st') = dkeys (ls_catalog st)
    \<and> mset (map path (all_loaded st')) = mset (map path (all_loaded st))
        + mset (map (\<lambda>r. Some (script_path_of dir additional r))
            (filter (loadable dir additional) (first_by (ref_key f dir additional dv) (ls_seen st) refs)))
    \<and> (list_all (catalog_entry f) (all_loaded st) \<longrightarrow> list_all (catalog_entry f) (all_loaded st'))"
  using assms
proof (induction refs arbitrary: st)
  case (Cons ref refs)
  let ?k = "ref_key f dir additional dv" and ?p = "script_path_of dir additional ref"
  from Cons.prems obtain st1 where st1: "load_one f dir additional dv ref st = Inr st1"
      "load_loop f dir additional dv refs st1 = Inr st'"
    by auto
  from Cons.prems obtain d where d: "dget dv ref = Some d" "fm_type (ds_metadata d) \<in> set DISCOVERED_TYPES"
    by (auto simp: discovered_ok_def split: option.splits)
  note one = load_one_spec [OF st1(1) d]
  have IH: "dkeys (ls_catalog st') = dkeys (ls_catalog st1)"
      "mset (map path (all_loaded st')) = mset (map path (all_loaded st1))
        + mset (map (\<lambda>r. Some (script_path_of dir additional r))
            (filter (loadable dir additional) (first_by ?k (ls_seen st1) refs)))"
      "list_all (catalog_entry f) (all_loaded st1) \<Longrightarrow> list_all (catalog_entry f) (all_loaded st')"
    using Cons.IH [OF st1(2)] Cons.prems(2) by simp_all
  show ?case
  proof (cases "?k ref \<in> set (ls_seen st)")
    case True
    with one have "st1 = st" by simp
    with IH True show ?thesis by simp
  next
    case new: False
    show ?thesis
    proof (cases "path_name ?p = []")
      case True
      with one new have "ls_seen st1 = ls_seen st @ [?k ref]" "all_loaded st1 = all_loaded st"
          "dkeys (ls_catalog st1) = dkeys (ls_catalog st)" by simp_all
      with IH True new show ?thesis by (simp add: loadable_def)
    next
      case False
      with one new obtain m where m: "load_migration_script f ?p (Some (ds_metadata d)) = Inr m"
          "mset (all_loaded st1) = add_mset m (mset (all_loaded st))"
          "ls_seen st1 = ls_seen st @ [?k ref]" "dkeys (ls_catalog st1) = dkeys (ls_catalog st)"
        by auto
      note fields = load_migration_script_fields [OF m(1)]
      from m(2) have "set (all_loaded st1) = insert m (set (all_loaded st))"
        by (metis set_mset_add_mset_insert set_mset_mset)
      with fields have "list_all (catalog_entry f) (all_loaded st) \<Longrightarrow>
          list_all (catalog_entry f) (all_loaded st1)"
        by (simp add: list_all_iff catalog_entry_def)
      with IH m new False fields show ?thesis by (simp add: loadable_def)
    qed
  qed
qed simp

lemma place_script_error:
  assumes "place_script f ref p md st = Inl e"
    and "fm_type md \<in> set DISCOVERED_TYPES" and "dkeys (ls_catalog st) = catalog_keys"
  shows "\<exists>msg. e = MigrationEncodingError msg \<and> fs_read f p = Inl msg"
proof -
  have "dget (ls_catalog st) (fm_type md) \<noteq> None \<or> fm_type md = CALLBACK"
    using assms(2,3) by (auto simp: dget_None_iff DISCOVERED_TYPES_def catalog_keys_def)
  with assms(1) have "load_migration_script f p (Some md) = Inl e \<and> (\<forall>x. e \<noteq> ScriptValueError x)"
    by (auto simp: place_script_def split: sum.splits script_error.splits if_splits option.splits)
  then show ?thesis
    by (auto simp: load_migration_script_def Let_def rbind_Inl_iff new_migration_def
        split: sum.splits if_splits)
qed

lemma load_loop_error:
  assumes "load_loop f dir additional dv refs st = Inl e"
    and "\<forall>ref \<in> set refs. discovered_ok dv ref" and "dkeys (ls_catalog st) = catalog_keys"
  shows "\<exists>p msg. e = MigrationEncodingError msg \<and> fs_read f p = Inl msg"
  using assms
proof (induction refs arbitrary: st)
  case (Cons ref refs)
  from Cons.prems obtain d where d: "dget dv ref = Some d" "fm_type (ds_metadata d) \<in> set DISCOVERED_TYPES"
    by (auto simp: discovered_ok_def split: option.splits)
  show ?case
  proof (cases "load_one f dir additional dv ref st")
    case (Inl e')
    with Cons.prems(1) have e: "e' = e" by simp
    let ?st1 = "st\<lparr>ls_seen := ls_seen st @ [ref_key f dir additional dv ref]\<rparr>"
    have "fm_type (ds_metadata d) \<noteq> BASELINE" using d(2) by (auto simp: DISCOVERED_TYPES_def)
    with Inl d(1) e have "place_script f ref (script_path_of dir additional ref) (ds_metadata d) ?st1 = Inl e"
      by (simp add: load_one_def Let_def split: if_splits)
    from place_script_error [OF this d(2)] Cons.prems(3) show ?thesis by auto
  next
    case (Inr st1)
    with load_one_spec [OF Inr d] Cons.prems(3) have "dkeys (ls_catalog st1) = catalog_keys"
      by (auto split: if_splits)
    with Cons Inr show ?thesis by simp
  qed
qed simp

definition discovery_ok :: "discovery \<Rightarrow> bool" where
  "discovery_ok st \<longleftrightarrow> (\<forall>ref \<in> set (dv_scripts st). discovered_ok (dv_metadata st) ref)"

lemma discovery_ok_file: "discovery_ok st \<Longrightarrow> discovery_ok (discover_file f main_dir d rel st)"
  by (auto simp: discover_file_def Let_def discovery_ok_def discovered_ok_def
      split: prod.splits option.splits if_splits)

lemma discovery_ok_fold: "discovery_ok st \<Longrightarrow> discovery_ok (fold (discover_file f main_dir d) rels st)"
  by (induction rels arbitrary: st) (auto intro: discovery_ok_file)

lemma discover_dirs_ok:
  "discovery_ok st \<Longrightarrow>
   case discover_dirs f main_dir recursive rmap ds st of
     Inl e \<Rightarrow> \<exists>d. e = DirectoryPermissionError d \<and> \<not> fs_readable f d
   | Inr st' \<Rightarrow> discovery_ok st'"
proof (induction f main_dir recursive rmap ds st rule: discover_dirs.induct)
  case (2 f main_dir recursive rmap d rd ds st)
  then show ?case by (auto simp: Let_def discovery_ok_fold)
qed simp

lemma catalog_five:
  assumes "dkeys c = catalog_keys"
  obtains a b r d e where "c = [(SQL, a), (UNDO_SQL, b), (REPEATABLE, r), (BASELINE, d), (CALLBACK, e)]"
proof -
  from assms have "map fst c = [SQL, UNDO_SQL, REPEATABLE, BASELINE, CALLBACK]"
    by (simp add: dkeys_def catalog_keys_def)
  then show ?thesis using that by (auto simp: map_eq_Cons_conv)
qed

interpretation sql_order: comparator cmp_migration_sort
  by unfold_locales
    (auto simp: cmp_migration_sort_def opt_version_cmp.sign_swap dest: opt_version_cmp.le_trans)

lemma sort_catalog_spec:
  assumes "dkeys (ls_catalog st) = catalog_keys" and "dget_or (ls_catalog st) CALLBACK [] = []"
  shows "mset (catalog_list (sort_catalog st)) = mset (all_loaded st)"
    and "sorted_wrt (\<lambda>a b. compare_versions (version a) (version b) \<le> 0) (dget_or (sort_catalog st) SQL [])"
    and "sorted (map script_name_lower (dget_or (sort_catalog st) REPEATABLE []))"
    and "sorted (map script_name (dget_or (sort_catalog st) CALLBACK []))"
proof -
  obtain a b r d e where c: "ls_catalog st
      = [(SQL, a), (UNDO_SQL, b), (REPEATABLE, r), (BASELINE, d), (CALLBACK, e)]"
    using catalog_five [OF assms(1)] by blast
  with assms(2) have e: "e = []" by (simp add: dget_or_def dget_def)
  note sc = sort_catalog_def c Let_def dget_or_def dget_def
  have s: "sort_catalog st = [(SQL, sorted_by cmp_migration_sort a), (UNDO_SQL, b),
      (REPEATABLE, sorted_by (key_cmp script_name_lower) r), (BASELINE, d),
      (CALLBACK, e @ sorted_by (key_cmp script_name) (ls_callbacks st))]"
    by (simp add: sc)
  show "mset (catalog_list (sort_catalog st)) = mset (all_loaded st)"
    by (simp add: s catalog_list_def all_loaded_def c dget_or_def dget_def)
  show "sorted_wrt (\<lambda>a b. compare_versions (version a) (version b) \<le> 0) (dget_or (sort_catalog st) SQL [])"
    using sql_order.sorted_sorted_by [of a] by (simp add: s dget_or_def dget_def cmp_migration_sort_def)
  show "sorted (map script_name_lower (dget_or (sort_catalog st) REPEATABLE []))"
    using sorted_key [of script_name_lower r] by (simp add: s dget_or_def dget_def)
  show "sorted (map script_name (dget_or (sort_catalog st) CALLBACK []))"
    using sorted_key [of script_name "ls_callbacks st"] by (simp add: s e dget_or_def dget_def)
qed

lemma place_script_callbacks:
  assumes "place_script f ref p md st = Inr st'"
  shows "dget (ls_catalog st') CALLBACK = dget (ls_catalog st) CALLBACK"
proof (cases "load_migration_script f p (Some md)")
  case (Inl e)
  with assms show ?thesis by (cases e) (auto simp: place_script_def)
next
  case (Inr m)
  with assms show ?thesis by (auto simp: place_script_def split: if_splits option.splits)
qed

lemma load_one_callbacks:
  assumes "load_one f dir additional dv ref st = Inr st'"
  shows "dget (ls_catalog st') CALLBACK = dget (ls_catalog st) CALLBACK"
proof -
  let ?key = "ref_key f dir additional dv ref" and ?p = "script_path_of dir additional ref"
  let ?st1 = "st\<lparr>ls_seen := ls_seen st @ [?key]\<rparr>"
  define md where "md = (case dget dv ref of Some d \<Rightarrow> ds_metadata d
      | None \<Rightarrow> parse_migration_filename (path_name ?p))"
  define skip where "skip \<longleftrightarrow> fm_type md = BASELINE
      \<and> \<not> list_ex (\<lambda>prefix. starts_with (path_name ?p) prefix) CALLBACK_PREFIXES"
  have one: "load_one f dir additional dv ref st =
      (if ?key \<in> set (ls_seen st) then Inr st
       else if skip then Inr (?st1\<lparr>ls_excluded := ls_excluded ?st1 @ [ref]\<rparr>)
       else place_script f ref ?p md ?st1)"
    unfolding load_one_def Let_def skip_def md_def by (rule refl)
  show ?thesis
  proof (cases "?key \<in> set (ls_seen st) \<or> skip")
    case True
    with assms one show ?thesis by (auto split: if_splits)
  next
    case False
    with assms one have "place_script f ref ?p md ?st1 = Inr st'" by simp
    from place_script_callbacks [OF this] show ?thesis by simp
  qed
qed

lemma load_loop_callbacks:
  "load_loop f dir additional dv refs st = Inr st' \<Longrightarrow> dget (ls_catalog st) CALLBACK = Some [] \<Longrightarrow>
   dget (ls_catalog st') CALLBACK = Some []"
  by (induction refs arbitrary: st) (auto simp: load_one_callbacks)


subsection \<open>Warned once\<close>

definition near_miss :: "string \<Rightarrow> bool" where
  "near_miss name \<longleftrightarrow> callback_prefix_missing_separator name \<noteq> None \<or> looks_like_migration name"

lemma report_step:
  "report_callback_naming_violation name st =
     (if near_miss name \<and> name \<notin> set (reported st)
      then st\<lparr>reported := reported st @ [name], warnings := warnings st @ [name]\<rparr> else st)"
  by (auto simp: report_callback_naming_violation_def near_miss_def)

text \<open>
  However often a manager scans its directories, it warns about a rejected file exactly when its
  name is a near miss of the convention, and once for each name.
\<close>

theorem naming_violations_once:
  "warnings (fold report_callback_naming_violation names \<lparr>reported = [], warnings = []\<rparr>)
     = first_by id [] (filter near_miss names)"
proof -
  have "warnings (fold report_callback_naming_violation names \<lparr>reported = ws, warnings = ws\<rparr>)
      = ws @ first_by id ws (filter near_miss names)" for ws
  proof (induction names arbitrary: ws)
    case (Cons n names)
    then show ?case
      by (cases "near_miss n \<and> n \<notin> set ws") (auto simp: report_step)
  qed simp
  from this [of "[]"] show ?thesis by simp
qed

end
