(* ===== verification/RankWins.thy ===== *)
theory RankWins
  imports Migrations
begin

text \<open>
  \<^verbatim>\<open>state/rank_wins.py\<close> and \<^verbatim>\<open>rules/migration_rules.py\<close>: for each version the latest successful
  versioned row and the latest successful undo row, by \<open>installed_rank\<close>; the later one says whether
  the version is applied. On it rest the current version, the check of an undo, the next version to
  undo, and the widening of an undo to whole groups.
\<close>

subsection \<open>Ranks of a version\<close>

record version_rank_state =
  vr_versioned :: int
  vr_undo :: int

definition rank_state :: "int \<Rightarrow> int \<Rightarrow> version_rank_state" where
  "rank_state v u = \<lparr>vr_versioned = v, vr_undo = u\<rparr>"

definition currently_undone :: "version_rank_state \<Rightarrow> bool" where
  "currently_undone s \<longleftrightarrow> vr_undo s > vr_versioned s"

definition reapplied :: "version_rank_state \<Rightarrow> bool" where
  "reapplied s \<longleftrightarrow> vr_undo s > 0 \<and> vr_versioned s > vr_undo s"

definition installed_rank_of :: "migration \<Rightarrow> int" where
  "installed_rank_of row = (case installed_rank row of None \<Rightarrow> 0 | Some r \<Rightarrow> r)"

definition rank_step ::
  "migration \<Rightarrow> (string, int) dict \<times> (string, int) dict \<Rightarrow> (string, int) dict \<times> (string, int) dict" where
  "rank_step row st =
     (case st of (vs, us) \<Rightarrow>
        if \<not> has_version row \<or> \<not> succeeded row then (vs, us)
        else let key = version_str row; rank = installed_rank_of row in
          if mtype row = UNDO_SQL then (vs, dset us key (max (dget_or us key 0) rank))
          else if versioned row then (dset vs key (max (dget_or vs key 0) rank), us)
          else (vs, us))"

definition latest_successful_ranks :: "migration list \<Rightarrow> (string, version_rank_state) dict" where
  "latest_successful_ranks rows =
     (case fold rank_step rows ([], []) of (vs, us) \<Rightarrow>
        map (\<lambda>key. (key, rank_state (dget_or vs key 0) (dget_or us key 0)))
          (dkeys vs @ filter (\<lambda>k. k \<notin> set (dkeys vs)) (dkeys us)))"

subsection \<open>The current version\<close>

fun keep_highest :: "('a \<Rightarrow> 'a \<Rightarrow> int) \<Rightarrow> 'a \<Rightarrow> 'a option \<Rightarrow> 'a option" where
  "keep_highest cmp candidate None = Some candidate"
| "keep_highest cmp candidate (Some c) = (if cmp candidate c > 0 then Some candidate else Some c)"

definition undone_versions :: "migration list \<Rightarrow> string list" where
  "undone_versions history =
     map version_str (filter (\<lambda>row. has_version row \<and> mtype row = UNDO_SQL \<and> succeeded row) history)"

definition inactive_version :: "migration list \<Rightarrow> string \<Rightarrow> bool" where
  "inactive_version history v \<longleftrightarrow>
     v \<in> set (undone_versions history) \<and>
     \<not> reapplied (dget_or (latest_successful_ranks history) v (rank_state 0 0))"

definition active_row :: "migration list \<Rightarrow> migration \<Rightarrow> bool" where
  "active_row history row \<longleftrightarrow> has_version row \<and> succeeded row \<and>
     \<not> (mtype row \<noteq> BASELINE \<and>
        (type_name (mtype row) \<notin> set VERSIONED_SCRIPT_TYPES \<or> inactive_version history (version_str row)))"

definition effective_current_version ::
  "(string \<Rightarrow> string \<Rightarrow> int) \<Rightarrow> migration list \<Rightarrow> string option" where
  "effective_current_version cmp rows =
     fold (\<lambda>row current. if active_row rows row then keep_highest cmp (version_str row) current
                         else current) rows None"

subsection \<open>Rules\<close>

definition GROUP_TAG_PREFIX :: string where
  "GROUP_TAG_PREFIX = ''dblift-group-''"

definition group_tag_of :: "migration \<Rightarrow> string option" where
  "group_tag_of m = List.find (\<lambda>tag. starts_with tag GROUP_TAG_PREFIX) (tags m)"

definition is_currently_undone ::
  "string option \<Rightarrow> migration list \<Rightarrow> (string, version_rank_state) dict option \<Rightarrow> bool" where
  "is_currently_undone ver applied version_ranks =
     (case ver of None \<Rightarrow> False
      | Some v \<Rightarrow>
          if v = [] then False
          else let ranks = (case version_ranks of None \<Rightarrow> latest_successful_ranks applied | Some r \<Rightarrow> r)
               in (case dget ranks v of None \<Rightarrow> False | Some s \<Rightarrow> currently_undone s))"

fun undo_candidates :: "string option \<Rightarrow> string list \<Rightarrow> migration list \<Rightarrow> string list" where
  "undo_candidates ver seen [] = []"
| "undo_candidates ver seen (m # ms) =
     (if \<not> versioned m \<or> \<not> succeeded m then undo_candidates ver seen ms
      else case version m of
        None \<Rightarrow> undo_candidates ver seen ms
      | Some v \<Rightarrow>
          if Some v = ver \<or> v \<in> set seen then undo_candidates ver seen ms
          else v # undo_candidates ver (v # seen) ms)"

definition next_version_to_undo ::
  "string option \<Rightarrow> migration list \<Rightarrow> (string, version_rank_state) dict option \<Rightarrow> string option" where
  "next_version_to_undo ver applied version_ranks =
     List.find (\<lambda>candidate. \<not> is_currently_undone (Some candidate) applied version_ranks)
       (sorted_by_desc vcmp (undo_candidates ver [] applied))"

text \<open>The message is empty when the version can be undone; it names the next version when there is one
  (\<open>if next_version_to_undo\<close>: neither \<open>None\<close> nor the empty text).\<close>

definition already_undone :: "string \<Rightarrow> string option \<Rightarrow> string" where
  "already_undone ver nxt =
     ''Version '' @ ver @ '' has already been undone'' @
     (case nxt of
        Some (c # cs) \<Rightarrow> ''. Please specify version '' @ (c # cs) @ '' to undo it.''
      | _ \<Rightarrow> '' and no other versions are available to undo.'')"

definition should_undo_version ::
  "string \<Rightarrow> migration list \<Rightarrow> (string, version_rank_state) dict option \<Rightarrow> bool \<times> string" where
  "should_undo_version ver applied version_ranks =
     (if applied = [] then (True, [])
      else let ranks = Some (case version_ranks of None \<Rightarrow> latest_successful_ranks applied | Some r \<Rightarrow> r)
      in if \<not> is_currently_undone (Some ver) applied ranks then (True, [])
         else (False, already_undone ver (next_version_to_undo (Some ver) applied ranks)))"

fun pull_group ::
  "(string \<Rightarrow> bool) \<Rightarrow> string option list \<Rightarrow> migration list \<Rightarrow> (string, migration) dict \<Rightarrow> migration list
   \<Rightarrow> (string, migration) dict \<times> migration list" where
  "pull_group undone seed_tags [] by_version added = (by_version, added)"
| "pull_group undone seed_tags (m # ms) by_version added =
     (if group_tag_of m \<notin> set seed_tags then pull_group undone seed_tags ms by_version added
      else if dget by_version (version_str m) \<noteq> None then pull_group undone seed_tags ms by_version added
      else if undone (version_str m) then pull_group undone seed_tags ms by_version added
      else pull_group undone seed_tags ms (dset by_version (version_str m) m) (added @ [m]))"

definition version_order :: "migration \<Rightarrow> migration \<Rightarrow> int" where
  "version_order a b = vcmp (version_str a) (version_str b)"

definition expand_undo_set_to_groups ::
  "migration list \<Rightarrow> migration list \<Rightarrow> migration list \<Rightarrow> (string, version_rank_state) dict
   \<Rightarrow> migration list \<times> migration list" where
  "expand_undo_set_to_groups seeds pool applied version_ranks =
     (let seed_tags = filter (\<lambda>t. t \<noteq> None) (map group_tag_of seeds) in
      if seed_tags = [] then (seeds, [])
      else let by_version = foldl (\<lambda>d m. dset d (version_str m) m) [] seeds;
               (by_version', added) = pull_group
                 (\<lambda>v. is_currently_undone (Some v) applied (Some version_ranks)) seed_tags pool
                 by_version []
           in (sorted_by_desc version_order (map snd by_version'), added))"

interpretation migration_version_cmp: comparator version_order
  by unfold_locales
    (auto simp: version_order_def version_cmp.sign_swap dest: version_cmp.le_trans)

subsection \<open>What the ranks are\<close>

definition applies_row :: "string \<Rightarrow> migration \<Rightarrow> bool" where
  "applies_row v row \<longleftrightarrow> has_version row \<and> succeeded row \<and> version_str row = v \<and> versioned row"

definition undoes_row :: "string \<Rightarrow> migration \<Rightarrow> bool" where
  "undoes_row v row \<longleftrightarrow> has_version row \<and> succeeded row \<and> version_str row = v \<and> mtype row = UNDO_SQL"

definition latest_rank :: "(migration \<Rightarrow> bool) \<Rightarrow> migration list \<Rightarrow> int" where
  "latest_rank P rows = Max (insert 0 (installed_rank_of ` set (filter P rows)))"

lemma latest_rank_fold: "latest_rank P rows = fold max (map installed_rank_of (filter P rows)) 0"
  unfolding latest_rank_def using Max.set_eq_fold [of "0::int" "map installed_rank_of (filter P rows)"]
  by simp

lemma latest_rank_Nil [simp]: "latest_rank P [] = 0"
  by (simp add: latest_rank_def)

lemma latest_rank_append [simp]:
  "latest_rank P (rows @ [r]) = (if P r then max (installed_rank_of r) (latest_rank P rows) else latest_rank P rows)"
  by (simp add: latest_rank_fold)

lemma latest_rank_nonneg: "0 \<le> latest_rank P rows"
  by (simp add: latest_rank_def)

lemma latest_rank_none: "filter P rows = [] \<Longrightarrow> latest_rank P rows = 0"
  by (simp add: latest_rank_def)

lemma latest_rank_mem: "r \<in> set rows \<Longrightarrow> P r \<Longrightarrow> installed_rank_of r \<le> latest_rank P rows"
  by (simp add: latest_rank_def)

lemma latest_rank_less:
  "(\<And>r. r \<in> set rows \<Longrightarrow> installed_rank_of r < n) \<Longrightarrow> 0 < n \<Longrightarrow> latest_rank P rows < n"
  by (auto simp: latest_rank_def)

lemma fold_rank_step:
  assumes "fold rank_step rows ([], []) = (vs, us)"
  shows "dget vs k = (if filter (applies_row k) rows = [] then None
                      else Some (latest_rank (applies_row k) rows))
       \<and> dget us k = (if filter (undoes_row k) rows = [] then None
                      else Some (latest_rank (undoes_row k) rows))
       \<and> dict_wf vs \<and> dict_wf us"
  using assms
proof (induction rows arbitrary: vs us rule: rev_induct)
  case (snoc r rows)
  obtain vs0 us0 where f: "fold rank_step rows ([], []) = (vs0, us0)" by fastforce
  with snoc.prems have st: "rank_step r (vs0, us0) = (vs, us)" by simp
  have or: "dget_or vs0 k 0 = latest_rank (applies_row k) rows"
      "dget_or us0 k 0 = latest_rank (undoes_row k) rows"
    using snoc.IH [OF f] by (auto simp: dget_or_def latest_rank_none)
  have excl: "\<not> (applies_row v r \<and> undoes_row v r)" for v
    by (auto simp: applies_row_def undoes_row_def)
  consider (a) "applies_row (version_str r) r" | (u) "undoes_row (version_str r) r"
    | (n) "\<not> applies_row (version_str r) r" "\<not> undoes_row (version_str r) r" by blast
  then show ?case
  proof cases
    case a
    then have "vs = dset vs0 (version_str r) (max (dget_or vs0 (version_str r) 0) (installed_rank_of r))"
      "us = us0" "\<not> undoes_row v r" "applies_row v r \<longleftrightarrow> version_str r = v" for v
      using st by (auto simp: rank_step_def applies_row_def undoes_row_def Let_def)
    then show ?thesis using snoc.IH [OF f] or by (auto simp: max.commute)
  next
    case u
    then have "us = dset us0 (version_str r) (max (dget_or us0 (version_str r) 0) (installed_rank_of r))"
      "vs = vs0" "\<not> applies_row v r" "undoes_row v r \<longleftrightarrow> version_str r = v" for v
      using st by (auto simp: rank_step_def applies_row_def undoes_row_def Let_def)
    then show ?thesis using snoc.IH [OF f] or by (auto simp: max.commute)
  next
    case n
    then have "vs = vs0" "us = us0" "\<not> applies_row v r" "\<not> undoes_row v r" for v
      using st by (auto simp: rank_step_def applies_row_def undoes_row_def Let_def split: if_splits)
    then show ?thesis using snoc.IH [OF f] by simp
  qed
qed auto

lemma map_of_keyed: "map_of (map (\<lambda>k. (k, f k)) ks) k = (if k \<in> set ks then Some (f k) else None)"
  by (induction ks) auto

lemma dget_latest_ranks:
  "dget (latest_successful_ranks rows) v =
     (if filter (applies_row v) rows = [] \<and> filter (undoes_row v) rows = [] then None
      else Some (rank_state (latest_rank (applies_row v) rows) (latest_rank (undoes_row v) rows)))"
proof -
  obtain vs us where f: "fold rank_step rows ([], []) = (vs, us)" by fastforce
  note spec = fold_rank_step [OF f, of v]
  have "v \<in> set (dkeys vs) \<longleftrightarrow> filter (applies_row v) rows \<noteq> []"
    and "v \<in> set (dkeys us) \<longleftrightarrow> filter (undoes_row v) rows \<noteq> []"
    using spec dget_None_iff [of vs v] dget_None_iff [of us v] by (auto split: if_splits)
  moreover have "dget_or vs v 0 = latest_rank (applies_row v) rows"
    and "dget_or us v 0 = latest_rank (undoes_row v) rows"
    using spec by (auto simp: dget_or_def latest_rank_none)
  ultimately show ?thesis
    by (simp add: latest_successful_ranks_def f dget_def map_of_keyed del: map_append map_of_append)
qed

text \<open>
  C7. For every version, the ranks reported are the largest rank of its successful versioned rows and
  the largest rank of its successful undo rows (0 where there is none); a version with neither is not
  reported. Failed rows, rows of other types and the order of the rows do not matter.
\<close>

theorem latest_successful_ranks_spec:
  "dget (latest_successful_ranks rows) v =
     (if list_ex (\<lambda>r. applies_row v r \<or> undoes_row v r) rows
      then Some \<lparr>vr_versioned = Max (insert 0 (installed_rank_of ` {r \<in> set rows. applies_row v r})),
                 vr_undo = Max (insert 0 (installed_rank_of ` {r \<in> set rows. undoes_row v r}))\<rparr>
      else None)"
proof -
  have "list_ex (\<lambda>r. applies_row v r \<or> undoes_row v r) rows
      \<longleftrightarrow> \<not> (filter (applies_row v) rows = [] \<and> filter (undoes_row v) rows = [])"
    by (auto simp: list_ex_iff filter_empty_conv)
  then show ?thesis
    by (simp add: dget_latest_ranks rank_state_def latest_rank_def)
qed

lemma is_currently_undone_iff:
  "is_currently_undone (Some v) rows None \<longleftrightarrow>
     v \<noteq> [] \<and> latest_rank (applies_row v) rows < latest_rank (undoes_row v) rows"
  by (auto simp: is_currently_undone_def dget_latest_ranks currently_undone_def rank_state_def
      latest_rank_none)

lemma is_currently_undone_ranks [simp]:
  "is_currently_undone v rows (Some (latest_successful_ranks rows)) = is_currently_undone v rows None"
  by (simp add: is_currently_undone_def split: option.split)

lemma inactive_version_iff:
  "inactive_version rows v \<longleftrightarrow> filter (undoes_row v) rows \<noteq> [] \<and>
     \<not> (0 < latest_rank (undoes_row v) rows
         \<and> latest_rank (undoes_row v) rows < latest_rank (applies_row v) rows)"
proof -
  have "v \<in> set (undone_versions rows) \<longleftrightarrow> filter (undoes_row v) rows \<noteq> []"
    by (auto simp: undone_versions_def undoes_row_def filter_empty_conv)
  then show ?thesis
    by (auto simp: inactive_version_def dget_or_def dget_latest_ranks reapplied_def rank_state_def)
qed

text \<open>An undo recorded without a usable rank is never superseded: no later row of the version, whatever
  its rank, makes it active again.\<close>

lemma unranked_undo_stays:
  "list_ex (undoes_row v) rows \<Longrightarrow> list_all (\<lambda>r. undoes_row v r \<longrightarrow> installed_rank_of r \<le> 0) rows \<Longrightarrow>
   inactive_version rows v"
proof -
  assume u: "list_ex (undoes_row v) rows"
    and z: "list_all (\<lambda>r. undoes_row v r \<longrightarrow> installed_rank_of r \<le> 0) rows"
  then have "filter (undoes_row v) rows \<noteq> []" by (auto simp: list_ex_iff filter_empty_conv)
  moreover have "latest_rank (undoes_row v) rows \<le> 0"
    using z by (auto simp: latest_rank_def list_all_iff)
  ultimately show ?thesis by (simp add: inactive_version_iff)
qed

text \<open>
  C8. On a history whose ranks grow, undoing a version makes it undone and inactive, whatever came
  before, and applying it again makes it applied and active: the latest of the two decides.
\<close>

theorem undo_then_reapply:
  assumes "list_all (\<lambda>r. installed_rank_of r < installed_rank_of u) rows"
    and "0 < installed_rank_of u" and "installed_rank_of u < installed_rank_of m"
    and "undoes_row v u" and "applies_row v m"
  shows "is_currently_undone (Some v) (rows @ [u]) None
       \<and> inactive_version (rows @ [u]) v
       \<and> \<not> is_currently_undone (Some v) (rows @ [u, m]) None
       \<and> \<not> inactive_version (rows @ [u, m]) v"
proof -
  have less: "latest_rank P rows < installed_rank_of u" for P
    using assms(1,2) by (intro latest_rank_less) (simp_all add: list_all_iff)
  have "v \<noteq> []" "\<not> applies_row v u" "\<not> undoes_row v m"
    using assms(4,5) by (auto simp: applies_row_def undoes_row_def has_version_cases)
  moreover have "latest_rank P (rows @ [u, m]) = latest_rank P ((rows @ [u]) @ [m])" for P by simp
  ultimately show ?thesis
    using assms(2-5) less [of "applies_row v"] less [of "undoes_row v"]
    by (simp add: is_currently_undone_iff inactive_version_iff del: append_assoc)
qed

definition sample_row :: "migration_type \<Rightarrow> string \<Rightarrow> string \<Rightarrow> int \<Rightarrow> migration" where
  "sample_row t v name rank =
     \<lparr>script_name = name, version = (if v = [] then None else Some v), description = ''d'', mtype = t,
      tags = [], checksum = Some 7, content = [], path = None, format = FSQL, success = VBool True,
      status = ''SUCCESS'', execution_time = Some 1, installed_on = None, installed_by = None,
      installed_rank = Some rank, error_message = None, resolved = False\<rparr>"

lemma undo_then_reapply_witness:
  "is_currently_undone (Some ''1'')
     ([sample_row SQL ''1'' ''V1__a.sql'' 1] @ [sample_row UNDO_SQL ''1'' ''U1__a.sql'' 2]) None"
proof -
  have "list_all (\<lambda>r. installed_rank_of r < installed_rank_of (sample_row UNDO_SQL ''1'' ''U1__a.sql'' 2))
          [sample_row SQL ''1'' ''V1__a.sql'' 1]"
    "0 < installed_rank_of (sample_row UNDO_SQL ''1'' ''U1__a.sql'' 2)"
    "installed_rank_of (sample_row UNDO_SQL ''1'' ''U1__a.sql'' 2)
       < installed_rank_of (sample_row SQL ''1'' ''V1__a.sql'' 3)"
    "undoes_row ''1'' (sample_row UNDO_SQL ''1'' ''U1__a.sql'' 2)"
    "applies_row ''1'' (sample_row SQL ''1'' ''V1__a.sql'' 3)"
    by code_simp+
  from undo_then_reapply [OF this] show ?thesis by simp
qed

subsection \<open>The current version is the highest active one\<close>

context comparator
begin

lemma fold_keep_highest_Some:
  "fold (keep_highest cmp) xs (Some c) = Some m \<Longrightarrow>
     m \<in> insert c (set xs) \<and> cmp c m \<le> 0 \<and> (\<forall>x \<in> set xs. cmp x m \<le> 0)"
proof (induction xs arbitrary: c)
  case (Cons x xs)
  show ?case
  proof (cases "cmp x c > 0")
    case True
    with Cons.prems have "fold (keep_highest cmp) xs (Some x) = Some m"
      by simp
    from Cons.IH [OF this] True show ?thesis
      using le_trans [of c x m] sign_swap [of c x] by auto
  next
    case False
    with Cons.prems have "fold (keep_highest cmp) xs (Some c) = Some m"
      by simp
    from Cons.IH [OF this] False show ?thesis
      using le_trans [of x c m] by auto
  qed
qed simp

lemma fold_keep_highest_not_None: "fold (keep_highest cmp) xs (Some c) \<noteq> None"
  by (induction xs arbitrary: c) auto

lemma fold_keep_highest:
  "case fold (keep_highest cmp) xs None of None \<Rightarrow> xs = []
   | Some m \<Rightarrow> m \<in> set xs \<and> (\<forall>x \<in> set xs. cmp x m \<le> 0)"
proof (cases xs)
  case (Cons x ys)
  then have f: "fold (keep_highest cmp) xs None = fold (keep_highest cmp) ys (Some x)"
    by simp
  obtain m where "fold (keep_highest cmp) ys (Some x) = Some m"
    using fold_keep_highest_not_None [of ys x] by blast
  with fold_keep_highest_Some [OF this] Cons f show ?thesis by simp
qed simp

end

lemma effective_current_version_fold:
  "effective_current_version cmp rows
     = fold (keep_highest cmp) (map version_str (filter (active_row rows) rows)) None"
proof -
  have "fold (\<lambda>row current. if P row then keep_highest cmp (version_str row) current else current) xs c
      = fold (keep_highest cmp) (map version_str (filter P xs)) c" for P xs c
    by (induction xs arbitrary: c) auto
  then show ?thesis by (simp add: effective_current_version_def)
qed


subsection \<open>Undoing one version\<close>

context comparator
begin

lemma find_sorted_desc:
  assumes "sorted_wrt (\<lambda>a b. cmp b a \<le> 0) xs"
  shows "case List.find P xs of None \<Rightarrow> filter P xs = []
         | Some w \<Rightarrow> w \<in> set xs \<and> P w \<and> (\<forall>x \<in> set (filter P xs). cmp x w \<le> 0)"
  using assms
proof (induction xs)
  case (Cons x xs)
  then show ?case by (cases "P x") (auto split: option.splits)
qed simp

end

lemma set_undo_candidates:
  "set (undo_candidates ver seen ms)
     = {w. \<exists>m \<in> set ms. versioned m \<and> succeeded m \<and> version m = Some w \<and> Some w \<noteq> ver \<and> w \<notin> set seen}"
proof (induction ver seen ms rule: undo_candidates.induct)
  case (2 ver seen m ms)
  show ?case
  proof (cases "\<not> versioned m \<or> \<not> succeeded m")
    case True
    with 2(1) show ?thesis by auto
  next
    case False
    then show ?thesis
    proof (cases "version m")
      case None
      with False 2(2) show ?thesis by auto
    next
      case (Some v)
      show ?thesis
      proof (cases "Some v = ver \<or> v \<in> set seen")
        case True
        with False Some 2(3) show ?thesis by auto
      next
        case nf: False
        with False Some 2(4) show ?thesis by auto
      qed
    qed
  qed
qed simp

definition other_applied :: "string \<Rightarrow> migration list \<Rightarrow> string list" where
  "other_applied v rows =
     filter (\<lambda>w. w \<noteq> v \<and> \<not> is_currently_undone (Some w) rows None)
       (map version_str (filter (\<lambda>m. versioned m \<and> succeeded m \<and> version m \<noteq> None) rows))"

lemma next_version_to_undo_highest:
  "case next_version_to_undo (Some v) rows None of
     None \<Rightarrow> other_applied v rows = []
   | Some w \<Rightarrow> w \<in> set (other_applied v rows) \<and> list_all (\<lambda>x. vcmp x w \<le> 0) (other_applied v rows)"
proof -
  let ?P = "\<lambda>w. \<not> is_currently_undone (Some w) rows None"
  have "w \<in> set (undo_candidates (Some v) [] rows) \<and> ?P w \<longleftrightarrow> w \<in> set (other_applied v rows)" for w
    by (force simp: other_applied_def set_undo_candidates version_str_def)
  then have "set (filter ?P (sorted_by_desc vcmp (undo_candidates (Some v) [] rows)))
      = set (other_applied v rows)"
    by auto
  moreover from this have "filter ?P (sorted_by_desc vcmp (undo_candidates (Some v) [] rows)) = []
      \<longleftrightarrow> other_applied v rows = []"
    by (metis set_empty)
  ultimately show ?thesis
    using version_cmp.find_sorted_desc [OF version_cmp.sorted_sorted_by_desc, of ?P
        "undo_candidates (Some v) [] rows"]
    unfolding next_version_to_undo_def list_all_iff
    by (auto split: option.splits)
qed

text \<open>
  C10. Undoing a version is refused exactly when its latest successful undo outranks its latest
  successful row, and a refusal always says why. The version proposed instead is the highest other
  version that is applied and not undone; none is proposed exactly when there is none.
\<close>

theorem should_undo_version_spec:
  "(fst (should_undo_version v rows None) \<longleftrightarrow>
      \<not> (v \<noteq> [] \<and> latest_rank (applies_row v) rows < latest_rank (undoes_row v) rows))
   \<and> (snd (should_undo_version v rows None) = [] \<longleftrightarrow> fst (should_undo_version v rows None))
   \<and> (case next_version_to_undo (Some v) rows None of
        None \<Rightarrow> other_applied v rows = []
      | Some w \<Rightarrow> w \<in> set (other_applied v rows) \<and> list_all (\<lambda>x. vcmp x w \<le> 0) (other_applied v rows))"
proof -
  have "already_undone v w \<noteq> []" for w by (simp add: already_undone_def)
  then show ?thesis
    using next_version_to_undo_highest [of v rows]
    by (cases rows) (simp_all add: should_undo_version_def Let_def is_currently_undone_iff)
qed

subsection \<open>Undoing whole groups\<close>

definition keyed_by_version :: "(string, migration) dict \<Rightarrow> bool" where
  "keyed_by_version d \<longleftrightarrow> dict_wf d \<and> list_all (\<lambda>(k, m). k = version_str m) d"

lemma keyed_Nil [simp]: "keyed_by_version []"
  by (simp add: keyed_by_version_def)

lemma keyed_dset [simp]: "keyed_by_version d \<Longrightarrow> keyed_by_version (dset d (version_str m) m)"
proof -
  have "list_all (\<lambda>(k, m). k = version_str m) d \<Longrightarrow>
      list_all (\<lambda>(k, m). k = version_str m) (dset d (version_str m) m)"
    by (induction d "version_str m" m rule: dset.induct) auto
  then show "keyed_by_version d \<Longrightarrow> ?thesis" by (simp add: keyed_by_version_def)
qed

lemma keyed_keys: "keyed_by_version d \<Longrightarrow> dkeys d = map version_str (map snd d)"
  by (induction d) (auto simp: keyed_by_version_def dkeys_def dict_wf_def)

lemma keyed_distinct: "keyed_by_version d \<Longrightarrow> distinct (map version_str (map snd d))"
  by (metis keyed_keys keyed_by_version_def dict_wf_def)

lemma snd_dset: "snd ` set (dset d k v) \<subseteq> insert v (snd ` set d)"
  by (induction d k v rule: dset.induct) auto

lemma seed_dict:
  assumes "keyed_by_version d"
  shows "keyed_by_version (foldl (\<lambda>d m. dset d (version_str m) m) d seeds)
    \<and> set (dkeys (foldl (\<lambda>d m. dset d (version_str m) m) d seeds)) = set (dkeys d) \<union> version_str ` set seeds
    \<and> snd ` set (foldl (\<lambda>d m. dset d (version_str m) m) d seeds) \<subseteq> snd ` set d \<union> set seeds"
  using assms
proof (induction seeds arbitrary: d)
  case (Cons m seeds)
  have "keyed_by_version (dset d (version_str m) m)" using Cons.prems by simp
  from Cons.IH [OF this] have "snd ` set (foldl (\<lambda>d m. dset d (version_str m) m) (dset d (version_str m) m) seeds)
      \<subseteq> snd ` set (dset d (version_str m) m) \<union> set seeds" by blast
  also have "\<dots> \<subseteq> snd ` set d \<union> set (m # seeds)"
    using snd_dset [of d "version_str m" m] by auto
  finally show ?case using Cons.IH [of "dset d (version_str m) m"] Cons.prems by simp
qed simp

lemma pull_group_spec:
  assumes "pull_group undone ts pool d added = (d', added')" and "keyed_by_version d"
  shows "\<exists>new. added' = added @ new \<and> keyed_by_version d'
      \<and> set (dkeys d') = set (dkeys d) \<union> version_str ` set new
      \<and> snd ` set d' \<subseteq> snd ` set d \<union> set new
      \<and> (\<forall>m \<in> set new. m \<in> set pool \<and> group_tag_of m \<in> set ts \<and> \<not> undone (version_str m)
            \<and> version_str m \<notin> set (dkeys d))
      \<and> version_str ` {m \<in> set pool. group_tag_of m \<in> set ts \<and> \<not> undone (version_str m)} \<subseteq> set (dkeys d')"
  using assms
proof (induction pool arbitrary: d added)
  case (Cons m pool)
  show ?case
  proof (cases "group_tag_of m \<in> set ts \<and> dget d (version_str m) = None \<and> \<not> undone (version_str m)")
    case True
    let ?d = "dset d (version_str m) m"
    from True Cons.prems have p: "pull_group undone ts pool ?d (added @ [m]) = (d', added')"
      and k: "keyed_by_version ?d" by simp_all
    obtain new where new: "added' = (added @ [m]) @ new" "keyed_by_version d'"
        "set (dkeys d') = set (dkeys ?d) \<union> version_str ` set new"
        "snd ` set d' \<subseteq> snd ` set ?d \<union> set new"
        "\<forall>m \<in> set new. m \<in> set pool \<and> group_tag_of m \<in> set ts \<and> \<not> undone (version_str m)
            \<and> version_str m \<notin> set (dkeys ?d)"
        "version_str ` {m \<in> set pool. group_tag_of m \<in> set ts \<and> \<not> undone (version_str m)} \<subseteq> set (dkeys d')"
      using Cons.IH [OF p k] by blast
    have "snd ` set d' \<subseteq> snd ` set d \<union> set (m # new)"
      using new(4) snd_dset [of d "version_str m" m] by auto
    with new True show ?thesis
      by (intro exI [of _ "m # new"]) (auto simp: dget_None_iff)
  next
    case False
    with Cons.prems have p: "pull_group undone ts pool d added = (d', added')"
      by (auto split: if_splits)
    obtain new where new: "added' = added @ new" "keyed_by_version d'"
        "set (dkeys d') = set (dkeys d) \<union> version_str ` set new"
        "snd ` set d' \<subseteq> snd ` set d \<union> set new"
        "\<forall>m \<in> set new. m \<in> set pool \<and> group_tag_of m \<in> set ts \<and> \<not> undone (version_str m)
            \<and> version_str m \<notin> set (dkeys d)"
        "version_str ` {m \<in> set pool. group_tag_of m \<in> set ts \<and> \<not> undone (version_str m)} \<subseteq> set (dkeys d')"
      using Cons.IH [OF p Cons.prems(2)] by blast
    then show ?thesis
      using False by (intro exI [of _ new]) (auto simp: dget_None_iff)
  qed
qed auto

text \<open>
  C11. Widening an undo to groups: when no seed has a group tag nothing changes; otherwise the result
  holds each version once, highest first, covers every seed and every migration of the pool that
  shares a seed's group and is still applied, and what was added is exactly of that kind.
\<close>

theorem expand_undo_set_to_groups_spec:
  "case expand_undo_set_to_groups seeds pool applied ranks of (full, added) \<Rightarrow>
     if list_all (\<lambda>m. group_tag_of m = None) seeds then full = seeds \<and> added = []
     else sorted_wrt (\<lambda>a b. vcmp (version_str b) (version_str a) \<le> 0) full
       \<and> distinct (map version_str full) \<and> set full \<subseteq> set seeds \<union> set added
       \<and> version_str ` set full = version_str ` (set seeds \<union> set added)
       \<and> version_str ` {m \<in> set pool. group_tag_of m \<in> group_tag_of ` set seeds - {None}
             \<and> \<not> is_currently_undone (Some (version_str m)) applied (Some ranks)}
           \<subseteq> version_str ` set full
       \<and> list_all (\<lambda>m. m \<in> set pool \<and> group_tag_of m \<in> group_tag_of ` set seeds - {None}
             \<and> \<not> is_currently_undone (Some (version_str m)) applied (Some ranks)
             \<and> version_str m \<notin> version_str ` set seeds) added"
proof (cases "list_all (\<lambda>m. group_tag_of m = None) seeds")
  case True
  then have "filter (\<lambda>t. t \<noteq> None) (map group_tag_of seeds) = []"
    by (auto simp: filter_empty_conv list_all_iff)
  with True show ?thesis by (simp add: expand_undo_set_to_groups_def)
next
  case False
  let ?ts = "filter (\<lambda>t. t \<noteq> None) (map group_tag_of seeds)"
  let ?u = "\<lambda>v. is_currently_undone (Some v) applied (Some ranks)"
  let ?d = "foldl (\<lambda>d m. dset d (version_str m) m) [] seeds"
  have ts: "?ts \<noteq> []" using False by (auto simp: filter_empty_conv list_all_iff)
  have tag: "set ?ts = group_tag_of ` set seeds - {None}" by auto
  obtain d' added where p: "pull_group ?u ?ts pool ?d [] = (d', added)" by fastforce
  have sd: "keyed_by_version ?d" "set (dkeys ?d) = version_str ` set seeds" "snd ` set ?d \<subseteq> set seeds"
    using seed_dict [of "[]" seeds] by (simp_all add: dkeys_def)
  note spec = pull_group_spec [OF p sd(1), simplified, unfolded sd(2)]
  let ?full = "sorted_by_desc version_order (map snd d')"
  have keys: "version_str ` snd ` set d' = set (dkeys d')" "distinct (map version_str (map snd d'))"
    using spec keyed_keys [of d'] keyed_distinct [of d'] by (simp_all add: image_image)
  have "mset (map version_str ?full) = mset (map version_str (map snd d'))"
    by (simp only: mset_map mset_sorted_by_desc)
  then have dist: "distinct (map version_str ?full)"
    using keys(2) by (metis mset_eq_imp_distinct_iff)
  have "expand_undo_set_to_groups seeds pool applied ranks = (?full, added)"
    using ts p by (simp add: expand_undo_set_to_groups_def Let_def)
  moreover have "sorted_wrt (\<lambda>a b. vcmp (version_str b) (version_str a) \<le> 0) ?full"
    using migration_version_cmp.sorted_sorted_by_desc [of "map snd d'"] by (simp add: version_order_def)
  moreover have "set ?full \<subseteq> set seeds \<union> set added"
  proof -
    have "snd ` set d' \<subseteq> snd ` set ?d \<union> set added" using spec by blast
    with sd(3) have "snd ` set d' \<subseteq> set seeds \<union> set added" by blast
    then show ?thesis by (simp only: set_sorted_by_desc list.set_map)
  qed
  moreover have "version_str ` set ?full = version_str ` (set seeds \<union> set added)"
    using keys(1) spec by (simp add: image_Un)
  moreover have "list_all (\<lambda>m. m \<in> set pool \<and> group_tag_of m \<in> set ?ts \<and> \<not> ?u (version_str m)
      \<and> version_str m \<notin> version_str ` set seeds) added"
    using spec unfolding list_all_iff tag by simp
  moreover have "version_str ` {m \<in> set pool. group_tag_of m \<in> set ?ts \<and> \<not> ?u (version_str m)}
      \<subseteq> version_str ` set ?full"
  proof -
    have "version_str ` {m \<in> set pool. group_tag_of m \<in> set ?ts \<and> \<not> ?u (version_str m)} \<subseteq> set (dkeys d')"
      using spec unfolding tag by (elim conjE) simp
    also have "\<dots> = version_str ` set ?full" using keys(1) by simp
    finally show ?thesis .
  qed
  ultimately show ?thesis using False dist unfolding tag by simp
qed

end
