(* ===== verification/ScriptStatus.thy ===== *)
theory ScriptStatus
  imports Scripts RankWins
begin

text \<open>
  The single rules the commands share: version and tag filters and baseline pruning
  (\<^verbatim>\<open>state/migration_selector.py\<close>), the strict-mode order (\<^verbatim>\<open>ordering.py\<close>), the status of a
  repeatable script (\<^verbatim>\<open>repeatable_status.py\<close>), missing scripts (\<^verbatim>\<open>missing_scripts.py\<close>) and checksum
  drift (\<^verbatim>\<open>checksum_drift.py\<close>).
\<close>

subsection \<open>Strict order\<close>

record out_of_order_entry =
  oo_migration :: migration
  oo_current_version :: string

definition out_of_order :: "migration list \<Rightarrow> string option \<Rightarrow> out_of_order_entry list" where
  "out_of_order pending current =
     (if \<not> truthy current then []
      else map (\<lambda>m. \<lparr>oo_migration = m, oo_current_version = the current\<rparr>)
             (filter (\<lambda>m. has_version m \<and> vcmp (version_str m) (the current) \<le> 0) pending))"

subsection \<open>Filters\<close>

datatype filter_value = FNone | FText string | FList "string list"

fun normalize_filter :: "filter_value \<Rightarrow> string list option" where
  "normalize_filter FNone = None"
| "normalize_filter (FText s) =
     Some (filter (\<lambda>p. p \<noteq> []) (map strip (split_on (\<lambda>c. c = CHR '','') s)))"
| "normalize_filter (FList xs) = Some (filter (\<lambda>p. p \<noteq> []) (map strip xs))"

definition normalized_tags :: "string list \<Rightarrow> string list" where
  "normalized_tags ts = map (\<lambda>t. str_lower (strip t)) (filter (\<lambda>t. strip t \<noteq> []) ts)"

definition given :: "string list option \<Rightarrow> bool" where
  "given xs \<longleftrightarrow> xs \<noteq> None \<and> xs \<noteq> Some []"

definition passes_filters ::
  "migration \<Rightarrow> string option \<Rightarrow> string list option \<Rightarrow> string list option \<Rightarrow> string list option
   \<Rightarrow> string list option \<Rightarrow> bool" where
  "passes_filters m target tgs exclude_tags vers exclude_versions =
     (if truthy target \<and> has_version m \<and> vcmp (version_str m) (the target) > 0 then False
      else if given vers \<and> has_version m \<and> version_str m \<notin> set (the vers) then False
      else if given exclude_versions \<and> has_version m \<and> version_str m \<in> set (the exclude_versions)
      then False
      else if given tgs \<and>
        (normalized_tags (tags m) = []
         \<or> \<not> list_ex (\<lambda>t. t \<in> set (normalized_tags (tags m))) (normalized_tags (the tgs)))
      then False
      else if given exclude_tags \<and> normalized_tags (tags m) \<noteq> []
        \<and> list_ex (\<lambda>t. t \<in> set (normalized_tags (tags m))) (normalized_tags (the exclude_tags))
      then False
      else True)"

definition select_migrations ::
  "migration list \<Rightarrow> string option \<Rightarrow> filter_value \<Rightarrow> filter_value \<Rightarrow> filter_value \<Rightarrow> filter_value
   \<Rightarrow> migration list" where
  "select_migrations ms target tgs exclude_tags vers exclude_versions =
     filter (\<lambda>m. passes_filters m target (normalize_filter tgs) (normalize_filter exclude_tags)
                  (normalize_filter vers) (normalize_filter exclude_versions)) ms"

text \<open>The loop over the baselines keeps the first of the highest ones.\<close>

definition highest_baseline :: "migration list \<Rightarrow> string option" where
  "highest_baseline ms =
     fold (\<lambda>m highest. if mtype m = BASELINE \<and> has_version m then keep_highest vcmp (version_str m) highest
                       else highest) ms None"

definition prune_baseline_migrations :: "migration list \<Rightarrow> migration list" where
  "prune_baseline_migrations ms =
     (case highest_baseline ms of
        None \<Rightarrow> ms
      | Some h \<Rightarrow> filter (\<lambda>m. type_name (mtype m) \<notin> set VERSIONED_SCRIPT_TYPES
                             \<or> compare_versions (version m) (Some h) > 0) ms)"

subsection \<open>Repeatable status\<close>

datatype repeatable_status = RNEW | RCHANGED | RUNCHANGED | RFAILED_CHANGED | RFAILED_UNCHANGED

definition PENDING_REPEATABLE_STATUSES :: "repeatable_status list" where
  "PENDING_REPEATABLE_STATUSES = [RNEW, RCHANGED, RFAILED_CHANGED]"

record repeatable_run =
  run_status :: repeatable_status
  run_stored :: "int option"
  run_current :: "int option"

definition repeatable_run :: "repeatable_status \<Rightarrow> int option \<Rightarrow> int option \<Rightarrow> repeatable_run" where
  "repeatable_run s a b = \<lparr>run_status = s, run_stored = a, run_current = b\<rparr>"

definition dappend :: "('k, 'v list) dict \<Rightarrow> 'k \<Rightarrow> 'v list \<Rightarrow> ('k, 'v list) dict" where
  "dappend d k vs = dset d k (dget_or d k [] @ vs)"

definition is_repeatable_row :: "migration \<Rightarrow> bool" where
  "is_repeatable_row row \<longleftrightarrow> mtype row = REPEATABLE \<and> success row \<noteq> VNone \<and> script_name row \<noteq> []"

definition repeatable_rows_by_name :: "migration list \<Rightarrow> (string, migration list) dict" where
  "repeatable_rows_by_name history =
     fold (\<lambda>row d. if is_repeatable_row row then dappend d (script_name row) [row] else d) history []"

definition rows_by_basename :: "(string, migration list) dict \<Rightarrow> (string, migration list) dict" where
  "rows_by_basename by_name = fold (\<lambda>(name, rows) d. dappend d (path_name name) rows) by_name []"

definition decide_run :: "migration \<Rightarrow> migration list \<Rightarrow> repeatable_run" where
  "decide_run script rows =
     (let current = norm_checksum (checksum script) in
      case rows of
        [] \<Rightarrow> repeatable_run RNEW None current
      | r # rs \<Rightarrow>
          let latest = max_by installed_rank_of r rs;
              stored = norm_checksum (checksum latest);
              s = (if \<not> succeeded latest
                   then (if current \<noteq> stored then RFAILED_CHANGED else RFAILED_UNCHANGED)
                   else if stored \<noteq> None \<and> current \<noteq> None \<and> stored \<noteq> current then RCHANGED
                   else RUNCHANGED)
          in repeatable_run s stored current)"

definition repeatable_runs :: "migration list \<Rightarrow> migration list \<Rightarrow> (string, repeatable_run) dict" where
  "repeatable_runs scripts history =
     (let by_name = repeatable_rows_by_name history;
          by_basename = rows_by_basename by_name
      in fold (\<lambda>script runs.
           if mtype script \<noteq> REPEATABLE then runs
           else let name = script_name script;
                    exact = dget_or by_name name [];
                    rows = (if exact \<noteq> [] then exact else dget_or by_basename (path_name name) [])
                in dset runs name (decide_run script rows)) scripts [])"

subsection \<open>Missing scripts\<close>

definition is_delete_marker :: "migration \<Rightarrow> bool" where
  "is_delete_marker row \<longleftrightarrow> mtype row = DELETE"

definition deleted_script_names :: "migration list \<Rightarrow> string list" where
  "deleted_script_names history = map script_name (filter is_delete_marker history)"

definition latest_by_script :: "migration list \<Rightarrow> (string, migration) dict" where
  "latest_by_script rows =
     fold (\<lambda>row d. if script_name row \<noteq> [] then dset (ddel d (script_name row)) (script_name row) row
                    else d) rows []"

definition present_names :: "migration list \<Rightarrow> string list" where
  "present_names scripts = concat (map (\<lambda>s. [script_name s, path_name (script_name s)]) scripts)"

definition missing_applied :: "migration list \<Rightarrow> migration list \<Rightarrow> migration list" where
  "missing_applied scripts history =
     (let present = present_names scripts;
          deleted = deleted_script_names history
      in map snd (filter (\<lambda>(name, row).
           mtype row \<noteq> BASELINE \<and> str_lower (version_str row) \<noteq> ''baseline''
           \<and> name \<notin> set deleted \<and> name \<notin> set present \<and> path_name name \<notin> set present)
         (latest_by_script (successful_non_delete_records history))))"

subsection \<open>Checksum drift\<close>

definition NO_CHECKSUM_TYPES :: "migration_type list" where
  "NO_CHECKSUM_TYPES = [UNKNOWN, DELETE, UNDO_SQL, BASELINE]"

record checksum_drift =
  cd_script_name :: string
  cd_applied :: "int option"
  cd_current :: "int option"
  cd_repeatable :: bool

definition scripts_by_name :: "migration list \<Rightarrow> (string, migration) dict" where
  "scripts_by_name scripts = foldl (\<lambda>d s. dsetdefault d (script_name s) s) [] scripts"

definition latest_successful :: "migration list \<Rightarrow> (string, migration) dict" where
  "latest_successful rows =
     foldl (\<lambda>d r. dset d (script_name r) r) [] (successful_non_delete_records rows)"

fun drift_loop ::
  "(string, migration) dict \<Rightarrow> (string, migration) dict \<Rightarrow> string list \<Rightarrow> migration list
   \<Rightarrow> checksum_drift list" where
  "drift_loop by_name latest seen [] = []"
| "drift_loop by_name latest seen (row # rows) =
     (let name = script_name row in
      if name = [] \<or> name \<in> set seen then drift_loop by_name latest seen rows
      else if mtype row \<in> set NO_CHECKSUM_TYPES then drift_loop by_name latest seen rows
      else
        let script = (case dget by_name name of Some s \<Rightarrow> Some s
                      | None \<Rightarrow> dget by_name (path_name name))
        in case (script, dget latest name) of
          (Some s, Some a) \<Rightarrow>
            let ac = norm_checksum (checksum a); cc = norm_checksum (checksum s);
                rest = drift_loop by_name latest (seen @ [name]) rows
            in if ac = None \<or> cc = None \<or> ac \<noteq> cc
               then \<lparr>cd_script_name = name, cd_applied = ac, cd_current = cc,
                     cd_repeatable = (mtype a = REPEATABLE)\<rparr> # rest
               else rest
        | _ \<Rightarrow> drift_loop by_name latest seen rows)"

definition find_checksum_drift :: "migration list \<Rightarrow> migration list \<Rightarrow> checksum_drift list" where
  "find_checksum_drift scripts applied =
     drift_loop (scripts_by_name scripts) (latest_successful applied) [] applied"

subsection \<open>What baseline pruning keeps\<close>

lemma fold_filtered:
  "fold (\<lambda>x acc. if P x then g (h x) acc else acc) xs a = fold g (map h (filter P xs)) a"
  by (induction xs arbitrary: a) auto

lemma fold_filtered_id: "fold (\<lambda>x acc. if P x then g x acc else acc) xs a = fold g (filter P xs) a"
  using fold_filtered [of P g "\<lambda>x. x" xs a] by simp

lemma highest_baseline_fold:
  "highest_baseline ms
     = fold (keep_highest vcmp) (map version_str (filter (\<lambda>m. mtype m = BASELINE \<and> has_version m) ms)) None"
  unfolding highest_baseline_def by (rule fold_filtered)

text \<open>
  C12. Pruning keeps, in their order, the scripts of every other kind and exactly the versioned
  scripts above every baseline that has a version; without such a baseline it keeps everything.
\<close>

theorem prune_baseline_migrations_spec:
  "prune_baseline_migrations ms =
     filter (\<lambda>m. if versioned m
       then list_all (\<lambda>b. compare_versions (version m) (version b) > 0)
              (filter (\<lambda>b. mtype b = BASELINE \<and> has_version b) ms)
       else True) ms"
proof -
  let ?bs = "filter (\<lambda>b. mtype b = BASELINE \<and> has_version b) ms"
  have bv: "b \<in> set ?bs \<Longrightarrow> version b = Some (version_str b)" for b
    by (auto simp: has_version_cases)
  note high = version_cmp.fold_keep_highest [of "map version_str ?bs"]
  show ?thesis
  proof (cases "highest_baseline ms")
    case None
    with high have "?bs = []" by (simp add: highest_baseline_fold)
    then show ?thesis by (simp add: prune_baseline_migrations_def None)
  next
    case (Some h)
    with high have h: "h \<in> set (map version_str ?bs)" "\<forall>x \<in> set (map version_str ?bs). vcmp x h \<le> 0"
      by (simp_all add: highest_baseline_fold)
    have "compare_versions v (Some h) > 0 \<longleftrightarrow> list_all (\<lambda>b. compare_versions v (version b) > 0) ?bs" for v
    proof
      assume a: "compare_versions v (Some h) > 0"
      have "compare_versions v (version b) > 0" if b: "b \<in> set ?bs" for b
      proof -
        have "compare_versions (version b) (Some h) \<le> 0"
          using h(2) b bv [OF b] by (auto simp: vcmp_def)
        with a show ?thesis
          using opt_version_cmp.le_trans [of v "version b" "Some h"] by linarith
      qed
      then show "list_all (\<lambda>b. compare_versions v (version b) > 0) ?bs" by (simp add: list_all_iff)
    next
      assume "list_all (\<lambda>b. compare_versions v (version b) > 0) ?bs"
      then have "\<forall>b \<in> set ?bs. compare_versions v (version b) > 0" by (simp only: list_all_iff)
      moreover obtain b where "b \<in> set ?bs" "h = version_str b" using h(1) by auto
      ultimately show "compare_versions v (Some h) > 0" using bv by metis
    qed
    then show ?thesis by (auto simp: prune_baseline_migrations_def Some intro!: filter_cong)
  qed
qed

subsection \<open>The latest run decides a repeatable script\<close>

lemma dget_or_dappend [simp]:
  "dget_or (dappend d k vs) k' [] = (if k' = k then dget_or d k [] @ vs else dget_or d k' [])"
  by (simp add: dappend_def)

lemma dict_wf_dappend [simp]: "dict_wf d \<Longrightarrow> dict_wf (dappend d k vs)"
  by (simp add: dappend_def)

lemma repeatable_rows_spec:
  "dict_wf (repeatable_rows_by_name history)
   \<and> dget_or (repeatable_rows_by_name history) n []
     = filter (\<lambda>r. is_repeatable_row r \<and> script_name r = n) history"
proof -
  have "dict_wf d \<Longrightarrow> dict_wf (fold (\<lambda>row d. if is_repeatable_row row then dappend d (script_name row) [row] else d) history d)
     \<and> dget_or (fold (\<lambda>row d. if is_repeatable_row row then dappend d (script_name row) [row] else d) history d) n []
       = dget_or d n [] @ filter (\<lambda>r. is_repeatable_row r \<and> script_name r = n) history" for d
    by (induction history arbitrary: d) auto
  from this [of "[]"] show ?thesis by (simp add: repeatable_rows_by_name_def)
qed

lemma rows_by_basename_spec:
  "dget_or (rows_by_basename by_name) b [] = concat (map snd (filter (\<lambda>(n, _). path_name n = b) by_name))"
proof -
  have "dget_or (fold (\<lambda>(name, rows) d. dappend d (path_name name) rows) by_name d) b []
      = dget_or d b [] @ concat (map snd (filter (\<lambda>(n, _). path_name n = b) by_name))" for d
    by (induction by_name arbitrary: d) auto
  from this [of "[]"] show ?thesis by (simp add: rows_by_basename_def)
qed

lemma set_rows_by_basename:
  "set (dget_or (rows_by_basename (repeatable_rows_by_name history)) b [])
     = {r \<in> set history. is_repeatable_row r \<and> path_name (script_name r) = b}"
proof -
  let ?d = "repeatable_rows_by_name history"
  have wf: "dict_wf ?d" using repeatable_rows_spec by blast
  have rows: "dget_or ?d n [] = filter (\<lambda>r. is_repeatable_row r \<and> script_name r = n) history" for n
    using repeatable_rows_spec by blast
  have mem: "(n, rs) \<in> set ?d \<Longrightarrow> rs = filter (\<lambda>r. is_repeatable_row r \<and> script_name r = n) history" for n rs
    using rows [of n] wf by (simp add: dict_wf_mem_iff dget_or_def)
  have key: "r \<in> set history \<Longrightarrow> is_repeatable_row r \<Longrightarrow> \<exists>rs. (script_name r, rs) \<in> set ?d \<and> r \<in> set rs" for r
  proof -
    assume r: "r \<in> set history" "is_repeatable_row r"
    then have "r \<in> set (dget_or ?d (script_name r) [])" by (simp add: rows)
    then obtain rs where "dget ?d (script_name r) = Some rs" "r \<in> set rs"
      by (cases "dget ?d (script_name r)") (auto simp: dget_or_def)
    then show ?thesis using wf by (auto simp: dict_wf_mem_iff)
  qed
  show ?thesis
  proof (intro set_eqI iffI)
    fix r assume "r \<in> set (dget_or (rows_by_basename ?d) b [])"
    then obtain n rs where "(n, rs) \<in> set ?d" "path_name n = b" "r \<in> set rs"
      by (auto simp: rows_by_basename_spec)
    with mem [OF this(1)] show "r \<in> {r \<in> set history. is_repeatable_row r \<and> path_name (script_name r) = b}"
      by simp
  next
    fix r assume "r \<in> {r \<in> set history. is_repeatable_row r \<and> path_name (script_name r) = b}"
    then obtain rs where "(script_name r, rs) \<in> set ?d" "r \<in> set rs" "path_name (script_name r) = b"
      using key by auto
    then show "r \<in> set (dget_or (rows_by_basename ?d) b [])"
      by (force simp: rows_by_basename_spec)
  qed
qed

definition matching_rows :: "string \<Rightarrow> migration list \<Rightarrow> migration list" where
  "matching_rows n history =
     (if list_ex (\<lambda>r. is_repeatable_row r \<and> script_name r = n) history
      then filter (\<lambda>r. is_repeatable_row r \<and> script_name r = n) history
      else filter (\<lambda>r. is_repeatable_row r \<and> path_name (script_name r) = path_name n) history)"

text \<open>The run a latest row of the script stands for.\<close>

definition run_of_row :: "migration \<Rightarrow> migration \<Rightarrow> repeatable_run" where
  "run_of_row script latest =
     (let stored = norm_checksum (checksum latest); current = norm_checksum (checksum script) in
      repeatable_run
        (if succeeded latest
         then (if stored = None \<or> current = None \<or> stored = current then RUNCHANGED else RCHANGED)
         else (if current = stored then RFAILED_UNCHANGED else RFAILED_CHANGED))
        stored current)"

lemma decide_run_latest:
  "rows \<noteq> [] \<Longrightarrow> \<exists>latest \<in> set rows. (\<forall>r \<in> set rows. installed_rank_of r \<le> installed_rank_of latest)
     \<and> decide_run script rows = run_of_row script latest"
proof (cases rows)
  case (Cons r rs)
  let ?l = "max_by installed_rank_of r rs"
  have "?l \<in> set rows" using max_by_in [of installed_rank_of r rs] Cons by simp
  moreover have "\<forall>x \<in> set rows. installed_rank_of x \<le> installed_rank_of ?l"
    using max_by_ge [of _ r rs installed_rank_of] Cons by simp
  moreover have "decide_run script rows = run_of_row script ?l"
    by (simp add: decide_run_def Cons run_of_row_def Let_def)
  ultimately show ?thesis by blast
qed simp

definition chosen_rows :: "string \<Rightarrow> migration list \<Rightarrow> migration list" where
  "chosen_rows n history =
     (let exact = dget_or (repeatable_rows_by_name history) n [] in
      if exact \<noteq> [] then exact
      else dget_or (rows_by_basename (repeatable_rows_by_name history)) (path_name n) [])"

lemma set_chosen_rows: "set (chosen_rows n history) = set (matching_rows n history)"
proof -
  have "dget_or (repeatable_rows_by_name history) n []
      = filter (\<lambda>r. is_repeatable_row r \<and> script_name r = n) history"
    using repeatable_rows_spec by blast
  moreover have "filter (\<lambda>r. is_repeatable_row r \<and> script_name r = n) history \<noteq> []
      \<longleftrightarrow> list_ex (\<lambda>r. is_repeatable_row r \<and> script_name r = n) history"
    by (auto simp: filter_empty_conv list_ex_iff)
  ultimately show ?thesis
    unfolding chosen_rows_def matching_rows_def Let_def
    by (auto simp: set_rows_by_basename)
qed

lemma dget_repeatable_runs:
  "case dget (repeatable_runs scripts history) n of
     None \<Rightarrow> \<not> list_ex (\<lambda>s. mtype s = REPEATABLE \<and> script_name s = n) scripts
   | Some run \<Rightarrow> list_ex (\<lambda>s. mtype s = REPEATABLE \<and> script_name s = n
       \<and> run = decide_run s (chosen_rows n history)) scripts"
proof -
  have "repeatable_runs scripts history =
      fold (\<lambda>s runs. if mtype s \<noteq> REPEATABLE then runs
              else dset runs (script_name s) (decide_run s (chosen_rows (script_name s) history))) scripts []"
    unfolding repeatable_runs_def chosen_rows_def Let_def by (rule refl)
  moreover have "case dget (fold (\<lambda>s runs. if mtype s \<noteq> REPEATABLE then runs
              else dset runs (script_name s) (decide_run s (chosen_rows (script_name s) history))) scripts []) n of
     None \<Rightarrow> \<not> list_ex (\<lambda>s. mtype s = REPEATABLE \<and> script_name s = n) scripts
   | Some run \<Rightarrow> list_ex (\<lambda>s. mtype s = REPEATABLE \<and> script_name s = n
       \<and> run = decide_run s (chosen_rows n history)) scripts"
    by (induction scripts rule: rev_induct) (auto split: option.splits)
  ultimately show ?thesis by simp
qed

text \<open>
  C13. A repeatable script is decided by its latest recorded run: of the rows with its exact name,
  or, when there are none, with its file name, one with the largest rank. Without a row it is new;
  after a success it is changed exactly when both checksums are known and differ; after a failure
  exactly when the checksums are not the same. Rows without an outcome never count.
\<close>

theorem repeatable_runs_latest:
  "case dget (repeatable_runs scripts history) n of
     None \<Rightarrow> \<not> list_ex (\<lambda>s. mtype s = REPEATABLE \<and> script_name s = n) scripts
   | Some run \<Rightarrow> list_ex (\<lambda>s. mtype s = REPEATABLE \<and> script_name s = n
       \<and> (if matching_rows n history = []
          then run = repeatable_run RNEW None (norm_checksum (checksum s))
          else list_ex (\<lambda>latest. run = run_of_row s latest
                 \<and> list_all (\<lambda>r. installed_rank_of r \<le> installed_rank_of latest) (matching_rows n history))
               (matching_rows n history))) scripts"
proof -
  have "if matching_rows n history = []
        then decide_run s (chosen_rows n history) = repeatable_run RNEW None (norm_checksum (checksum s))
        else list_ex (\<lambda>latest. decide_run s (chosen_rows n history) = run_of_row s latest
                 \<and> list_all (\<lambda>r. installed_rank_of r \<le> installed_rank_of latest) (matching_rows n history))
               (matching_rows n history)" for s
  proof (cases "matching_rows n history = []")
    case True
    then have "chosen_rows n history = []" using set_chosen_rows [of n history] by simp
    with True show ?thesis by (simp add: decide_run_def)
  next
    case False
    then have "chosen_rows n history \<noteq> []" using set_chosen_rows [of n history] by auto
    from decide_run_latest [OF this, of s] False show ?thesis
      by (auto simp: set_chosen_rows list_ex_iff list_all_iff)
  qed
  note decided = this
  show ?thesis
  proof (cases "dget (repeatable_runs scripts history) n")
    case None
    then show ?thesis using dget_repeatable_runs [where scripts = scripts and history = history and n = n] by simp
  next
    case (Some run)
    then obtain s where "s \<in> set scripts" "mtype s = REPEATABLE" "script_name s = n"
        "run = decide_run s (chosen_rows n history)"
      using dget_repeatable_runs [where scripts = scripts and history = history and n = n] by (auto simp: list_ex_iff)
    then show ?thesis using decided [of s] unfolding Some option.case list_ex_iff by blast
  qed
qed

subsection \<open>Missing scripts, each judged once\<close>

fun last_rows :: "migration list \<Rightarrow> migration list" where
  "last_rows [] = []"
| "last_rows (r # rs) =
     (if script_name r = [] \<or> list_ex (\<lambda>r'. script_name r' = script_name r) rs then last_rows rs
      else r # last_rows rs)"

lemma last_rows_snoc:
  "last_rows (rs @ [r]) = (if script_name r = [] then last_rows rs
     else filter (\<lambda>r'. script_name r' \<noteq> script_name r) (last_rows rs) @ [r])"
  by (induction rs) auto

lemma dset_ddel: "dset (ddel d k) k v = ddel d k @ [(k, v)]"
  unfolding ddel_def by (induction d) auto

lemma latest_by_script_rows: "latest_by_script rows = map (\<lambda>r. (script_name r, r)) (last_rows rows)"
proof (induction rows rule: rev_induct)
  case (snoc r rows)
  have "ddel (map (\<lambda>r. (script_name r, r)) xs) k = map (\<lambda>r. (script_name r, r)) (filter (\<lambda>r. script_name r \<noteq> k) xs)"
    for xs k unfolding ddel_def by (induction xs) auto
  with snoc show ?case by (auto simp: latest_by_script_def last_rows_snoc dset_ddel)
qed (simp add: latest_by_script_def)

lemma set_last_rows: "set (last_rows rs) \<subseteq> {r \<in> set rs. script_name r \<noteq> []}"
  by (induction rs) auto

lemma distinct_last_rows: "distinct (map script_name (last_rows rs))"
proof (induction rs)
  case (Cons r rs)
  then show ?case using set_last_rows [of rs] by (auto simp: list_ex_iff)
qed simp

definition gone :: "migration list \<Rightarrow> migration list \<Rightarrow> migration \<Rightarrow> bool" where
  "gone scripts history row \<longleftrightarrow>
     mtype row \<noteq> BASELINE \<and> str_lower (version_str row) \<noteq> ''baseline''
     \<and> script_name row \<notin> script_name ` {d \<in> set history. mtype d = DELETE}
     \<and> script_name row \<notin> script_name ` set scripts \<union> path_name ` script_name ` set scripts
     \<and> path_name (script_name row) \<notin> script_name ` set scripts \<union> path_name ` script_name ` set scripts"

lemma missing_applied_filter:
  "missing_applied scripts history
     = filter (gone scripts history) (last_rows (successful_non_delete_records history))"
proof -
  have p: "set (present_names scripts) = script_name ` set scripts \<union> path_name ` script_name ` set scripts"
    by (auto simp: present_names_def)
  have d: "set (deleted_script_names history) = script_name ` {d \<in> set history. mtype d = DELETE}"
    by (auto simp: deleted_script_names_def is_delete_marker_def)
  show ?thesis
    unfolding missing_applied_def Let_def latest_by_script_rows p d filter_map list.map_comp
    by (simp add: comp_def gone_def [abs_def] conj_assoc)
qed

text \<open>
  The missing scripts are, in history order and each once, the last successful rows (undo and
  audit rows aside) of a script that is no baseline, has no delete marker, and whose name and file
  name are neither a name nor a file name of the catalog.
\<close>

theorem missing_applied_last_rows:
  "missing_applied scripts history
     = filter (gone scripts history) (last_rows (successful_non_delete_records history))
   \<and> distinct (map script_name (missing_applied scripts history))"
  by (simp add: missing_applied_filter distinct_map_filter [OF distinct_last_rows])

subsection \<open>Drift, one entry for each script\<close>

definition script_for :: "migration list \<Rightarrow> string \<Rightarrow> migration option" where
  "script_for scripts n =
     (case List.find (\<lambda>s. script_name s = n) scripts of
        Some s \<Rightarrow> Some s
      | None \<Rightarrow> List.find (\<lambda>s. script_name s = path_name n) scripts)"

definition last_success :: "migration list \<Rightarrow> string \<Rightarrow> migration option" where
  "last_success applied n = List.find (\<lambda>r. script_name r = n) (rev (successful_non_delete_records applied))"

definition drift_of :: "migration list \<Rightarrow> migration list \<Rightarrow> string \<Rightarrow> checksum_drift option" where
  "drift_of scripts applied n =
     (case (script_for scripts n, last_success applied n) of
        (Some s, Some a) \<Rightarrow>
          if norm_checksum (checksum a) = norm_checksum (checksum s) \<and> checksum s \<noteq> None then None
          else Some \<lparr>cd_script_name = n, cd_applied = norm_checksum (checksum a),
                     cd_current = norm_checksum (checksum s), cd_repeatable = (mtype a = REPEATABLE)\<rparr>
      | _ \<Rightarrow> None)"

lemma find_append: "List.find P (xs @ ys) = (case List.find P xs of Some x \<Rightarrow> Some x | None \<Rightarrow> List.find P ys)"
  by (induction xs) auto

lemma dget_scripts_by_name: "dget (scripts_by_name scripts) n = List.find (\<lambda>s. script_name s = n) scripts"
  unfolding scripts_by_name_def
  by (induction scripts rule: rev_induct) (auto simp: find_append split: option.splits)

lemma dget_latest_successful: "dget (latest_successful applied) n = last_success applied n"
proof -
  have "dget (foldl (\<lambda>d r. dset d (script_name r) r) [] rows) n
      = List.find (\<lambda>r. script_name r = n) (rev rows)" for rows
    by (induction rows rule: rev_induct) auto
  then show ?thesis by (simp add: latest_successful_def last_success_def)
qed

lemma drift_loop_spec:
  assumes "set seen \<subseteq> set S"
    and "\<forall>n \<in> set S - set seen. script_for scripts n = None \<or> last_success applied n = None"
  shows "drift_loop (scripts_by_name scripts) (latest_successful applied) seen rows
    = List.map_filter (drift_of scripts applied)
        (first_by (\<lambda>x. x) S (map script_name
          (filter (\<lambda>r. script_name r \<noteq> [] \<and> mtype r \<notin> set NO_CHECKSUM_TYPES) rows)))"
  using assms
proof (induction rows arbitrary: seen S)
  case (Cons r rows)
  let ?n = "script_name r"
  let ?loop = "drift_loop (scripts_by_name scripts) (latest_successful applied)"
  have sf: "(case dget (scripts_by_name scripts) ?n of Some s \<Rightarrow> Some s
      | None \<Rightarrow> dget (scripts_by_name scripts) (path_name ?n)) = script_for scripts ?n"
    unfolding dget_scripts_by_name script_for_def by (rule refl)
  show ?case
  proof (cases "?n = [] \<or> mtype r \<in> set NO_CHECKSUM_TYPES \<or> ?n \<in> set seen")
    case True
    with Cons.prems(1) Cons.IH [OF Cons.prems] show ?thesis by (auto simp: Let_def)
  next
    case False
    show ?thesis
    proof (cases "script_for scripts ?n = None \<or> last_success applied ?n = None")
      case True
      then have skip: "?loop seen (r # rows) = ?loop seen rows"
        unfolding drift_loop.simps Let_def sf dget_latest_successful by (auto split: option.splits)
      have none: "drift_of scripts applied ?n = None"
        using True by (auto simp: drift_of_def split: option.splits)
      show ?thesis
      proof (cases "?n \<in> set S")
        case True
        with False skip Cons.IH [OF Cons.prems] show ?thesis by simp
      next
        case nS: False
        have "?loop seen rows = List.map_filter (drift_of scripts applied)
            (first_by (\<lambda>x. x) (S @ [?n]) (map script_name
              (filter (\<lambda>r. script_name r \<noteq> [] \<and> mtype r \<notin> set NO_CHECKSUM_TYPES) rows)))"
          by (rule Cons.IH) (use Cons.prems True in auto)
        with nS False skip none show ?thesis by (simp add: List.map_filter_simps)
      qed
    next
      case match: False
      with Cons.prems(2) False have nS: "?n \<notin> set S" by (metis DiffI)
      from match obtain s a where sa: "script_for scripts ?n = Some s" "last_success applied ?n = Some a"
        by auto
      have "?loop (seen @ [?n]) rows = List.map_filter (drift_of scripts applied)
            (first_by (\<lambda>x. x) (S @ [?n]) (map script_name
              (filter (\<lambda>r. script_name r \<noteq> [] \<and> mtype r \<notin> set NO_CHECKSUM_TYPES) rows)))"
        by (rule Cons.IH) (use Cons.prems in auto)
      moreover have "?loop seen (r # rows) =
          (case drift_of scripts applied ?n of None \<Rightarrow> ?loop (seen @ [?n]) rows
           | Some d \<Rightarrow> d # ?loop (seen @ [?n]) rows)"
        using False unfolding drift_loop.simps Let_def sf dget_latest_successful drift_of_def sa
        by (auto simp: norm_checksum_def)
      ultimately show ?thesis using nS False by (simp add: List.map_filter_simps split: option.split)
    qed
  qed
qed (simp add: List.map_filter_simps)

lemma first_by_names: "set (first_by (\<lambda>x. x) seen xs) = set xs - set seen \<and> distinct (first_by (\<lambda>x. x) seen xs)"
  by (induction xs arbitrary: seen) auto

lemma drift_of_name: "drift_of scripts applied n = Some d \<Longrightarrow> cd_script_name d = n"
  by (auto simp: drift_of_def split: option.splits if_splits)

lemma distinct_map_filter_names:
  "distinct ns \<Longrightarrow> distinct (map cd_script_name (List.map_filter (drift_of scripts applied) ns))"
proof (induction ns)
  case (Cons n ns)
  have "d \<in> set (List.map_filter (drift_of scripts applied) ns) \<Longrightarrow> cd_script_name d \<in> set ns" for d
    using drift_of_name by (force simp: List.map_filter_def)
  with Cons show ?case
    using drift_of_name [of scripts applied n] by (auto simp: List.map_filter_simps split: option.split)
qed (simp add: List.map_filter_simps)

lemma find_checksum_drift_entries:
  "find_checksum_drift scripts applied =
     List.map_filter (drift_of scripts applied)
       (first_by (\<lambda>x. x) [] (map script_name
          (filter (\<lambda>r. script_name r \<noteq> [] \<and> mtype r \<notin> {UNKNOWN, DELETE, UNDO_SQL, BASELINE}) applied)))"
proof -
  have "find_checksum_drift scripts applied =
     List.map_filter (drift_of scripts applied)
       (first_by (\<lambda>x. x) [] (map script_name
          (filter (\<lambda>r. script_name r \<noteq> [] \<and> mtype r \<notin> set NO_CHECKSUM_TYPES) applied)))"
    unfolding find_checksum_drift_def by (rule drift_loop_spec) simp_all
  moreover have "set NO_CHECKSUM_TYPES = {UNKNOWN, DELETE, UNDO_SQL, BASELINE}"
    by (simp add: NO_CHECKSUM_TYPES_def)
  ultimately show ?thesis by simp
qed

text \<open>
  C14. Drift is reported once for each script recorded in the history, in history order: exactly when
  a script on disk has its name (or its file name), it has a successful row, and the checksum of its
  last successful row is not the known checksum of the script. Rows of types without content start
  no entry.
\<close>

theorem find_checksum_drift_spec:
  "find_checksum_drift scripts applied =
     List.map_filter (drift_of scripts applied)
       (first_by (\<lambda>x. x) [] (map script_name
          (filter (\<lambda>r. script_name r \<noteq> [] \<and> mtype r \<notin> {UNKNOWN, DELETE, UNDO_SQL, BASELINE}) applied)))
   \<and> distinct (map cd_script_name (find_checksum_drift scripts applied))"
proof
  have "distinct (map cd_script_name (List.map_filter (drift_of scripts applied) (first_by (\<lambda>x. x) [] ns)))" for ns
    by (rule distinct_map_filter_names) (simp add: first_by_names)
  then show "distinct (map cd_script_name (find_checksum_drift scripts applied))"
    by (simp only: find_checksum_drift_entries)
qed (rule find_checksum_drift_entries)

end
