(* ===== verification/StateService.thy ===== *)
theory StateService
  imports ScriptStatus
begin

text \<open>
  \<^verbatim>\<open>state/migration_data_service.py\<close> and \<^verbatim>\<open>state/migration_state_service.py\<close>: the analysis of a
  history in rank order (undone, reapplied and out-of-order versions, baseline, current version) and
  the display state and eligibility decided from it. Sets of versions are lists here; only their
  membership is read, except for the maximum of the applied versions, where equal spellings of the
  highest version are taken in the order they were applied.
\<close>

datatype state_error = RankTypeError | StateLoadError script_error

record analysis_context =
  ac_undone :: "string list"
  ac_reapplied :: "string list"
  ac_baseline :: "string option"
  ac_out_of_order :: "string list"
  ac_current :: "string option"
  ac_target :: "string option"
  ac_repeatable_checksums :: "(string, int) dict"
  ac_pending_repeatable :: "string list"

subsection \<open>Analysis of the history\<close>

text \<open>\<open>sorted(key=installed_rank)\<close> raises \<open>TypeError\<close> as soon as a rank is \<open>None\<close> and there is
  something to compare it with.\<close>

definition sort_applied_migrations :: "migration list \<Rightarrow> state_error + migration list" where
  "sort_applied_migrations ms =
     (if length ms \<ge> 2 \<and> list_ex (\<lambda>m. installed_rank m = None) ms then Inl RankTypeError
      else Inr (sorted_by (key_cmp installed_rank_of) ms))"

definition get_undone_versions :: "migration list \<Rightarrow> string list" where
  "get_undone_versions ms =
     map version_str (filter (\<lambda>m. mtype m = UNDO_SQL \<and> has_version m \<and> succeeded m) ms)"

definition get_reapplied_versions :: "migration list \<Rightarrow> string list" where
  "get_reapplied_versions ms = map fst (filter (\<lambda>(v, s). reapplied s) (latest_successful_ranks ms))"

definition get_baseline_version :: "migration list \<Rightarrow> string option" where
  "get_baseline_version ms = map_option version_str (List.find (\<lambda>m. mtype m = BASELINE) ms)"

record order_walk =
  ow_applied :: "string list"
  ow_highest :: "string option"
  ow_out_of_order :: "string list"

definition highest_of :: "string list \<Rightarrow> string option" where
  "highest_of vs = fold (keep_highest vcmp) vs None"

definition add_version :: "string \<Rightarrow> string list \<Rightarrow> string list" where
  "add_version v vs = (if v \<in> set vs then vs else vs @ [v])"

definition walk_step :: "migration \<Rightarrow> order_walk \<Rightarrow> order_walk" where
  "walk_step m st =
     (let v = version_str m in
      if v = [] then st
      else if mtype m = UNDO_SQL then
        (if succeeded m
         then let applied = removeAll v (ow_applied st)
              in st\<lparr>ow_applied := applied,
                    ow_highest := (if ow_highest st = Some v then highest_of applied else ow_highest st)\<rparr>
         else st)
      else if \<not> versioned m then st
      else case ow_highest st of
          None \<Rightarrow> st\<lparr>ow_highest := Some v, ow_applied := add_version v (ow_applied st)\<rparr>
        | Some h \<Rightarrow>
            if vcmp v h > 0
            then st\<lparr>ow_highest := Some v, ow_applied := add_version v (ow_applied st)\<rparr>
            else if vcmp v h < 0
            then st\<lparr>ow_out_of_order := ow_out_of_order st @ [v],
                    ow_applied := add_version v (ow_applied st)\<rparr>
            else st\<lparr>ow_applied := add_version v (ow_applied st)\<rparr>)"

definition detect_out_of_order_migrations :: "migration list \<Rightarrow> string list" where
  "detect_out_of_order_migrations ms =
     ow_out_of_order (fold walk_step ms \<lparr>ow_applied = [], ow_highest = None, ow_out_of_order = []\<rparr>)"

definition build_analysis_context ::
  "string option \<Rightarrow> migration list \<Rightarrow> state_error + analysis_context" where
  "build_analysis_context target applied =
     rbind (sort_applied_migrations applied) (\<lambda>ms.
       Inr \<lparr>ac_undone = get_undone_versions ms, ac_reapplied = get_reapplied_versions ms,
            ac_baseline = get_baseline_version ms,
            ac_out_of_order = detect_out_of_order_migrations ms,
            ac_current = effective_current_version vcmp ms, ac_target = target,
            ac_repeatable_checksums = [], ac_pending_repeatable = []\<rparr>)"

subsection \<open>Display states\<close>

definition version_in :: "migration \<Rightarrow> string list \<Rightarrow> bool" where
  "version_in m vs \<longleftrightarrow> (case version m of None \<Rightarrow> False | Some v \<Rightarrow> v \<in> set vs)"

definition above_current :: "migration \<Rightarrow> string option \<Rightarrow> bool" where
  "above_current m current \<longleftrightarrow>
     has_version m \<and> truthy current \<and> vcmp (version_str m) (the current) > 0"

definition checksums_differ :: "int \<Rightarrow> int \<Rightarrow> bool" where
  "checksums_differ stored current \<longleftrightarrow> norm_checksum (Some stored) \<noteq> norm_checksum (Some current)"

definition determine_state :: "migration \<Rightarrow> analysis_context \<Rightarrow> display_state" where
  "determine_state m c =
     (if mtype m = DELETE then Deleted
      else if mtype m = BASELINE then Baseline
      else if failed_row m then
        (if \<not> resolved m
         then (if above_current m (ac_current c) then FailedFuture else FailedMissing)
         else Failed)
      else if succeeded m then
        (if mtype m = UNDO_SQL then Success
         else if version_in m (ac_undone c) \<and> \<not> version_in m (ac_reapplied c) then Undone
         else if version_in m (ac_out_of_order c) then OutOfOrder
         else if mtype m = REPEATABLE
             \<and> (case (dget (ac_repeatable_checksums c) (script_name m), checksum m) of
                  (Some s, Some k) \<Rightarrow> s \<noteq> 0 \<and> k \<noteq> 0 \<and> checksums_differ s k | _ \<Rightarrow> False)
         then Superseded
         else if mtype m = REPEATABLE
             \<and> (script_name m \<in> set (ac_pending_repeatable c)
                \<or> path_name (script_name m) \<in> set (ac_pending_repeatable c))
         then Outdated
         else if \<not> resolved m
         then (if above_current m (ac_current c) then Future else Missing)
         else Success)
      else if success m = VNone then NeedsRepair
      else UnknownState)"

definition determine_pending_eligibility :: "migration \<Rightarrow> analysis_context \<Rightarrow> eligibility" where
  "determine_pending_eligibility m c =
     (if mtype m = REPEATABLE then PENDING
      else if mtype m = UNDO_SQL then UNDO_AVAILABLE
      else if has_version m \<and> truthy (ac_baseline c) \<and> vcmp (version_str m) (the (ac_baseline c)) \<le> 0
      then BELOW_BASELINE
      else if has_version m \<and> truthy (ac_target c) \<and> vcmp (version_str m) (the (ac_target c)) > 0
      then ABOVE_TARGET
      else PENDING)"

subsection \<open>Applied out of order\<close>

text \<open>The versions still applied after a prefix of the history: a versioned row adds its version, a
  successful undo removes it.\<close>

definition still_applied_step :: "migration \<Rightarrow> string set \<Rightarrow> string set" where
  "still_applied_step m vs =
     (if version_str m = [] then vs
      else if mtype m = UNDO_SQL then (if succeeded m then vs - {version_str m} else vs)
      else if versioned m then insert (version_str m) vs else vs)"

definition still_applied :: "migration list \<Rightarrow> string set" where
  "still_applied ms = fold still_applied_step ms {}"

definition highest_ok :: "string list \<Rightarrow> string option \<Rightarrow> bool" where
  "highest_ok vs h \<longleftrightarrow>
     (case h of None \<Rightarrow> vs = [] | Some v \<Rightarrow> v \<in> set vs \<and> (\<forall>w \<in> set vs. vcmp w v \<le> 0))"

lemma highest_of_ok: "highest_ok vs (highest_of vs)"
  using version_cmp.fold_keep_highest [of vs] by (simp add: highest_ok_def highest_of_def)

lemma set_add_version [simp]: "set (add_version v vs) = insert v (set vs)"
  by (auto simp: add_version_def)

lemma walk_step_applied: "set (ow_applied (walk_step m st)) = still_applied_step m (set (ow_applied st))"
  by (auto simp: walk_step_def still_applied_step_def Let_def split: option.splits)

lemma walk_step_highest:
  assumes "highest_ok (ow_applied st) (ow_highest st)"
  shows "highest_ok (ow_applied (walk_step m st)) (ow_highest (walk_step m st))"
proof -
  let ?v = "version_str m"
  consider "?v = [] \<or> (mtype m = UNDO_SQL \<and> \<not> succeeded m) \<or> (mtype m \<noteq> UNDO_SQL \<and> \<not> versioned m)"
    | (u) "?v \<noteq> []" "mtype m = UNDO_SQL" "succeeded m"
    | (a) "?v \<noteq> []" "mtype m \<noteq> UNDO_SQL" "versioned m"
    by blast
  then show ?thesis
  proof cases
    case 1
    then have "walk_step m st = st" by (auto simp: walk_step_def Let_def)
    with assms show ?thesis by simp
  next
    case u
    show ?thesis
    proof (cases "ow_highest st = Some ?v")
      case True
      with u show ?thesis by (simp add: walk_step_def Let_def highest_of_ok)
    next
      case False
      with u assms show ?thesis
        by (cases "ow_highest st") (auto simp: walk_step_def Let_def highest_ok_def)
    qed
  next
    case a
    show ?thesis
    proof (cases "ow_highest st")
      case None
      with a assms show ?thesis by (simp add: walk_step_def Let_def highest_ok_def add_version_def)
    next
      case (Some h)
      with assms have h: "h \<in> set (ow_applied st)" "\<forall>w \<in> set (ow_applied st). vcmp w h \<le> 0"
        by (simp_all add: highest_ok_def)
      show ?thesis
      proof (cases "vcmp ?v h > 0")
        case True
        then have "vcmp h ?v \<le> 0" using version_cmp.sign_swap [of h ?v] by linarith
        then have "\<forall>w \<in> set (ow_applied st). vcmp w ?v \<le> 0"
          using h(2) version_cmp.le_trans by blast
        with a Some True show ?thesis by (simp add: walk_step_def Let_def highest_ok_def)
      next
        case False
        with a Some h show ?thesis by (simp add: walk_step_def Let_def highest_ok_def)
      qed
    qed
  qed
qed

lemma walk_step_out:
  assumes "highest_ok (ow_applied st) (ow_highest st)"
  shows "set (ow_out_of_order (walk_step m st)) = set (ow_out_of_order st) \<union>
    (if version_str m \<noteq> [] \<and> versioned m \<and> (\<exists>w \<in> set (ow_applied st). vcmp (version_str m) w < 0)
     then {version_str m} else {})"
proof (cases "version_str m \<noteq> [] \<and> versioned m")
  case False
  then have "ow_out_of_order (walk_step m st) = ow_out_of_order st"
    by (auto simp: walk_step_def Let_def)
  with False show ?thesis by auto
next
  case True
  then have t: "mtype m \<noteq> UNDO_SQL" by auto
  show ?thesis
  proof (cases "ow_highest st")
    case None
    with assms True t show ?thesis by (simp add: walk_step_def Let_def highest_ok_def)
  next
    case (Some h)
    with assms have h: "h \<in> set (ow_applied st)" "\<forall>w \<in> set (ow_applied st). vcmp w h \<le> 0"
      by (simp_all add: highest_ok_def)
    have "(\<exists>w \<in> set (ow_applied st). vcmp (version_str m) w < 0) \<longleftrightarrow> vcmp (version_str m) h < 0"
      using h by (metis version_cmp.le_swap version_cmp.le_trans)
    with True t Some show ?thesis by (auto simp: walk_step_def Let_def)
  qed
qed

lemma split_snoc:
  "(\<exists>pre x post. ms @ [m] = pre @ x # post \<and> P pre x) \<longleftrightarrow>
     P ms m \<or> (\<exists>pre x post. ms = pre @ x # post \<and> P pre x)"
proof
  assume "\<exists>pre x post. ms @ [m] = pre @ x # post \<and> P pre x"
  then obtain pre x post where p: "ms @ [m] = pre @ x # post" "P pre x" by blast
  show "P ms m \<or> (\<exists>pre x post. ms = pre @ x # post \<and> P pre x)"
  proof (cases post rule: rev_cases)
    case Nil
    with p show ?thesis by simp
  next
    case (snoc ys y)
    with p have "ms = pre @ x # ys" by simp
    with p(2) show ?thesis by blast
  qed
next
  assume "P ms m \<or> (\<exists>pre x post. ms = pre @ x # post \<and> P pre x)"
  then show "\<exists>pre x post. ms @ [m] = pre @ x # post \<and> P pre x"
  proof
    assume "\<exists>pre x post. ms = pre @ x # post \<and> P pre x"
    then obtain pre x post where "ms @ [m] = pre @ x # (post @ [m])" "P pre x" by auto
    then show ?thesis by blast
  qed blast
qed


end
