(* ===== verification/StateManager.thy ===== *)
theory StateManager
  imports StateService
begin

text \<open>
  \<^verbatim>\<open>state/migration_state_manager.py\<close> and the records of \<^verbatim>\<open>state/migration_state.py\<close>: the analysis
  of the applied rows, the catalog of unresolved scripts, checksum changes and the state every command
  reads (\<open>build_state\<close>). The objects of one snapshot are shared: marking a row or script as resolved is
  seen through every list that holds it, so the marks are applied to each of those lists.
\<close>

subsection \<open>Records\<close>

record migration_entry =
  me_script :: string
  me_version :: "string option"
  me_description :: string
  me_type :: string
  me_status :: string
  me_checksum :: "int option"
  me_installed_on :: "string option"
  me_installed_by :: "string option"
  me_execution_time :: "int option"

definition entry_from_migration :: "migration \<Rightarrow> string \<Rightarrow> migration_entry" where
  "entry_from_migration m st =
     \<lparr>me_script = script_name m, me_version = (if has_version m then version m else None),
      me_description = description m, me_type = type_name (mtype m),
      me_status = (if st \<noteq> [] then st else status m), me_checksum = checksum m,
      me_installed_on = installed_on m, me_installed_by = installed_by m,
      me_execution_time = execution_time m\<rparr>"

record checksum_change =
  cc_script :: string
  cc_previous :: int
  cc_current :: int

record history_analysis =
  ha_undone :: "string list"
  ha_reapplied :: "string list"
  ha_executed_scripts :: "string list"
  ha_executed_versions :: "string list"
  ha_repeatable_checksums :: "(string, int) dict"
  ha_deleted :: "string list"
  ha_failed :: "migration list"

subsection \<open>Analysis of the applied rows\<close>

record analysis_loop =
  al_repeatable :: "(string, migration) dict"
  al_executed :: "string list"
  al_failed :: "migration list"
  al_groups :: "(string, migration list) dict"

text \<open>A name, and its file name when it is qualified by a directory.\<close>

definition with_basename :: "string \<Rightarrow> string list" where
  "with_basename n = (if contains n ''/'' then [n, path_name n] else [n])"

definition analyse_row :: "migration \<Rightarrow> analysis_loop \<Rightarrow> analysis_loop" where
  "analyse_row m st =
     (if mtype m = DELETE then st
      else
        let st1 = (if failed_row m then st\<lparr>al_failed := al_failed st @ [m]\<rparr> else st) in
        if versioned m \<and> succeeded m then
          (if has_version m
           then st1\<lparr>al_groups := dappend (al_groups st1) (version_str m) [m]\<rparr> else st1)
        else if mtype m = REPEATABLE \<and> succeeded m then
          st1\<lparr>al_repeatable :=
                (case dget (al_repeatable st1) (script_name m) of
                   None \<Rightarrow> dset (al_repeatable st1) (script_name m) m
                 | Some r \<Rightarrow> if installed_rank_of m > installed_rank_of r
                             then dset (al_repeatable st1) (script_name m) m else al_repeatable st1),
              al_executed := al_executed st1 @ with_basename (script_name m)\<rparr>
        else if mtype m = CALLBACK \<and> succeeded m then
          st1\<lparr>al_executed := al_executed st1 @ [script_name m]\<rparr>
        else st1)"

text \<open>\<open>migrations.sort(key=rank, reverse=True); migrations[0]\<close>\<close>

definition most_recent :: "migration list \<Rightarrow> migration" where
  "most_recent ms = hd (sorted_by_desc (key_cmp installed_rank_of) ms)"

definition executed_group :: "string list \<Rightarrow> string list \<Rightarrow> string \<times> migration list \<Rightarrow> bool" where
  "executed_group undone reappl g \<longleftrightarrow> \<not> (fst g \<in> set undone \<and> fst g \<notin> set reappl)"

definition analyse_history :: "migration list \<Rightarrow> analysis_context \<Rightarrow> history_analysis" where
  "analyse_history applied c =
     (let st = fold analyse_row applied \<lparr>al_repeatable = [], al_executed = [], al_failed = [], al_groups = []\<rparr>;
          groups = filter (executed_group (ac_undone c) (ac_reapplied c)) (al_groups st);
          failed = al_failed st
      in \<lparr>ha_undone = ac_undone c, ha_reapplied = ac_reapplied c,
          ha_executed_scripts = al_executed st
            @ concat (map (\<lambda>g. with_basename (script_name (most_recent (snd g)))) groups)
            @ concat (map (\<lambda>m. if script_name m \<noteq> [] then with_basename (script_name m) else []) failed),
          ha_executed_versions = map fst groups @ map version_str (filter has_version failed),
          ha_repeatable_checksums = List.map_filter (\<lambda>(n, m). case checksum m of
              Some k \<Rightarrow> if k \<noteq> 0 then Some (n, k) else None | None \<Rightarrow> None) (al_repeatable st),
          ha_deleted = deleted_script_names applied,
          ha_failed = failed\<rparr>)"

subsection \<open>Unresolved scripts\<close>

definition is_versioned_pending ::
  "string \<Rightarrow> string option \<Rightarrow> string list \<Rightarrow> string list \<Rightarrow> string list \<Rightarrow> bool" where
  "is_versioned_pending name ver executed_scripts executed_versions undone =
     (let by_version = truthy ver \<and> the ver \<in> set executed_versions;
          by_name = (if \<not> by_version
                     then name \<in> set executed_scripts \<or> path_name name \<in> set executed_scripts
                     else False);
          executed = by_version \<or> by_name
      in if truthy ver \<and> the ver \<in> set undone then True
         else if \<not> executed then True else False)"

text \<open>\<open>runs[script_name]\<close> raises \<open>KeyError\<close> for a name that has no run.\<close>

datatype plan_error = PState state_error | PRunKeyError string

definition is_repeatable_pending :: "string \<Rightarrow> (string, repeatable_run) dict \<Rightarrow> plan_error + bool" where
  "is_repeatable_pending name runs =
     (case dget runs name of
        None \<Rightarrow> Inl (PRunKeyError name)
      | Some r \<Rightarrow> Inr (run_status r \<in> set PENDING_REPEATABLE_STATUSES))"

fun pending_loop ::
  "string list \<Rightarrow> string list \<Rightarrow> string list \<Rightarrow> (string, repeatable_run) dict \<Rightarrow> migration list
   \<Rightarrow> plan_error + migration list" where
  "pending_loop executed_scripts executed_versions undone runs [] = Inr []"
| "pending_loop executed_scripts executed_versions undone runs (m # ms) =
     rbind
       (if versioned m
        then Inr (is_versioned_pending (script_name m) (version m) executed_scripts executed_versions undone)
        else if mtype m = REPEATABLE then is_repeatable_pending (script_name m) runs
        else Inr (mtype m = UNDO_SQL))
       (\<lambda>b. rbind (pending_loop executed_scripts executed_versions undone runs ms)
         (\<lambda>rest. Inr (if b then m # rest else rest)))"

text \<open>The undone versions without those a later row applied again.\<close>

definition effective_undone :: "string list \<Rightarrow> migration list \<Rightarrow> string list" where
  "effective_undone undone applied =
     filter (\<lambda>v. \<not> reapplied (dget_or (latest_successful_ranks applied) v (rank_state 0 0))) undone"

definition all_scripts_of :: "catalog \<Rightarrow> migration list" where
  "all_scripts_of c = concat (map snd c)"

definition compute_pending_migrations ::
  "catalog \<Rightarrow> history_analysis \<Rightarrow> migration list \<Rightarrow> plan_error + migration list" where
  "compute_pending_migrations c h applied =
     pending_loop (ha_executed_scripts h) (ha_executed_versions h)
       (effective_undone (ha_undone h) applied)
       (repeatable_runs (all_scripts_of c) applied) (all_scripts_of c)"

subsection \<open>Resolved marks and checksum changes\<close>

definition mark_applied :: "migration list option \<Rightarrow> migration \<Rightarrow> migration" where
  "mark_applied scripts m =
     (case scripts of
        None \<Rightarrow> m\<lparr>resolved := True\<rparr>
      | Some ss \<Rightarrow>
          let names = present_names (filter (\<lambda>s. script_name s \<noteq> []) ss) in
          m\<lparr>resolved := (script_name m = [] \<or> script_name m \<in> set names
                          \<or> path_name (script_name m) \<in> set names)\<rparr>)"

definition mark_pending :: "migration list \<Rightarrow> migration \<Rightarrow> migration" where
  "mark_pending pending m = (if m \<in> set pending then m\<lparr>resolved := True\<rparr> else m)"

definition basename_checksums :: "(string, int) dict \<Rightarrow> (string, int) dict" where
  "basename_checksums cs = fold (\<lambda>(n, k) d. dsetdefault d (path_name n) k) cs []"

definition lookup_checksum :: "(string, int) dict \<Rightarrow> string \<Rightarrow> int option" where
  "lookup_checksum cs name =
     (case dget cs name of Some k \<Rightarrow> Some k
      | None \<Rightarrow> (case dget cs (path_name name) of Some k \<Rightarrow> Some k
      | None \<Rightarrow> dget (basename_checksums cs) (path_name name)))"

definition determine_checksum_changes :: "migration list \<Rightarrow> (string, int) dict \<Rightarrow> checksum_change list" where
  "determine_checksum_changes pending previous =
     List.map_filter (\<lambda>m.
       if mtype m \<noteq> REPEATABLE then None
       else case (checksum m, lookup_checksum previous (script_name m)) of
         (Some k, Some p) \<Rightarrow>
           if k \<noteq> 0 \<and> p \<noteq> 0 \<and> checksums_differ p k
           then Some \<lparr>cc_script = script_name m, cc_previous = p, cc_current = k\<rparr> else None
       | _ \<Rightarrow> None) pending"

subsection \<open>Entries\<close>

definition is_failed_status :: "string \<Rightarrow> bool" where
  "is_failed_status s \<longleftrightarrow> starts_with (str_upper s) ''FAILED''"

definition build_applied_entries ::
  "migration list \<Rightarrow> analysis_context \<Rightarrow> migration_entry list \<times> migration_entry list" where
  "build_applied_entries applied c =
     (let entries = map (\<lambda>m. entry_from_migration m (display_value (determine_state m c))) applied
      in (entries, filter (\<lambda>e. me_status e \<noteq> [] \<and> is_failed_status (me_status e)
                               \<or> me_status e = display_value NeedsRepair) entries))"

definition without_undone :: "migration list \<Rightarrow> string list \<Rightarrow> migration list" where
  "without_undone applied undone =
     filter (\<lambda>m. type_name (mtype m) \<notin> set VERSIONED_SCRIPT_TYPES \<or> version_str m \<notin> set undone) applied"

subsection \<open>The state\<close>

record migration_state =
  ms_current_version :: "string option"
  ms_baseline_version :: "string option"
  ms_applied :: "migration_entry list"
  ms_failed :: "migration_entry list"
  ms_undone_versions :: "string list"
  ms_deleted_scripts :: "string list"
  ms_checksum_changes :: "checksum_change list"
  ms_applied_objects :: "migration list"
  ms_all_applied_objects :: "migration list"
  ms_catalog :: "(migration \<times> eligibility) list"
  ms_failed_objects :: "migration list"
  ms_executed_scripts :: "string list"
  ms_repeatable_checksums :: "(string, int) dict"
  ms_repeatable_runs :: "(string, repeatable_run) dict"
  ms_checksum_drift :: "checksum_drift list"
  ms_missing_applied :: "migration list"
  ms_resolved_objects :: "migration list option"
  ms_grouped_objects :: "catalog option"

definition pending_objects :: "migration_state \<Rightarrow> migration list" where
  "pending_objects st = map fst (ms_catalog st)"

definition pending_entries :: "migration_state \<Rightarrow> migration_entry list" where
  "pending_entries st =
     map (\<lambda>(m, e). entry_from_migration m (display_value (eligibility_display e))) (ms_catalog st)"

definition has_pending :: "migration_state \<Rightarrow> bool" where
  "has_pending st \<longleftrightarrow> list_ex (\<lambda>(m, e). e = PENDING) (ms_catalog st)"

definition executable_pending_objects :: "migration_state \<Rightarrow> migration list" where
  "executable_pending_objects st = map fst (filter (\<lambda>(m, e). e = PENDING) (ms_catalog st))"

text \<open>Where the scripts are: directory, recursion, additional directories, settings by directory.\<close>

record script_source =
  src_dir :: string
  src_recursive :: bool
  src_additional :: "string list"
  src_recursive_map :: "(string \<times> bool) list"

definition load_source :: "fs \<Rightarrow> script_source \<Rightarrow> warn_state \<Rightarrow> script_error + (catalog \<times> warn_state)" where
  "load_source f src w =
     load_migration_scripts f (src_dir src) (src_recursive src) (src_additional src)
       (src_recursive_map src) w"

definition sorted_set :: "string list \<Rightarrow> string list" where
  "sorted_set xs = sorted_list_of_set (set xs)"

text \<open>\<open>assemble_state\<close> is \<open>build_state\<close> once the catalog is there; without a scripts directory there
  is none.\<close>

definition assemble_state ::
  "migration list \<Rightarrow> analysis_context \<Rightarrow> catalog option \<Rightarrow> migration list \<Rightarrow> migration_state" where
  "assemble_state applied c scripts pending =
     (let h = analyse_history applied c;
          listed = map_option catalog_list scripts;
          runs = (case scripts of None \<Rightarrow> [] | Some cat \<Rightarrow> repeatable_runs (all_scripts_of cat) applied);
          drift = (case scripts of None \<Rightarrow> [] | Some cat \<Rightarrow> find_checksum_drift (all_scripts_of cat) applied);
          marked = map (mark_applied listed) applied;
          pending' = map (mark_pending pending) pending;
          changes = determine_checksum_changes pending' (ha_repeatable_checksums h);
          c' = c\<lparr>ac_pending_repeatable :=
                   concat (map (\<lambda>ch. if cc_script ch \<noteq> [] then [cc_script ch, path_name (cc_script ch)] else [])
                     changes),
                 ac_repeatable_checksums := ha_repeatable_checksums h\<rparr>;
          (applied_entries, failed_entries) = build_applied_entries marked c';
          undone = filter (\<lambda>v. v \<notin> set (ha_reapplied h)) (ha_undone h);
          applied_objects = without_undone marked undone;
          objects = map_option (map (mark_pending pending)) listed
      in \<lparr>ms_current_version = ac_current c, ms_baseline_version = ac_baseline c,
          ms_applied = applied_entries, ms_failed = failed_entries,
          ms_undone_versions = sorted_set undone, ms_deleted_scripts = sorted_set (ha_deleted h),
          ms_checksum_changes = changes, ms_applied_objects = applied_objects,
          ms_all_applied_objects = marked,
          ms_catalog = map (\<lambda>m. (m, determine_pending_eligibility m c')) pending',
          ms_failed_objects = map (mark_applied listed) (ha_failed h),
          ms_executed_scripts = sorted_set (ha_executed_scripts h),
          ms_repeatable_checksums = ha_repeatable_checksums h, ms_repeatable_runs = runs,
          ms_checksum_drift = drift,
          ms_missing_applied = (case objects of None \<Rightarrow> [] | Some os \<Rightarrow> missing_applied os applied_objects),
          ms_resolved_objects = objects,
          ms_grouped_objects = map_option (map (map_prod id (map (mark_pending pending)))) scripts\<rparr>)"

definition lift_state :: "state_error + 'a \<Rightarrow> plan_error + 'a" where
  "lift_state r = (case r of Inl e \<Rightarrow> Inl (PState e) | Inr a \<Rightarrow> Inr a)"

definition build_state ::
  "fs \<Rightarrow> script_source option \<Rightarrow> string option \<Rightarrow> migration list \<Rightarrow> warn_state
   \<Rightarrow> plan_error + (migration_state \<times> warn_state)" where
  "build_state f source target applied w =
     rbind (lift_state (build_analysis_context target applied)) (\<lambda>c.
       (case source of
          None \<Rightarrow> Inr (assemble_state applied c None [], w)
        | Some src \<Rightarrow>
            (case load_source f src w of
               Inl e \<Rightarrow> Inl (PState (StateLoadError e))
             | Inr (cat, w') \<Rightarrow>
                 rbind (compute_pending_migrations cat (analyse_history applied c) applied) (\<lambda>pending.
                   Inr (assemble_state applied c (Some cat) pending, w')))))"

subsection \<open>What counts as executed\<close>

definition failure_recorded :: "migration \<Rightarrow> bool" where
  "failure_recorded r \<longleftrightarrow> mtype r \<noteq> DELETE \<and> failed_row r"

definition executed_version :: "migration list \<Rightarrow> string \<Rightarrow> bool" where
  "executed_version applied v \<longleftrightarrow>
     (list_ex (applies_row v) applied \<and> \<not> inactive_version applied v)
     \<or> list_ex (\<lambda>r. failure_recorded r \<and> has_version r \<and> version_str r = v) applied"

text \<open>The rows whose name counts as executed: successful repeatables, the latest successful row of an
  executed version, and failures.\<close>

definition counts_by_name :: "migration list \<Rightarrow> migration \<Rightarrow> bool" where
  "counts_by_name applied r \<longleftrightarrow>
     (mtype r = REPEATABLE \<and> succeeded r)
     \<or> (applies_row (version_str r) r \<and> \<not> inactive_version applied (version_str r)
         \<and> r = most_recent (filter (applies_row (version_str r)) applied))
     \<or> (failure_recorded r \<and> script_name r \<noteq> [])"

definition executed_script :: "migration list \<Rightarrow> string \<Rightarrow> bool" where
  "executed_script applied n \<longleftrightarrow>
     list_ex (\<lambda>r. counts_by_name applied r \<and> n \<in> set (with_basename (script_name r))
              \<or> mtype r = CALLBACK \<and> succeeded r \<and> n = script_name r) applied"

lemma applies_row_self: "applies_row v r \<Longrightarrow> version_str r = v \<and> v \<noteq> []"
  by (auto simp: applies_row_def has_version_cases)

lemma analyse_rows:
  fixes applied
  defines "st \<equiv> fold analyse_row applied \<lparr>al_repeatable = [], al_executed = [], al_failed = [], al_groups = []\<rparr>"
  shows "al_failed st = filter failure_recorded applied"
    and "dict_wf (al_groups st)"
    and "dget_or (al_groups st) v [] = filter (applies_row v) applied"
    and "[] \<notin> snd ` set (al_groups st)"
    and "set (al_executed st) = \<Union> (set ` with_basename ` script_name ` {r \<in> set applied. mtype r = REPEATABLE \<and> succeeded r})
           \<union> script_name ` {r \<in> set applied. mtype r = CALLBACK \<and> succeeded r}"
  unfolding st_def
proof (induction applied rule: rev_induct)
  case (snoc r rows)
  let ?st = "fold analyse_row rows \<lparr>al_repeatable = [], al_executed = [], al_failed = [], al_groups = []\<rparr>"
  have f: "al_failed (analyse_row r ?st) = al_failed ?st @ (if failure_recorded r then [r] else [])"
    by (auto simp: analyse_row_def Let_def failure_recorded_def)
  have g: "al_groups (analyse_row r ?st) =
      (if applies_row (version_str r) r then dappend (al_groups ?st) (version_str r) [r] else al_groups ?st)"
    by (auto simp: analyse_row_def Let_def applies_row_def)
  have e: "set (al_executed (analyse_row r ?st)) = set (al_executed ?st)
      \<union> (if mtype r = REPEATABLE \<and> succeeded r then set (with_basename (script_name r)) else {})
      \<union> (if mtype r = CALLBACK \<and> succeeded r then {script_name r} else {})"
    by (auto simp: analyse_row_def Let_def)
  have v: "applies_row v r \<Longrightarrow> version_str r = v" for v
    by (simp add: applies_row_def)
  have ne: "[] \<notin> snd ` set d \<Longrightarrow> [] \<notin> snd ` set (dset d k (xs @ [x]))" for d :: "(string, migration list) dict" and k xs x
    by (induction d k "xs @ [x]" rule: dset.induct) auto
  { case 1 show ?case using snoc(1) f by simp }
  { case 2 show ?case using snoc(2) g by simp }
  { case 3
    show ?case
    proof (cases "applies_row v r")
      case True
      with v [OF True] snoc(3) g show ?thesis by simp
    next
      case False
      then have "applies_row (version_str r) r \<Longrightarrow> version_str r \<noteq> v" by auto
      with False snoc(3) g show ?thesis by auto
    qed }
  { case 4 show ?case using snoc(4) g ne by (auto simp: dappend_def) }
  { case 5 show ?case using snoc(5) e by auto }
qed simp_all

lemma mem_latest_ranks: "(v, s) \<in> set (latest_successful_ranks rows) \<longleftrightarrow> dget (latest_successful_ranks rows) v = Some s"
proof -
  obtain vs us where f: "fold rank_step rows ([], []) = (vs, us)" by fastforce
  show ?thesis unfolding latest_successful_ranks_def f prod.case dget_def map_of_keyed by auto
qed

lemma get_undone_mem: "v \<in> set (get_undone_versions ms) \<longleftrightarrow> v \<in> set (undone_versions ms)"
  by (auto simp: get_undone_versions_def undone_versions_def)

lemma get_reapplied_mem:
  "v \<in> set (get_reapplied_versions ms) \<longleftrightarrow> reapplied (dget_or (latest_successful_ranks ms) v (rank_state 0 0))"
proof -
  have "v \<in> set (get_reapplied_versions ms) \<longleftrightarrow> (\<exists>s. dget (latest_successful_ranks ms) v = Some s \<and> reapplied s)"
    by (force simp: get_reapplied_versions_def mem_latest_ranks [symmetric])
  moreover have "\<not> reapplied (rank_state 0 0)" by (simp add: reapplied_def rank_state_def)
  ultimately show ?thesis by (auto simp: dget_or_def split: option.splits)
qed

lemma inactive_version_set:
  assumes "set ms = set ns" shows "inactive_version ms v = inactive_version ns v"
proof -
  have "set (filter P ms) = set (filter P ns)" for P using assms by simp
  then have "latest_rank P ms = latest_rank P ns" "filter P ms = [] \<longleftrightarrow> filter P ns = []" for P
    by (simp_all only: latest_rank_def set_empty [symmetric])
  then show ?thesis by (simp only: inactive_version_iff)
qed

lemma context_fields:
  assumes "build_analysis_context target applied = Inr c"
  shows "v \<in> set (ac_undone c) \<and> v \<notin> set (ac_reapplied c) \<longleftrightarrow> inactive_version applied v"
    and "v \<in> set (ac_undone c) \<longleftrightarrow> v \<in> set (undone_versions applied)"
    and "ac_target c = target"
proof -
  from assms obtain ms where ms: "sort_applied_migrations applied = Inr ms"
      "ac_undone c = get_undone_versions ms" "ac_reapplied c = get_reapplied_versions ms" "ac_target c = target"
    by (auto simp: build_analysis_context_def)
  from ms(1) have s: "set ms = set applied"
    by (auto simp: sort_applied_migrations_def split: if_splits)
  show "v \<in> set (ac_undone c) \<and> v \<notin> set (ac_reapplied c) \<longleftrightarrow> inactive_version applied v"
    unfolding ms(2,3) get_undone_mem get_reapplied_mem inactive_version_set [OF s, symmetric]
    by (simp add: inactive_version_def)
  show "v \<in> set (ac_undone c) \<longleftrightarrow> v \<in> set (undone_versions applied)"
    unfolding ms(2) get_undone_mem using s by (simp add: undone_versions_def)
  show "ac_target c = target" by (rule ms(4))
qed

lemma most_recent_in: "ms \<noteq> [] \<Longrightarrow> most_recent ms \<in> set ms"
  unfolding most_recent_def by (metis hd_in_set set_empty set_sorted_by_desc)

lemma groups_of_rows:
  fixes applied
  defines "gs \<equiv> al_groups (fold analyse_row applied \<lparr>al_repeatable = [], al_executed = [], al_failed = [], al_groups = []\<rparr>)"
  shows "(v, rs) \<in> set gs \<longleftrightarrow> rs \<noteq> [] \<and> rs = filter (applies_row v) applied"
proof -
  note a = analyse_rows(2-4) [of applied, folded gs_def]
  have "(v, rs) \<in> set gs \<longleftrightarrow> dget gs v = Some rs" using a(1) by (rule dict_wf_mem_iff)
  moreover have "dget gs v = Some rs \<Longrightarrow> rs \<noteq> []"
    using a(1,3) dict_wf_mem_iff by force
  ultimately show ?thesis using a(2) [of v] by (cases "dget gs v") (auto simp: dget_or_def)
qed

text \<open>The set of undone versions the context gives is the one of the history.\<close>

definition context_of :: "migration list \<Rightarrow> analysis_context \<Rightarrow> bool" where
  "context_of applied c \<longleftrightarrow>
     (\<forall>v. (v \<in> set (ac_undone c) \<and> v \<notin> set (ac_reapplied c) \<longleftrightarrow> inactive_version applied v)
        \<and> (v \<in> set (ac_undone c) \<longleftrightarrow> v \<in> set (undone_versions applied)))"

lemma context_of_build: "build_analysis_context target applied = Inr c \<Longrightarrow> context_of applied c"
  unfolding context_of_def using context_fields(1,2) by blast

lemma executed_group_iff: "context_of applied c \<Longrightarrow>
   executed_group (ac_undone c) (ac_reapplied c) g \<longleftrightarrow> \<not> inactive_version applied (fst g)"
  unfolding executed_group_def context_of_def by blast

lemma executed_versions_iff:
  assumes "context_of applied c"
  shows "v \<in> set (ha_executed_versions (analyse_history applied c)) \<longleftrightarrow> executed_version applied v"
proof -
  have "v \<in> fst ` {g \<in> set (al_groups (fold analyse_row applied \<lparr>al_repeatable = [], al_executed = [],
        al_failed = [], al_groups = []\<rparr>)). \<not> inactive_version applied (fst g)}
      \<longleftrightarrow> (\<exists>rs. (v, rs) \<in> set (al_groups (fold analyse_row applied \<lparr>al_repeatable = [], al_executed = [],
        al_failed = [], al_groups = []\<rparr>)) \<and> \<not> inactive_version applied v)"
    by force
  also have "\<dots> \<longleftrightarrow> filter (applies_row v) applied \<noteq> [] \<and> \<not> inactive_version applied v"
    unfolding groups_of_rows by blast
  finally have groups: "v \<in> fst ` {g \<in> set (al_groups (fold analyse_row applied \<lparr>al_repeatable = [],
        al_executed = [], al_failed = [], al_groups = []\<rparr>)). \<not> inactive_version applied (fst g)}
      \<longleftrightarrow> filter (applies_row v) applied \<noteq> [] \<and> \<not> inactive_version applied v" .
  show ?thesis
    using groups
    by (auto simp: analyse_history_def Let_def executed_version_def executed_group_iff [OF assms]
        analyse_rows(1) list_ex_iff filter_empty_conv)
qed

lemma mem_concat_filter:
  "n \<in> set (concat (map f (filter P gs))) \<longleftrightarrow> (\<exists>g \<in> set gs. P g \<and> n \<in> set (f g))"
  unfolding set_concat set_map set_filter by blast

lemma mem_concat_if:
  "n \<in> set (concat (map (\<lambda>m. if Q m then f m else []) ms)) \<longleftrightarrow> (\<exists>m \<in> set ms. Q m \<and> n \<in> set (f m))"
  by (induction ms) auto

lemma executed_scripts_iff:
  assumes "context_of applied c"
  shows "n \<in> set (ha_executed_scripts (analyse_history applied c)) \<longleftrightarrow> executed_script applied n"
proof -
  let ?st = "fold analyse_row applied \<lparr>al_repeatable = [], al_executed = [], al_failed = [], al_groups = []\<rparr>"
  let ?recent = "\<lambda>r. applies_row (version_str r) r \<and> \<not> inactive_version applied (version_str r)
      \<and> r = most_recent (filter (applies_row (version_str r)) applied)"
  have "(\<exists>g \<in> set (al_groups ?st). \<not> inactive_version applied (fst g)
        \<and> n \<in> set (with_basename (script_name (most_recent (snd g)))))
      \<longleftrightarrow> (\<exists>r \<in> set applied. ?recent r \<and> n \<in> set (with_basename (script_name r)))" (is "?L \<longleftrightarrow> ?R")
  proof
    assume ?L
    then obtain v where g: "filter (applies_row v) applied \<noteq> []" "\<not> inactive_version applied v"
        "n \<in> set (with_basename (script_name (most_recent (filter (applies_row v) applied))))"
      by (auto simp: groups_of_rows)
    let ?r = "most_recent (filter (applies_row v) applied)"
    from most_recent_in [OF g(1)] have m: "?r \<in> set applied" "applies_row v ?r" by auto
    then have v: "version_str ?r = v" by (simp add: applies_row_def)
    show ?R by (rule bexI [of _ ?r]) (use g m v in simp_all)
  next
    assume ?R
    then obtain r where r: "r \<in> set applied" "?recent r" "n \<in> set (with_basename (script_name r))" by blast
    then have "(version_str r, filter (applies_row (version_str r)) applied) \<in> set (al_groups ?st)"
      by (auto simp: groups_of_rows filter_empty_conv)
    with r show ?L by force
  qed
  moreover have "n \<in> set (ha_executed_scripts (analyse_history applied c)) \<longleftrightarrow>
      n \<in> set (al_executed ?st)
      \<or> (\<exists>g \<in> set (al_groups ?st). \<not> inactive_version applied (fst g)
          \<and> n \<in> set (with_basename (script_name (most_recent (snd g)))))
      \<or> (\<exists>r \<in> set (al_failed ?st). script_name r \<noteq> [] \<and> n \<in> set (with_basename (script_name r)))"
    unfolding analyse_history_def Let_def history_analysis.simps set_append Un_iff mem_concat_filter
      mem_concat_if executed_group_iff [OF assms] by (rule refl)
  moreover have "n \<in> set (al_executed ?st) \<longleftrightarrow>
      (\<exists>r \<in> set applied. mtype r = REPEATABLE \<and> succeeded r \<and> n \<in> set (with_basename (script_name r)))
      \<or> (\<exists>r \<in> set applied. mtype r = CALLBACK \<and> succeeded r \<and> n = script_name r)"
    unfolding analyse_rows(5) by blast
  moreover have "(\<exists>r \<in> set (al_failed ?st). script_name r \<noteq> [] \<and> n \<in> set (with_basename (script_name r)))
      \<longleftrightarrow> (\<exists>r \<in> set applied. failure_recorded r \<and> script_name r \<noteq> [] \<and> n \<in> set (with_basename (script_name r)))"
    by (auto simp: analyse_rows(1))
  ultimately show ?thesis
    unfolding executed_script_def counts_by_name_def list_ex_iff by blast
qed

lemma effective_undone_iff:
  assumes "context_of applied c"
  shows "v \<in> set (effective_undone (ha_undone (analyse_history applied c)) applied) \<longleftrightarrow> inactive_version applied v"
proof -
  have "ha_undone (analyse_history applied c) = ac_undone c" by (simp add: analyse_history_def Let_def)
  then show ?thesis
    using assms by (simp add: effective_undone_def inactive_version_def context_of_def)
qed

subsection \<open>Which scripts are unresolved\<close>

text \<open>A versioned script is unresolved when its version is undone and not applied again, or when
  neither its version nor its name counts as executed.\<close>

definition versioned_unresolved :: "migration list \<Rightarrow> migration \<Rightarrow> bool" where
  "versioned_unresolved applied m \<longleftrightarrow>
     (has_version m \<and> inactive_version applied (version_str m))
     \<or> \<not> (has_version m \<and> executed_version applied (version_str m)
          \<or> executed_script applied (script_name m) \<or> executed_script applied (path_name (script_name m)))"

definition unresolved_script :: "migration list \<Rightarrow> migration list \<Rightarrow> migration \<Rightarrow> bool" where
  "unresolved_script applied scripts m \<longleftrightarrow>
     (if versioned m then versioned_unresolved applied m
      else if mtype m = REPEATABLE
      then (case dget (repeatable_runs scripts applied) (script_name m) of
              None \<Rightarrow> False | Some r \<Rightarrow> run_status r \<in> {RNEW, RCHANGED, RFAILED_CHANGED})
      else mtype m = UNDO_SQL)"

lemma is_versioned_pending_iff:
  assumes "context_of applied c"
  shows "is_versioned_pending (script_name m) (version m) (ha_executed_scripts (analyse_history applied c))
      (ha_executed_versions (analyse_history applied c))
      (effective_undone (ha_undone (analyse_history applied c)) applied)
    \<longleftrightarrow> versioned_unresolved applied m"
proof -
  have t: "truthy (version m) \<longleftrightarrow> has_version m" "has_version m \<Longrightarrow> the (version m) = version_str m"
    by (auto simp: truthy_def has_version_def version_str_def split: option.splits)
  then show ?thesis
    unfolding is_versioned_pending_def Let_def versioned_unresolved_def
    by (auto simp: executed_versions_iff [OF assms] executed_scripts_iff [OF assms]
        effective_undone_iff [OF assms])
qed

lemma pending_loop_filter:
  assumes "\<And>m. m \<in> set ms \<Longrightarrow> mtype m = REPEATABLE \<Longrightarrow> dget runs (script_name m) \<noteq> None"
  shows "pending_loop es ev un runs ms = Inr (filter (\<lambda>m.
      if versioned m then is_versioned_pending (script_name m) (version m) es ev un
      else if mtype m = REPEATABLE
      then (case dget runs (script_name m) of None \<Rightarrow> False
            | Some r \<Rightarrow> run_status r \<in> set PENDING_REPEATABLE_STATUSES)
      else mtype m = UNDO_SQL) ms)"
  using assms
proof (induction ms)
  case (Cons m ms)
  then have IH: "pending_loop es ev un runs ms = Inr (filter (\<lambda>m.
      if versioned m then is_versioned_pending (script_name m) (version m) es ev un
      else if mtype m = REPEATABLE
      then (case dget runs (script_name m) of None \<Rightarrow> False
            | Some r \<Rightarrow> run_status r \<in> set PENDING_REPEATABLE_STATUSES)
      else mtype m = UNDO_SQL) ms)" by simp
  show ?case
  proof (cases "mtype m = REPEATABLE")
    case True
    with Cons.prems [of m] obtain r where "dget runs (script_name m) = Some r" by auto
    with True show ?thesis by (simp add: IH is_repeatable_pending_def)
  next
    case False
    then show ?thesis by (simp add: IH del: rbind_Inr_iff)
  qed
qed simp

lemma compute_pending_filter:
  assumes "context_of applied c"
  shows "compute_pending_migrations cat (analyse_history applied c) applied
    = Inr (filter (unresolved_script applied (all_scripts_of cat)) (all_scripts_of cat))"
proof -
  have "dget (repeatable_runs (all_scripts_of cat) applied) (script_name m) \<noteq> None"
    if "m \<in> set (all_scripts_of cat)" "mtype m = REPEATABLE" for m
  proof
    assume "dget (repeatable_runs (all_scripts_of cat) applied) (script_name m) = None"
    with dget_repeatable_runs [where scripts = "all_scripts_of cat" and history = applied and n = "script_name m"]
    have "\<not> list_ex (\<lambda>s. mtype s = REPEATABLE \<and> script_name s = script_name m) (all_scripts_of cat)" by simp
    with that show False by (auto simp: list_ex_iff)
  qed
  note key = this
  show ?thesis
    unfolding compute_pending_migrations_def
    by (subst pending_loop_filter, erule (1) key)
      (simp only: is_versioned_pending_iff [OF assms] unresolved_script_def [abs_def]
        PENDING_REPEATABLE_STATUSES_def list.set)
qed

definition mark_resolved :: "migration \<Rightarrow> migration" where
  "mark_resolved m = m\<lparr>resolved := True\<rparr>"

text \<open>Eligible to run: repeatables always, versioned scripts between the baseline and the target.\<close>

definition within_bounds :: "string option \<Rightarrow> string option \<Rightarrow> migration \<Rightarrow> bool" where
  "within_bounds baseline target m \<longleftrightarrow>
     \<not> (has_version m \<and> truthy baseline \<and> vcmp (version_str m) (the baseline) \<le> 0)
     \<and> \<not> (has_version m \<and> truthy target \<and> vcmp (version_str m) (the target) > 0)"

definition eligible_script :: "string option \<Rightarrow> string option \<Rightarrow> migration \<Rightarrow> bool" where
  "eligible_script baseline target m \<longleftrightarrow>
     mtype m = REPEATABLE \<or> (mtype m \<noteq> UNDO_SQL \<and> within_bounds baseline target m)"

lemma eligible_iff:
  "determine_pending_eligibility m c = PENDING \<longleftrightarrow> eligible_script (ac_baseline c) (ac_target c) m"
  by (auto simp: determine_pending_eligibility_def eligible_script_def within_bounds_def)

lemma assemble_state_fields:
  "pending_objects (assemble_state applied c scripts pending) = map (mark_pending pending) pending"
  "ms_baseline_version (assemble_state applied c scripts pending) = ac_baseline c"
  "ms_current_version (assemble_state applied c scripts pending) = ac_current c"
  "executable_pending_objects (assemble_state applied c scripts pending)
     = filter (eligible_script (ac_baseline c) (ac_target c)) (map (mark_pending pending) pending)"
  "ms_all_applied_objects (assemble_state applied c scripts pending)
     = map (mark_applied (map_option catalog_list scripts)) applied"
  "ms_undone_versions (assemble_state applied c scripts pending)
     = sorted_set (filter (\<lambda>v. v \<notin> set (ac_reapplied c)) (ac_undone c))"
  "ms_repeatable_runs (assemble_state applied c (Some cat) pending)
     = repeatable_runs (all_scripts_of cat) applied"
  "ms_resolved_objects (assemble_state applied c scripts pending)
     = map_option (map (mark_pending pending)) (map_option catalog_list scripts)"
  "ms_grouped_objects (assemble_state applied c scripts pending)
     = map_option (map (map_prod id (map (mark_pending pending)))) scripts"
  by (simp_all add: assemble_state_def Let_def build_applied_entries_def pending_objects_def comp_def
      executable_pending_objects_def filter_map eligible_iff analyse_history_def)

lemma mark_pending_self: "map (mark_pending pending) pending = map mark_resolved pending"
  by (simp add: mark_pending_def mark_resolved_def)

lemma build_state_cases:
  "case build_state f source target applied w of
     Inl e \<Rightarrow> (e = PState RankTypeError \<and> 2 \<le> length applied \<and> list_ex (\<lambda>m. installed_rank m = None) applied)
       \<or> (\<exists>src x. source = Some src \<and> e = PState (StateLoadError x) \<and> load_source f src w = Inl x)
   | Inr (st, w') \<Rightarrow> (\<exists>c. build_analysis_context target applied = Inr c \<and>
       (case source of
          None \<Rightarrow> st = assemble_state applied c None [] \<and> w' = w
        | Some src \<Rightarrow> (\<exists>cat. load_source f src w = Inr (cat, w') \<and>
            st = assemble_state applied c (Some cat)
              (filter (unresolved_script applied (all_scripts_of cat)) (all_scripts_of cat)))))"
proof (cases "build_analysis_context target applied")
  case (Inl e)
  then have "e = RankTypeError \<and> 2 \<le> length applied \<and> list_ex (\<lambda>m. installed_rank m = None) applied"
    by (auto simp: build_analysis_context_def rbind_Inl_iff sort_applied_migrations_def split: if_splits)
  with Inl show ?thesis by (simp add: build_state_def lift_state_def)
next
  case (Inr c)
  note pending = compute_pending_filter [OF context_of_build [OF Inr]]
  show ?thesis
  proof (cases source)
    case None
    with Inr show ?thesis by (simp add: build_state_def lift_state_def)
  next
    case (Some src)
    with Inr pending show ?thesis
      by (auto simp: build_state_def lift_state_def split: sum.splits prod.splits)
  qed
qed

text \<open>
  C16. Building the state fails only when ranks cannot be compared or the scripts cannot be loaded.
  Otherwise its pending objects are, in catalog order and marked as resolved, exactly the unresolved
  scripts: undo scripts, repeatables whose latest run asks for one, and versioned scripts that are
  undone or not executed, whatever the baseline and the target; the executable ones are those
  between the baseline and the target.
\<close>

theorem build_state_pending:
  "case build_state f (Some src) target applied w of
     Inl e \<Rightarrow> (e = PState RankTypeError \<and> 2 \<le> length applied \<and> list_ex (\<lambda>m. installed_rank m = None) applied)
       \<or> (\<exists>x. e = PState (StateLoadError x) \<and> load_source f src w = Inl x)
   | Inr (st, w') \<Rightarrow> (\<exists>cat. load_source f src w = Inr (cat, w')
       \<and> pending_objects st
           = map mark_resolved (filter (unresolved_script applied (all_scripts_of cat)) (all_scripts_of cat))
       \<and> executable_pending_objects st
           = filter (eligible_script (ms_baseline_version st) target) (pending_objects st))"
proof -
  have t: "build_analysis_context target applied = Inr c \<Longrightarrow> ac_target c = target" for c
    by (rule context_fields(3))
  show ?thesis
    using build_state_cases [where f = f and source = "Some src" and target = target and applied = applied and w = w]
    by (cases "build_state f (Some src) target applied w")
      (auto simp: assemble_state_fields mark_pending_self t)
qed

subsection \<open>Pending follows the history\<close>

lemma inactive_append_other:
  assumes "\<not> applies_row v r" and "\<not> undoes_row v r"
  shows "inactive_version (rows @ [r]) v = inactive_version rows v"
  using assms by (simp add: inactive_version_iff)

lemma executed_not_unresolved:
  "has_version m \<Longrightarrow> \<not> inactive_version applied (version_str m) \<Longrightarrow> executed_version applied (version_str m)
   \<Longrightarrow> \<not> versioned_unresolved applied m"
  by (simp add: versioned_unresolved_def)



end
