(* ===== verification/Plans.thy ===== *)
theory Plans
  imports StateManager
begin

text \<open>
  What the commands would do, decided from the state before anything runs: \<^verbatim>\<open>state/migrate_plan.py\<close>
  (selection and strict order) and \<^verbatim>\<open>state/repair_plan.py\<close> (the ordered fixes).
\<close>

subsection \<open>Migrate\<close>

datatype migrate_error =
    MState plan_error
  | StrictModeError string "string option"

record migrate_plan =
  mp_state :: migration_state
  mp_current_version :: "string option"
  mp_pending :: "migration list"
  mp_warnings :: "string list"

record selection =
  sel_tags :: filter_value
  sel_exclude_tags :: filter_value
  sel_versions :: filter_value
  sel_exclude_versions :: filter_value

definition select_by :: "selection \<Rightarrow> string option \<Rightarrow> migration list \<Rightarrow> migration list" where
  "select_by s target ms =
     select_migrations ms target (sel_tags s) (sel_exclude_tags s) (sel_versions s) (sel_exclude_versions s)"

text \<open>Strict mode raises at the first entry (the model's exception carries its script and the current
  version); otherwise every entry is a warning.\<close>

definition enforce_strict_ordering ::
  "migration list \<Rightarrow> string option \<Rightarrow> bool \<Rightarrow> migrate_error + string list" where
  "enforce_strict_ordering ms current strict =
     (case out_of_order ms current of
        [] \<Rightarrow> Inr []
      | e # es \<Rightarrow>
          if strict then Inl (StrictModeError (script_name (oo_migration e)) current)
          else Inr (map (\<lambda>x. script_name (oo_migration x)) (e # es)))"

definition plan_migrate ::
  "fs \<Rightarrow> script_source option \<Rightarrow> string option \<Rightarrow> selection \<Rightarrow> bool \<Rightarrow> migration list \<Rightarrow> warn_state
   \<Rightarrow> migrate_error + (migrate_plan \<times> warn_state)" where
  "plan_migrate f source target sel strict applied w =
     (case build_state f source target applied w of
        Inl e \<Rightarrow> Inl (MState e)
      | Inr (st, w') \<Rightarrow>
          let current = ms_current_version st;
              selected = select_by sel None (executable_pending_objects st)
          in rbind (enforce_strict_ordering selected current strict) (\<lambda>ws.
               Inr (\<lparr>mp_state = st, mp_current_version = current, mp_pending = selected,
                     mp_warnings = ws\<rparr>, w')))"

subsection \<open>Repair\<close>

datatype repair_kind = CHECKSUM_MISMATCH | MISSING_SCRIPT | FAILED_MIGRATION

text \<open>The details of a detected repair (the dictionary of the code, with the keys its kind has).\<close>

record repair_details =
  rd_type :: repair_kind
  rd_script :: string
  rd_version :: "string option"
  rd_description :: "string option"
  rd_old_checksum :: "int option"
  rd_new_checksum :: "int option"
  rd_original_type :: "migration_type option"

record repair_action =
  ra_kind :: repair_kind
  ra_script :: string
  ra_details :: repair_details

datatype repair_error = RState plan_error | RepairSafetyError nat string

definition checksum_repair :: "string \<Rightarrow> int option \<Rightarrow> int option \<Rightarrow> repair_details" where
  "checksum_repair n old new =
     \<lparr>rd_type = CHECKSUM_MISMATCH, rd_script = n, rd_version = None, rd_description = None,
      rd_old_checksum = old, rd_new_checksum = new, rd_original_type = None\<rparr>"

definition detect_checksum_changes :: "migration_state \<Rightarrow> repair_details list" where
  "detect_checksum_changes st =
     map (\<lambda>c. checksum_repair (cc_script c) (Some (cc_previous c)) (Some (cc_current c)))
       (ms_checksum_changes st)"

definition missing_repair :: "migration \<Rightarrow> repair_details" where
  "missing_repair m =
     \<lparr>rd_type = MISSING_SCRIPT, rd_script = script_name m, rd_version = version m,
      rd_description = Some (description m), rd_old_checksum = None, rd_new_checksum = None,
      rd_original_type = Some (mtype m)\<rparr>"

definition failed_repair :: "migration \<Rightarrow> repair_details" where
  "failed_repair m =
     \<lparr>rd_type = FAILED_MIGRATION, rd_script = script_name m, rd_version = version m,
      rd_description = Some (description m), rd_old_checksum = None, rd_new_checksum = None,
      rd_original_type = None\<rparr>"

definition detect_missing_migrations ::
  "migration_state \<Rightarrow> string \<Rightarrow> repair_error + repair_details list" where
  "detect_missing_migrations st dir =
     (let grouped = (case ms_grouped_objects st of None \<Rightarrow> [] | Some g \<Rightarrow> g) in
      if \<not> list_ex (\<lambda>(t, ms). ms \<noteq> []) grouped \<and> ms_missing_applied st \<noteq> []
      then Inl (RepairSafetyError (length (ms_missing_applied st)) dir)
      else Inr (map missing_repair (ms_missing_applied st)
                @ map failed_repair (filter (\<lambda>m. script_name m \<noteq> []) (ms_failed_objects st))))"

fun drift_repairs :: "string list \<Rightarrow> checksum_drift list \<Rightarrow> repair_details list" where
  "drift_repairs recorded [] = []"
| "drift_repairs recorded (d # ds) =
     (if cd_repeatable d \<or> cd_current d = None \<or> cd_script_name d \<in> set recorded
      then drift_repairs recorded ds
      else checksum_repair (cd_script_name d) (cd_applied d) (cd_current d)
             # drift_repairs (recorded @ [cd_script_name d]) ds)"

definition detect_checksum_drift :: "migration_state \<Rightarrow> repair_details list \<Rightarrow> repair_details list" where
  "detect_checksum_drift st existing = drift_repairs (map rd_script existing) (ms_checksum_drift st)"

definition is_failed_migration :: "string \<Rightarrow> migration_state \<Rightarrow> bool" where
  "is_failed_migration script st \<longleftrightarrow>
     script \<noteq> [] \<and> list_ex (\<lambda>m. script_name m = script) (ms_failed_objects st)"

fun route_repairs :: "migration_state \<Rightarrow> string list \<Rightarrow> repair_details list \<Rightarrow> repair_action list" where
  "route_repairs st removed [] = []"
| "route_repairs st removed (r # rs) =
     (let kind = (if rd_type r = CHECKSUM_MISMATCH \<and> is_failed_migration (rd_script r) st
                  then FAILED_MIGRATION else rd_type r);
          action = \<lparr>ra_kind = kind, ra_script = rd_script r, ra_details = r\<rparr>
      in if kind = FAILED_MIGRATION
         then (if rd_script r \<in> set removed then route_repairs st removed rs
               else action # route_repairs st (removed @ [rd_script r]) rs)
         else action # route_repairs st removed rs)"

record repair_plan =
  rp_state :: migration_state
  rp_actions :: "repair_action list"

definition plan_repairs ::
  "fs \<Rightarrow> script_source \<Rightarrow> migration list \<Rightarrow> warn_state \<Rightarrow> repair_error + (repair_plan \<times> warn_state)" where
  "plan_repairs f src applied w =
     (case build_state f (Some src) None applied w of
        Inl e \<Rightarrow> Inl (RState e)
      | Inr (st, w') \<Rightarrow>
          rbind (detect_missing_migrations st (src_dir src)) (\<lambda>missing.
            let found = detect_checksum_changes st @ missing;
                repairs = found @ detect_checksum_drift st found
            in Inr (\<lparr>rp_state = st, rp_actions = route_repairs st [] repairs\<rparr>, w')))"

subsection \<open>Selecting never runs anything out of bounds\<close>

lemma set_select: "set (select_by s target ms) \<subseteq> set ms"
  by (auto simp: select_by_def select_migrations_def)

definition selected :: "selection \<Rightarrow> migration \<Rightarrow> bool" where
  "selected s m \<longleftrightarrow>
     passes_filters m None (normalize_filter (sel_tags s)) (normalize_filter (sel_exclude_tags s))
       (normalize_filter (sel_versions s)) (normalize_filter (sel_exclude_versions s))"

definition late :: "string option \<Rightarrow> migration \<Rightarrow> bool" where
  "late current m \<longleftrightarrow> truthy current \<and> has_version m \<and> vcmp (version_str m) (the current) \<le> 0"

lemma out_of_order_filter:
  "out_of_order ms current
     = map (\<lambda>m. \<lparr>oo_migration = m, oo_current_version = the current\<rparr>) (filter (late current) ms)"
  by (cases "truthy current") (simp_all add: out_of_order_def late_def [abs_def])

lemma enforce_strict_ordering_spec:
  "enforce_strict_ordering ms current strict =
     (if strict \<and> list_ex (late current) ms
      then Inl (StrictModeError (script_name (hd (filter (late current) ms))) current)
      else Inr (map script_name (filter (late current) ms)))"
proof -
  have "list_ex (late current) ms \<longleftrightarrow> filter (late current) ms \<noteq> []"
    by (auto simp: list_ex_iff filter_empty_conv)
  then show ?thesis
    by (cases "filter (late current) ms")
      (auto simp: enforce_strict_ordering_def out_of_order_filter comp_def)
qed

text \<open>
  C18. Planning a migration selects, in catalog order and marked as resolved, exactly the unresolved
  scripts that are eligible between the baseline and the target and pass the filters. In strict mode
  it raises exactly when one of them has a version at or below the current version, naming the first;
  otherwise each of those is a warning and they are still selected.
\<close>

theorem plan_migrate_selection:
  "case plan_migrate f (Some src) target sel strict applied w of
     Inl (MState e) \<Rightarrow> build_state f (Some src) target applied w = Inl e
   | Inl (StrictModeError n v) \<Rightarrow> strict \<and> (case build_state f (Some src) target applied w of
        Inl e \<Rightarrow> False
      | Inr (st, w') \<Rightarrow> v = ms_current_version st
          \<and> list_ex (\<lambda>m. script_name m = n \<and> late v m \<and> selected sel m) (executable_pending_objects st))
   | Inr (p, w') \<Rightarrow> (\<exists>cat. load_source f src w = Inr (cat, w')
        \<and> mp_pending p = filter (selected sel) (filter (eligible_script (ms_baseline_version (mp_state p)) target)
            (map mark_resolved (filter (unresolved_script applied (all_scripts_of cat)) (all_scripts_of cat))))
        \<and> mp_warnings p = map script_name (filter (late (mp_current_version p)) (mp_pending p))
        \<and> \<not> (strict \<and> list_ex (late (mp_current_version p)) (mp_pending p)))"
proof (cases "build_state f (Some src) target applied w")
  case (Inl e)
  then show ?thesis by (simp add: plan_migrate_def)
next
  case (Inr r)
  obtain st w' where r: "r = (st, w')" by (cases r)
  let ?ms = "select_by sel None (executable_pending_objects st)" and ?v = "ms_current_version st"
  have sel: "?ms = filter (selected sel) (executable_pending_objects st)"
    by (simp add: select_by_def select_migrations_def selected_def [abs_def])
  have plan: "plan_migrate f (Some src) target sel strict applied w
      = rbind (enforce_strict_ordering ?ms ?v strict) (\<lambda>ws.
          Inr (\<lparr>mp_state = st, mp_current_version = ?v, mp_pending = ?ms, mp_warnings = ws\<rparr>, w'))"
    by (simp add: plan_migrate_def Inr r Let_def)
  show ?thesis
  proof (cases "strict \<and> list_ex (late ?v) ?ms")
    case True
    let ?m = "hd (filter (late ?v) ?ms)"
    have "filter (late ?v) ?ms \<noteq> []" using True by (auto simp: list_ex_iff filter_empty_conv)
    then have "?m \<in> set (filter (late ?v) ?ms)" by (rule hd_in_set)
    then have "?m \<in> set (executable_pending_objects st)" "late ?v ?m" "selected sel ?m"
      unfolding sel by auto
    then have "list_ex (\<lambda>m. script_name m = script_name ?m \<and> late ?v m \<and> selected sel m)
        (executable_pending_objects st)"
      unfolding list_ex_iff by blast
    then show ?thesis
      using True unfolding plan enforce_strict_ordering_spec by (simp add: Inr r)
  next
    case False
    have t: "build_analysis_context target applied = Inr c \<Longrightarrow> ac_target c = target" for c
      by (rule context_fields(3))
    have "\<exists>cat. load_source f src w = Inr (cat, w')
        \<and> executable_pending_objects st = filter (eligible_script (ms_baseline_version st) target)
            (map mark_resolved (filter (unresolved_script applied (all_scripts_of cat)) (all_scripts_of cat)))"
      using build_state_cases [where f = f and source = "Some src" and target = target and applied = applied
          and w = w]
      by (auto simp: Inr r assemble_state_fields mark_pending_self t)
    with False show ?thesis by (auto simp: plan enforce_strict_ordering_spec sel)
  qed
qed

subsection \<open>A failed row is removed once, and nothing else happens to it\<close>

definition routed_kind :: "migration_state \<Rightarrow> repair_details \<Rightarrow> repair_kind" where
  "routed_kind st r =
     (if rd_type r = CHECKSUM_MISMATCH \<and> is_failed_migration (rd_script r) st
      then FAILED_MIGRATION else rd_type r)"

definition action_of :: "migration_state \<Rightarrow> repair_details \<Rightarrow> repair_action" where
  "action_of st r = \<lparr>ra_kind = routed_kind st r, ra_script = rd_script r, ra_details = r\<rparr>"

definition failed_names :: "repair_action list \<Rightarrow> string list" where
  "failed_names as = map ra_script (filter (\<lambda>a. ra_kind a = FAILED_MIGRATION) as)"

lemma route_step:
  "route_repairs st removed (r # rs) =
     (if routed_kind st r = FAILED_MIGRATION
      then (if rd_script r \<in> set removed then route_repairs st removed rs
            else action_of st r # route_repairs st (removed @ [rd_script r]) rs)
      else action_of st r # route_repairs st removed rs)"
  by (simp add: Let_def action_of_def routed_kind_def)

lemma failed_names_simps [simp]:
  "failed_names [] = []"
  "failed_names (a # as) = (if ra_kind a = FAILED_MIGRATION then ra_script a # failed_names as else failed_names as)"
  by (simp_all add: failed_names_def)

lemma action_of_fields [simp]:
  "ra_kind (action_of st r) = routed_kind st r" "ra_script (action_of st r) = rd_script r"
  by (simp_all add: action_of_def)

lemma route_failed:
  "distinct (failed_names (route_repairs st removed rs))
   \<and> set (failed_names (route_repairs st removed rs))
     = rd_script ` {r \<in> set rs. routed_kind st r = FAILED_MIGRATION} - set removed"
proof (induction rs arbitrary: removed)
  case (Cons r rs)
  have c: "{x \<in> set (r # rs). routed_kind st x = FAILED_MIGRATION} =
      (if routed_kind st r = FAILED_MIGRATION
       then insert r {x \<in> set rs. routed_kind st x = FAILED_MIGRATION}
       else {x \<in> set rs. routed_kind st x = FAILED_MIGRATION})" by auto
  show ?case
    using Cons.IH [of removed] Cons.IH [of "removed @ [rd_script r]"]
    unfolding route_step c by (cases "routed_kind st r = FAILED_MIGRATION") auto
qed simp

lemma route_others:
  "k \<noteq> FAILED_MIGRATION \<Longrightarrow> filter (\<lambda>a. ra_kind a = k) (route_repairs st removed rs)
     = map (action_of st) (filter (\<lambda>r. routed_kind st r = k) rs)"
proof (induction rs arbitrary: removed)
  case (Cons r rs)
  then show ?case unfolding route_step by auto
qed simp

lemma route_covers: "rd_script ` set rs \<subseteq> ra_script ` set (route_repairs st removed rs) \<union> set removed"
proof (induction rs arbitrary: removed)
  case (Cons r rs)
  show ?case
    using Cons.IH [of removed] Cons.IH [of "removed @ [rd_script r]"]
    unfolding route_step by auto
qed simp

lemma set_drift_repairs:
  "rd_script ` set (drift_repairs recorded ds)
     = cd_script_name ` {d \<in> set ds. \<not> cd_repeatable d \<and> cd_current d \<noteq> None} - set recorded
   \<and> (\<forall>r \<in> set (drift_repairs recorded ds). rd_type r = CHECKSUM_MISMATCH)"
proof (induction recorded ds rule: drift_repairs.induct)
  case (2 recorded d ds)
  show ?case
  proof (cases "cd_repeatable d \<or> cd_current d = None \<or> cd_script_name d \<in> set recorded")
    case True
    with 2 show ?thesis by auto
  next
    case False
    with 2(2) show ?thesis by (auto simp: checksum_repair_def)
  qed
qed simp

definition failed_scripts :: "migration_state \<Rightarrow> string set" where
  "failed_scripts st = script_name ` {m \<in> set (ms_failed_objects st). script_name m \<noteq> []}"

lemma is_failed_iff: "is_failed_migration n st \<longleftrightarrow> n \<in> failed_scripts st"
  by (auto simp: is_failed_migration_def failed_scripts_def list_ex_iff)

text \<open>The rows a plan is made of: checksums, missing scripts, failed rows, then the drift not yet among
  them.\<close>

definition found_rows :: "migration_state \<Rightarrow> repair_details list" where
  "found_rows st = detect_checksum_changes st @ map missing_repair (ms_missing_applied st)
     @ map failed_repair (filter (\<lambda>m. script_name m \<noteq> []) (ms_failed_objects st))"

definition repair_rows :: "migration_state \<Rightarrow> repair_details list" where
  "repair_rows st = found_rows st @ drift_repairs (map rd_script (found_rows st)) (ms_checksum_drift st)"

lemma repair_row_fields:
  "rd_type (missing_repair m) = MISSING_SCRIPT" "rd_script (missing_repair m) = script_name m"
  "rd_type (failed_repair m) = FAILED_MIGRATION" "rd_script (failed_repair m) = script_name m"
  "r \<in> set (detect_checksum_changes st) \<Longrightarrow> rd_type r = CHECKSUM_MISMATCH"
  "r \<in> set (drift_repairs recorded ds) \<Longrightarrow> rd_type r = CHECKSUM_MISMATCH"
  using set_drift_repairs by (auto simp: missing_repair_def failed_repair_def detect_checksum_changes_def checksum_repair_def)

lemma failed_rows: "rd_script ` {r \<in> set (repair_rows st). routed_kind st r = FAILED_MIGRATION} = failed_scripts st"
proof (intro equalityI subsetI)
  let ?f = "map failed_repair (filter (\<lambda>m. script_name m \<noteq> []) (ms_failed_objects st))"
  have ff: "rd_script ` set ?f = failed_scripts st"
    by (auto simp: failed_scripts_def repair_row_fields image_image)
  have routed: "routed_kind st r = FAILED_MIGRATION \<longleftrightarrow>
      rd_type r = FAILED_MIGRATION \<or> (rd_type r = CHECKSUM_MISMATCH \<and> rd_script r \<in> failed_scripts st)" for r
    by (cases "rd_type r") (auto simp: routed_kind_def is_failed_iff)
  show "n \<in> failed_scripts st"
    if n: "n \<in> rd_script ` {r \<in> set (repair_rows st). routed_kind st r = FAILED_MIGRATION}" for n
  proof -
    obtain r where r: "r \<in> set (repair_rows st)" "routed_kind st r = FAILED_MIGRATION" "n = rd_script r"
      using n by blast
    show ?thesis
    proof (cases "r \<in> set ?f")
      case True
      with r(3) show ?thesis unfolding ff [symmetric] by blast
    next
      case False
      with r(1) have "rd_type r \<noteq> FAILED_MIGRATION"
        using repair_row_fields(1,5,6) unfolding repair_rows_def found_rows_def by fastforce
      with r(2,3) show ?thesis by (simp add: routed)
    qed
  qed
  show "n \<in> rd_script ` {r \<in> set (repair_rows st). routed_kind st r = FAILED_MIGRATION}" if "n \<in> failed_scripts st" for n
  proof -
    from that have "n \<in> rd_script ` set ?f" by (simp only: ff)
    then obtain r where r: "r \<in> set ?f" "n = rd_script r" by blast
    then have "rd_type r = FAILED_MIGRATION" using repair_row_fields(3) by auto
    with r show ?thesis by (auto simp: routed repair_rows_def found_rows_def)
  qed
qed

lemma missing_rows:
  "filter (\<lambda>r. routed_kind st r = MISSING_SCRIPT) (repair_rows st) = map missing_repair (ms_missing_applied st)"
proof -
  have none: "filter (\<lambda>r. routed_kind st r = MISSING_SCRIPT) rs = []"
    if "\<And>r. r \<in> set rs \<Longrightarrow> rd_type r \<noteq> MISSING_SCRIPT" for rs
    using that by (auto simp: filter_empty_conv routed_kind_def split: if_splits)
  have "filter (\<lambda>r. routed_kind st r = MISSING_SCRIPT) (map missing_repair ms) = map missing_repair ms" for ms
    by (auto simp: filter_id_conv routed_kind_def repair_row_fields)
  moreover have "filter (\<lambda>r. routed_kind st r = MISSING_SCRIPT) (map failed_repair ms) = []" for ms
    by (rule none) (use repair_row_fields(3) in auto)
  moreover have "filter (\<lambda>r. routed_kind st r = MISSING_SCRIPT) (detect_checksum_changes st) = []"
    by (rule none) (use repair_row_fields(5) in auto)
  moreover have "filter (\<lambda>r. routed_kind st r = MISSING_SCRIPT) (drift_repairs recorded ds) = []" for recorded ds
    by (rule none) (use repair_row_fields(6) in auto)
  ultimately show ?thesis unfolding repair_rows_def found_rows_def by (simp only: filter_append append_Nil append_Nil2)
qed

lemma realigned_not_failed:
  "ra_script ` {a \<in> set (route_repairs st [] rs). ra_kind a = CHECKSUM_MISMATCH} \<inter> failed_scripts st = {}"
proof -
  have "{a \<in> set (route_repairs st [] rs). ra_kind a = CHECKSUM_MISMATCH}
      = action_of st ` {r \<in> set rs. routed_kind st r = CHECKSUM_MISMATCH}"
    using arg_cong [OF route_others [of CHECKSUM_MISMATCH st "[]" rs], of set] by auto
  then have "ra_script ` {a \<in> set (route_repairs st [] rs). ra_kind a = CHECKSUM_MISMATCH}
      = rd_script ` {r \<in> set rs. routed_kind st r = CHECKSUM_MISMATCH}"
    by (simp add: image_image action_of_def)
  then show ?thesis by (auto simp: routed_kind_def is_failed_iff split: if_splits)
qed

lemma drift_rows:
  "cd_script_name ` {d \<in> set (ms_checksum_drift st). \<not> cd_repeatable d \<and> cd_current d \<noteq> None}
     \<subseteq> ra_script ` set (route_repairs st [] (repair_rows st))"
proof -
  have "cd_script_name ` {d \<in> set (ms_checksum_drift st). \<not> cd_repeatable d \<and> cd_current d \<noteq> None}
      - set (map rd_script (found_rows st)) = rd_script ` set (drift_repairs (map rd_script (found_rows st)) (ms_checksum_drift st))"
    using set_drift_repairs [of "map rd_script (found_rows st)" "ms_checksum_drift st"] by (rule conjunct1 [THEN sym])
  then have "cd_script_name ` {d \<in> set (ms_checksum_drift st). \<not> cd_repeatable d \<and> cd_current d \<noteq> None}
      \<subseteq> rd_script ` set (repair_rows st)"
    unfolding repair_rows_def set_append set_map by blast
  then show ?thesis using route_covers [of "repair_rows st" st "[]"] by (simp only: list.set Un_empty_right)
qed

lemma plan_repairs_eq:
  assumes "build_state f (Some src) None applied w = Inr (st, w')"
  obtains c cat where "build_analysis_context None applied = Inr c" "load_source f src w = Inr (cat, w')"
    "st = assemble_state applied c (Some cat) (filter (unresolved_script applied (all_scripts_of cat)) (all_scripts_of cat))"
    "plan_repairs f src applied w =
       (if all_scripts_of cat = [] \<and> ms_missing_applied st \<noteq> []
        then Inl (RepairSafetyError (length (ms_missing_applied st)) (src_dir src))
        else Inr (\<lparr>rp_state = st, rp_actions = route_repairs st [] (repair_rows st)\<rparr>, w'))"
proof -
  obtain c cat where cat: "build_analysis_context None applied = Inr c" "load_source f src w = Inr (cat, w')"
      "st = assemble_state applied c (Some cat) (filter (unresolved_script applied (all_scripts_of cat)) (all_scripts_of cat))"
    using build_state_cases [where f = f and source = "Some src" and target = None and applied = applied and w = w]
    by (auto simp: assms)
  have "list_ex (\<lambda>(t, ms). ms \<noteq> []) (map (map_prod id (map h)) cat) \<longleftrightarrow> concat (map snd cat) \<noteq> []"
    for h :: "migration \<Rightarrow> migration" by (induction cat) auto
  then have g: "list_ex (\<lambda>(t, ms). ms \<noteq> []) (case ms_grouped_objects st of None \<Rightarrow> [] | Some g \<Rightarrow> g)
      \<longleftrightarrow> all_scripts_of cat \<noteq> []"
    unfolding cat(3) assemble_state_fields all_scripts_of_def by simp
  show ?thesis
    using g by (intro that [OF cat]) (auto simp: plan_repairs_def assms Let_def detect_checksum_drift_def
        detect_missing_migrations_def repair_rows_def found_rows_def)
qed


end
