(* ===== verification/Journal.thy ===== *)
theory Journal
  imports PyString
begin

text \<open>
  The migration journal (\<open>journals/migration_journal.py\<close>): the in-memory log of what a run did. It
  keeps all entries and, per migration, a list in which a later entry replaces an earlier one of the
  same slot. Time stamps and the report helpers that only read the journal are left out; the lock
  around a write makes each write one step.
\<close>

subsection \<open>Entries\<close>

datatype entry_type = STATEMENT_START | STATEMENT_COMPLETE | STATEMENT_FAILED | MIGRATION_START
  | MIGRATION_COMPLETE | MIGRATION_FAILED | OBJECT_CHANGE

definition END_TYPES :: "entry_type list" where
  "END_TYPES = [MIGRATION_COMPLETE, MIGRATION_FAILED]"

text \<open>A value of the details dictionary: a text (or none), or the affected objects.\<close>

datatype detail = DText "string option" | DObjects "(string, string) dict list"

record journal_entry =
  je_migration :: string
  je_type :: entry_type
  je_index :: nat
  je_statement :: string
  je_time :: int
  je_details :: "(string, detail) dict"
  je_success :: bool
  je_error :: string

text \<open>The key under which an entry replaces an earlier one: \<open>("end",)\<close>, or the type with the index.\<close>

datatype entry_slot = SlotEnd | SlotStatement entry_type nat

definition entry_slot_of :: "journal_entry \<Rightarrow> entry_slot option" where
  "entry_slot_of e =
     (if je_type e \<in> set END_TYPES then Some SlotEnd
      else if je_type e \<in> {STATEMENT_START, STATEMENT_COMPLETE}
      then Some (SlotStatement (je_type e) (je_index e))
      else None)"

subsection \<open>The journal\<close>

record journal =
  jr_enabled :: bool
  jr_capture :: bool
  jr_current :: "string option"
  jr_entries :: "journal_entry list"
  jr_journals :: "(string, journal_entry list) dict"
  jr_slots :: "(string, entry_slot list) dict"

definition new_journal :: "bool \<Rightarrow> bool \<Rightarrow> journal" where
  "new_journal enabled capture =
     \<lparr>jr_enabled = enabled, jr_capture = capture, jr_current = None, jr_entries = [],
      jr_journals = [], jr_slots = []\<rparr>"

fun write_entry :: "journal_entry \<Rightarrow> journal \<Rightarrow> journal" where
  "write_entry e j =
     (if \<not> jr_enabled j then j
      else
        let js = dsetdefault (jr_journals j) (je_migration e) [];
            es = dget_or js (je_migration e) []
        in case entry_slot_of e of
             None \<Rightarrow> j\<lparr>jr_entries := jr_entries j @ [e],
                       jr_journals := dset js (je_migration e) (es @ [e])\<rparr>
           | Some s \<Rightarrow>
               let slots = dget_or (jr_slots j) (je_migration e) [];
                   kept = if s \<in> set slots then filter (\<lambda>x. entry_slot_of x \<noteq> Some s) es else es
               in j\<lparr>jr_entries := jr_entries j @ [e],
                    jr_slots := dset (jr_slots j) (je_migration e) (s # slots),
                    jr_journals := dset js (je_migration e) (kept @ [e])\<rparr>)"

definition get_migration_journal :: "journal \<Rightarrow> string \<Rightarrow> journal_entry list" where
  "get_migration_journal j i = (if \<not> jr_enabled j then [] else dget_or (jr_journals j) i [])"

subsection \<open>The recording operations\<close>

definition new_entry :: "string \<Rightarrow> entry_type \<Rightarrow> journal_entry" where
  "new_entry i t = \<lparr>je_migration = i, je_type = t, je_index = 0, je_statement = [], je_time = 0,
                    je_details = [], je_success = True, je_error = []\<rparr>"

fun start_migration :: "string \<Rightarrow> (string, detail) dict \<Rightarrow> journal \<Rightarrow> journal" where
  "start_migration i details j =
     (if \<not> jr_enabled j then j
      else write_entry
             ((new_entry i MIGRATION_START)\<lparr>je_details :=
                (if jr_capture j then details
                 else dset details ''object_analysis'' (DText (Some ''disabled'')))\<rparr>)
             (j\<lparr>jr_current := Some i\<rparr>))"

fun end_migration :: "string \<Rightarrow> bool \<Rightarrow> string option \<Rightarrow> int \<Rightarrow> journal \<Rightarrow> journal" where
  "end_migration i success err time j =
     (if \<not> truthy (jr_current j) then j
      else if jr_current j = Some i
      then (write_entry
              ((new_entry i (if success then MIGRATION_COMPLETE else MIGRATION_FAILED))
                 \<lparr>je_time := time, je_success := success,
                  je_error := (case err of None \<Rightarrow> [] | Some m \<Rightarrow> m)\<rparr>) j)\<lparr>jr_current := None\<rparr>
      else j)"

definition statement_entry :: "string \<Rightarrow> entry_type \<Rightarrow> string \<Rightarrow> nat \<Rightarrow> journal_entry" where
  "statement_entry i t sql n = (new_entry i t)\<lparr>je_statement := sql, je_index := n\<rparr>"

fun recorded :: "(string \<Rightarrow> journal_entry) \<Rightarrow> journal \<Rightarrow> journal" where
  "recorded mk j =
     (if \<not> jr_enabled j \<or> \<not> truthy (jr_current j) then j
      else write_entry (mk (the (jr_current j))) j)"

fun record_statement_start :: "string \<Rightarrow> nat \<Rightarrow> journal \<Rightarrow> journal" where
  "record_statement_start sql n j = recorded (\<lambda>i. statement_entry i STATEMENT_START sql n) j"

fun record_statement_complete ::
  "string \<Rightarrow> nat \<Rightarrow> int \<Rightarrow> (string, detail) dict \<Rightarrow> journal \<Rightarrow> journal" where
  "record_statement_complete sql n time details j =
     recorded (\<lambda>i. (statement_entry i STATEMENT_COMPLETE sql n)
                     \<lparr>je_time := time, je_details := details\<rparr>) j"

fun record_statement_failed :: "string \<Rightarrow> nat \<Rightarrow> string \<Rightarrow> int \<Rightarrow> journal \<Rightarrow> journal" where
  "record_statement_failed sql n err time j =
     recorded (\<lambda>i. (statement_entry i STATEMENT_FAILED sql n)
                     \<lparr>je_time := time, je_success := False, je_error := err\<rparr>) j"

fun record_object_changes :: "string \<Rightarrow> nat \<Rightarrow> (string, string) dict list \<Rightarrow> journal \<Rightarrow> journal" where
  "record_object_changes sql n objs j =
     recorded (\<lambda>i. (statement_entry i OBJECT_CHANGE sql n)
                     \<lparr>je_details := [(''objects_affected'', DObjects objs)]\<rparr>) j"

text \<open>The calls a run makes on its journal, as data.\<close>

datatype journal_op =
    JStart string "(string, detail) dict"
  | JEnd string bool "string option" int
  | JStatementStart string nat
  | JStatementComplete string nat int "(string, detail) dict"
  | JStatementFailed string nat string int
  | JObjectChanges string nat "(string, string) dict list"

fun apply_journal_op :: "journal_op \<Rightarrow> journal \<Rightarrow> journal" where
  "apply_journal_op (JStart i d) j = start_migration i d j"
| "apply_journal_op (JEnd i ok e t) j = end_migration i ok e t j"
| "apply_journal_op (JStatementStart s n) j = record_statement_start s n j"
| "apply_journal_op (JStatementComplete s n t d) j = record_statement_complete s n t d j"
| "apply_journal_op (JStatementFailed s n e t) j = record_statement_failed s n e t j"
| "apply_journal_op (JObjectChanges s n os) j = record_object_changes s n os j"

subsection \<open>The abstract journal: the log without superseded entries\<close>

fun live :: "journal_entry list \<Rightarrow> journal_entry list" where
  "live [] = []"
| "live (e # es) =
     (if entry_slot_of e \<noteq> None \<and> entry_slot_of e \<in> entry_slot_of ` set es then live es else e # live es)"

definition entries_of :: "journal \<Rightarrow> string \<Rightarrow> journal_entry list" where
  "entries_of j i = filter (\<lambda>e. je_migration e = i) (jr_entries j)"

lemma set_live: "set (live es) \<subseteq> set es"
  by (induction es) auto

lemma live_snoc:
  "live (es @ [e]) =
     (case entry_slot_of e of None \<Rightarrow> live es
      | Some s \<Rightarrow> filter (\<lambda>x. entry_slot_of x \<noteq> Some s) (live es)) @ [e]"
  by (induction es) (auto split: option.splits)

lemma filter_fresh_slot:
  "Some s \<notin> entry_slot_of ` set es \<Longrightarrow> filter (\<lambda>x. entry_slot_of x \<noteq> Some s) (live es) = live es"
  using set_live by (force simp: filter_id_conv)

text \<open>The per-migration lists are the live entries of the log, the slots those of its entries.\<close>

definition journal_inv :: "journal \<Rightarrow> bool" where
  "journal_inv j \<longleftrightarrow>
     (\<forall>i. dget_or (jr_journals j) i [] = live (entries_of j i)
        \<and> Some ` set (dget_or (jr_slots j) i []) = entry_slot_of ` set (entries_of j i) - {None})"

lemma inv_views:
  assumes "journal_inv j"
  shows "dget_or (jr_journals j) i [] = live (entries_of j i)"
    and "s \<in> set (dget_or (jr_slots j) i []) \<longleftrightarrow> Some s \<in> entry_slot_of ` set (entries_of j i)"
proof -
  show "dget_or (jr_journals j) i [] = live (entries_of j i)"
    using assms by (simp add: journal_inv_def)
  have "Some ` set (dget_or (jr_slots j) i []) = entry_slot_of ` set (entries_of j i) - {None}"
    using assms by (simp add: journal_inv_def)
  moreover have "s \<in> set (dget_or (jr_slots j) i []) \<longleftrightarrow> Some s \<in> Some ` set (dget_or (jr_slots j) i [])"
    by auto
  ultimately show "s \<in> set (dget_or (jr_slots j) i []) \<longleftrightarrow> Some s \<in> entry_slot_of ` set (entries_of j i)"
    by simp
qed

lemma dget_or_dsetdefault [simp]: "dget_or (dsetdefault d k v) k' v = dget_or d k' v"
  by (auto simp: dget_or_def dsetdefault_def split: option.splits)

lemma write_disabled: "\<not> jr_enabled j \<Longrightarrow> write_entry e j = j"
  by simp

lemma write_plain:
  "jr_enabled j \<Longrightarrow> entry_slot_of e = None \<Longrightarrow> write_entry e j =
     j\<lparr>jr_entries := jr_entries j @ [e],
       jr_journals := dset (dsetdefault (jr_journals j) (je_migration e) []) (je_migration e)
         (dget_or (jr_journals j) (je_migration e) [] @ [e])\<rparr>"
  by (simp add: Let_def)

lemma write_slot:
  "jr_enabled j \<Longrightarrow> entry_slot_of e = Some s \<Longrightarrow> write_entry e j =
     j\<lparr>jr_entries := jr_entries j @ [e],
       jr_slots := dset (jr_slots j) (je_migration e) (s # dget_or (jr_slots j) (je_migration e) []),
       jr_journals := dset (dsetdefault (jr_journals j) (je_migration e) []) (je_migration e)
         ((if s \<in> set (dget_or (jr_slots j) (je_migration e) [])
           then filter (\<lambda>x. entry_slot_of x \<noteq> Some s) (dget_or (jr_journals j) (je_migration e) [])
           else dget_or (jr_journals j) (je_migration e) []) @ [e])\<rparr>"
  by (simp add: Let_def)

declare write_entry.simps [simp del]

lemmas write_rules = write_disabled write_plain write_slot

lemma entries_of_write:
  "jr_enabled j \<Longrightarrow> entries_of (write_entry e j) i
     = entries_of j i @ (if je_migration e = i then [e] else [])"
  by (cases "entry_slot_of e") (simp_all add: entries_of_def write_rules)

lemma write_entry_fields [simp]:
  "jr_enabled (write_entry e j) = jr_enabled j"
  "jr_current (write_entry e j) = jr_current j"
  "jr_capture (write_entry e j) = jr_capture j"
  by (cases "jr_enabled j"; cases "entry_slot_of e"; simp add: write_rules)+

lemma journals_of_write:
  assumes "jr_enabled j" "journal_inv j"
  shows "dget_or (jr_journals (write_entry e j)) i [] = live (entries_of (write_entry e j) i)"
proof (cases "entry_slot_of e")
  case None
  then show ?thesis
    unfolding entries_of_write [OF assms(1)]
    using assms inv_views(1) [OF assms(2)] by (simp add: write_rules live_snoc)
next
  case (Some s)
  let ?es = "entries_of j (je_migration e)"
  have "(if s \<in> set (dget_or (jr_slots j) (je_migration e) [])
         then filter (\<lambda>x. entry_slot_of x \<noteq> Some s) (live ?es) else live ?es)
        = filter (\<lambda>x. entry_slot_of x \<noteq> Some s) (live ?es)"
    using inv_views(2) [OF assms(2)] filter_fresh_slot [of s ?es] by auto
  then have "dget_or (jr_journals (write_entry e j)) i [] =
      (if i = je_migration e then filter (\<lambda>x. entry_slot_of x \<noteq> Some s) (live ?es) @ [e]
       else live (entries_of j i))"
    using inv_views(1) [OF assms(2)] by (simp add: write_slot [OF assms(1) Some] split: if_splits)
  then show ?thesis
    unfolding entries_of_write [OF assms(1)] using Some by (simp add: live_snoc)
qed

lemma slots_of_write:
  assumes "jr_enabled j" "journal_inv j"
  shows "Some ` set (dget_or (jr_slots (write_entry e j)) i [])
           = entry_slot_of ` set (entries_of (write_entry e j) i) - {None}"
proof -
  have "Some ` set (dget_or (jr_slots j) i []) = entry_slot_of ` set (entries_of j i) - {None}"
    using assms(2) by (simp add: journal_inv_def)
  then show ?thesis
    unfolding entries_of_write [OF assms(1)]
    using assms(1) by (cases "entry_slot_of e") (auto simp add: write_rules)
qed

lemma inv_write: "journal_inv j \<Longrightarrow> journal_inv (write_entry e j)"
proof (cases "jr_enabled j")
  case True
  moreover assume "journal_inv j"
  ultimately show ?thesis
    unfolding journal_inv_def [of "write_entry e j"] using journals_of_write slots_of_write by blast
qed (simp add: write_disabled)

lemma inv_current [simp]: "journal_inv (j\<lparr>jr_current := c\<rparr>) = journal_inv j"
  by (simp add: journal_inv_def entries_of_def)

lemma inv_recorded: "journal_inv j \<Longrightarrow> journal_inv (recorded mk j)"
  by (auto intro: inv_write)

lemma inv_apply_op: "journal_inv j \<Longrightarrow> journal_inv (apply_journal_op op j)"
  by (cases op) (auto intro: inv_write inv_recorded simp del: recorded.simps)

lemma recorded_enabled [simp]: "jr_enabled (recorded mk j) = jr_enabled j"
  by simp

lemma apply_op_enabled [simp]: "jr_enabled (apply_journal_op op j) = jr_enabled j"
  by (cases op) (simp_all del: recorded.simps)

lemma inv_fold: "journal_inv j \<Longrightarrow> journal_inv (fold apply_journal_op ops j)"
  by (induction ops arbitrary: j) (auto intro: inv_apply_op)

lemma enabled_fold [simp]: "jr_enabled (fold apply_journal_op ops j) = jr_enabled j"
  by (induction ops arbitrary: j) simp_all

lemma live_slots_once: "distinct (List.map_filter entry_slot_of (live es))"
proof (induction es)
  case (Cons e es)
  have "set (List.map_filter entry_slot_of (live es)) \<subseteq> {s. Some s \<in> entry_slot_of ` set es}"
    using set_live [of es] by (force simp: map_filter_def)
  with Cons show ?case by (cases "entry_slot_of e") (auto simp: map_filter_simps)
qed (simp add: map_filter_simps)

lemma disabled_op: "\<not> jr_enabled j \<Longrightarrow> jr_entries (apply_journal_op op j) = jr_entries j"
  by (cases op) (simp_all add: write_disabled)

lemma disabled_entries:
  "\<not> jr_enabled j \<Longrightarrow> jr_entries (fold apply_journal_op ops j) = jr_entries j"
  by (induction ops arbitrary: j) (simp_all add: disabled_op)

lemma journal_view:
  "get_migration_journal (fold apply_journal_op ops (new_journal enabled capture)) i
     = live (entries_of (fold apply_journal_op ops (new_journal enabled capture)) i)"
proof (cases enabled)
  case True
  have "journal_inv (fold apply_journal_op ops (new_journal enabled capture))"
    by (rule inv_fold) (simp add: journal_inv_def new_journal_def entries_of_def)
  then show ?thesis
    using True inv_views(1) by (simp add: get_migration_journal_def) (simp add: new_journal_def)
next
  case False
  show ?thesis
    using False disabled_entries [of "new_journal enabled capture" ops]
    by (simp add: get_migration_journal_def entries_of_def new_journal_def)
qed

text \<open>C20. Whatever calls are made on a journal, the journal of a migration is its part of the log with
  every superseded entry removed: of its end entries, and of the start and the completion entries of
  one statement, only the last one recorded is kept, and every other entry stays; no slot is held
  twice. A disabled journal stays empty.\<close>

theorem journal_is_live_log:
  "let j = fold apply_journal_op ops (new_journal enabled capture)
   in get_migration_journal j i = live (entries_of j i)
    \<and> distinct (List.map_filter entry_slot_of (get_migration_journal j i))
    \<and> (if enabled then True else entries_of j i = [])"
proof -
  show ?thesis
    using disabled_entries [of "new_journal enabled capture" ops]
    by (simp add: Let_def journal_view live_slots_once) (simp add: entries_of_def new_journal_def)
qed

end
