(* ===== verification/Runner.thy ===== *)
theory Runner
  imports Plans Journal
begin

text \<open>
  Running one script: the callbacks of an event (\<open>commands/base_command.py\<close>, \<open>_fire\<close> and
  \<open>_execute_callbacks\<close>) and \<open>ScriptRunner.run\<close> (\<open>commands/_script_runner.py\<close>) with the policies of
  migrate and undo. Everything outside the command (the execution engine, the callback scripts, the
  database, the clock) is a record of functions of what has been done so far, so it may answer
  differently every time; every call that leaves the command is an effect in the order it was made.
  Log output, the statements captured for reports and time stamps are left out.
\<close>

declare start_migration.simps [simp del] end_migration.simps [simp del]

subsection \<open>State and effects\<close>

text \<open>An exception, with the text the reporting functions give for it.\<close>

datatype exn = SqlPreflightError string | PreflightConnectionError string | OtherError string

fun reason_of :: "exn \<Rightarrow> string" where
  "reason_of (SqlPreflightError r) = r"
| "reason_of (PreflightConnectionError r) = r"
| "reason_of (OtherError r) = r"

record event_data =
  ed_script :: string
  ed_version :: "string option"
  ed_description :: string
  ed_type :: string

datatype effect =
    Fired string
  | ScriptEvent string event_data "string option" "int option"
  | CallbackEvent string string "string option"
  | RanCallback string
  | Preflighted "string list"
  | Executed string
  | PreparedSql string
  | RecordedRow string
  | Committed
  | AcquiredLock
  | ReleasedLock
  | ReadHistory
  | CheckedDatabase bool

datatype callback_status = CallbackOk | CallbackFailed

record callback_execution =
  ce_phase :: string
  ce_name :: string
  ce_file :: string
  ce_status :: callback_status

record migration_info =
  mi_script :: string
  mi_version :: "string option"
  mi_description :: string
  mi_type :: string
  mi_status :: string
  mi_time :: int
  mi_checksum :: "int option"

datatype result_kind = MigrateResult | UndoResult

text \<open>The result object and the local variables of a run.\<close>

record run_state =
  rs_effects :: "effect list"
  rs_kind :: result_kind
  rs_error :: "string option"
  rs_success :: bool
  rs_rows :: "migration_info list"
  rs_callbacks :: "callback_execution list"
  rs_schema_version :: "string option"
  rs_journal :: "journal option"
  rs_snapshot :: "migration list option"
  rs_warn :: warn_state
  rs_sql :: "(string \<times> string list) list"
  rs_dry_run_count :: nat
  rs_history_exists :: bool
  rl_journal_started :: bool
  rl_started_emitted :: bool
  rl_terminal_emitted :: bool
  rl_error_fired :: bool

record world =
  wd_bound :: "string option option"
  wd_callback_catalog :: "effect list \<Rightarrow> exn + migration list"
  wd_callback :: "effect list \<Rightarrow> migration \<Rightarrow> exn option"
  wd_checks :: bool
  wd_preflight :: "effect list \<Rightarrow> string list \<Rightarrow> exn option"
  wd_execute :: "effect list \<Rightarrow> migration \<Rightarrow> string option \<times> exn option"
  wd_elapsed :: "effect list \<Rightarrow> int"
  wd_capture :: bool
  wd_setup :: "exn option"
  wd_database :: "effect list \<Rightarrow> bool \<Rightarrow> exn option"
  wd_history :: "effect list \<Rightarrow> exn + migration list"
  wd_has_history :: "effect list \<Rightarrow> bool"
  wd_validate :: "effect list \<Rightarrow> migration_state \<Rightarrow> exn + (bool \<times> string)"
  wd_prepare :: "effect list \<Rightarrow> migration \<Rightarrow> string option \<times> (exn + string list)"
  wd_acquire :: "effect list \<Rightarrow> exn + bool"
  wd_lock_lost :: "effect list \<Rightarrow> bool"
  wd_record :: "effect list \<Rightarrow> migration \<Rightarrow> exn option"
  wd_transactional :: bool
  wd_commit :: "effect list \<Rightarrow> exn option"
  wd_files :: fs
  wd_source :: script_source
  wd_state_text :: "plan_error \<Rightarrow> string"
  wd_strict_text :: "string \<Rightarrow> string option \<Rightarrow> string"

definition emit :: "effect \<Rightarrow> run_state \<Rightarrow> run_state" where
  "emit e st = st\<lparr>rs_effects := rs_effects st @ [e]\<rparr>"

text \<open>\<open>OperationResult.set_error\<close>, which \<open>UndoResult\<close> inherits, and \<open>MigrateResult.set_error\<close>, which
  first rewrites the text.\<close>

definition clean_error :: "string \<Rightarrow> string" where
  "clean_error m = (if m = [] then m
     else replace_all ''nversion'' ''version'' (replace_all (CHR 0x0A # ''Version'') ''Version'' m))"

definition set_error :: "string \<Rightarrow> run_state \<Rightarrow> run_state" where
  "set_error m st =
     st\<lparr>rs_error := Some (case rs_kind st of MigrateResult \<Rightarrow> clean_error m | UndoResult \<Rightarrow> m),
        rs_success := False\<rparr>"

subsection \<open>Steps that may raise\<close>

type_synonym step = "run_state \<Rightarrow> exn option \<times> run_state"

fun in_order :: "step list \<Rightarrow> run_state \<Rightarrow> exn option \<times> run_state" where
  "in_order [] st = (None, st)"
| "in_order (a # as) st = (case a st of (Some e, st') \<Rightarrow> (Some e, st') | (None, st') \<Rightarrow> in_order as st')"

definition always :: "(run_state \<Rightarrow> run_state) \<Rightarrow> step" where
  "always f = (\<lambda>st. (None, f st))"

subsection \<open>Callbacks\<close>

definition CALLBACK_LIFECYCLE_EVENTS :: "(string \<times> string) list" where
  "CALLBACK_LIFECYCLE_EVENTS =
     [(''beforeMigrate'', ''callback.before_migrate''), (''afterMigrate'', ''callback.after_migrate''),
      (''afterMigrateError'', ''callback.after_migrate_error''),
      (''beforeEach'', ''callback.before_each''), (''afterEach'', ''callback.after_each''),
      (''beforeEachMigrate'', ''callback.before_each_migrate''),
      (''afterEachMigrate'', ''callback.after_each_migrate''),
      (''beforeRepeatable'', ''callback.before_repeatable''),
      (''afterRepeatable'', ''callback.after_repeatable''),
      (''beforeVersioned'', ''callback.before_versioned''),
      (''afterVersioned'', ''callback.after_versioned''),
      (''beforeValidate'', ''callback.before_validate''), (''afterValidate'', ''callback.after_validate''),
      (''beforeClean'', ''callback.before_clean''), (''afterClean'', ''callback.after_clean''),
      (''afterCleanError'', ''callback.after_clean_error''), (''beforeUndo'', ''callback.before_undo''),
      (''afterUndo'', ''callback.after_undo''), (''afterUndoError'', ''callback.after_undo_error'')]"

definition path_stem :: "string \<Rightarrow> string" where
  "path_stem s = take (length (path_name s) - length (path_suffix s)) (path_name s)"

text \<open>One turn of the loop. The record is appended before the callback runs and gets its status from
  the outcome; nothing reads it in between.\<close>

definition run_callback :: "world \<Rightarrow> string \<Rightarrow> migration \<Rightarrow> step" where
  "run_callback w event cb st =
     (let name = script_name cb;
          record_as = (\<lambda>s. \<lparr>ce_phase = event,
             ce_name = (if description cb \<noteq> [] then description cb else path_stem name),
             ce_file = name, ce_status = s\<rparr>);
          st1 = emit (RanCallback name) (emit (CallbackEvent ''callback.started'' name None) st)
      in case wd_callback w (rs_effects st1) cb of
           None \<Rightarrow>
             (None, emit (CallbackEvent ''callback.completed'' name None)
                      (st1\<lparr>rs_callbacks := rs_callbacks st1 @ [record_as CallbackOk]\<rparr>))
         | Some e \<Rightarrow>
             let st2 = emit (CallbackEvent ''callback.failed'' name (Some (reason_of e)))
                         (st1\<lparr>rs_callbacks := rs_callbacks st1 @ [record_as CallbackFailed]\<rparr>)
             in if contains event ''Error'' then (None, st2)
                else (case e of
                        SqlPreflightError r \<Rightarrow> (Some e, st2)
                      | _ \<Rightarrow> (Some (OtherError (''Callback '' @ name @ '' failed: '' @ reason_of e)), st2)))"

definition execute_callbacks :: "world \<Rightarrow> string \<Rightarrow> migration list \<Rightarrow> step" where
  "execute_callbacks w event catalog st =
     (let callbacks = get_callbacks_by_event event catalog
      in if callbacks = [] then (None, st)
         else in_order (map (run_callback w event) callbacks)
                (case map_of CALLBACK_LIFECYCLE_EVENTS event of
                   None \<Rightarrow> st
                 | Some ev \<Rightarrow> emit (CallbackEvent ev [] None) st))"

text \<open>\<open>_fire\<close>: nothing without a scripts directory; the callback catalog is read once per command and
  kept.\<close>

definition fire :: "world \<Rightarrow> string \<Rightarrow> step" where
  "fire w event st =
     (let st1 = emit (Fired event) st
      in case wd_bound w of
           None \<Rightarrow> (Some (OtherError ''callbacks are not bound''), st1)
         | Some None \<Rightarrow> (None, st1)
         | Some (Some d) \<Rightarrow>
             (case rs_snapshot st1 of
                Some catalog \<Rightarrow> execute_callbacks w event catalog st1
              | None \<Rightarrow>
                  (case wd_callback_catalog w (rs_effects st1) of
                     Inl e \<Rightarrow> (Some e, st1)
                   | Inr catalog \<Rightarrow>
                       execute_callbacks w event catalog (st1\<lparr>rs_snapshot := Some catalog\<rparr>))))"

subsection \<open>The policies\<close>

record run_policy =
  po_before :: "string list"
  po_after :: "string list"
  po_error :: string
  po_failure_prefix :: string
  po_completed :: "string list"

definition MIGRATE_POLICY :: run_policy where
  "MIGRATE_POLICY = \<lparr>po_before = [''beforeEach'', ''beforeEachMigrate''],
     po_after = [''afterEachMigrate'', ''afterEach''], po_error = ''afterMigrateError'',
     po_failure_prefix = ''Migration failed'', po_completed = [''migration.script.completed'']\<rparr>"

definition UNDO_POLICY :: run_policy where
  "UNDO_POLICY = \<lparr>po_before = [''beforeEach''], po_after = [''afterEach''],
     po_error = ''afterUndoError'', po_failure_prefix = ''Undo failed'',
     po_completed = [''migration.script.completed'', ''undo.script.rolled_back'']\<rparr>"

subsection \<open>Running a script\<close>

definition journal_start :: "migration \<Rightarrow> run_state \<Rightarrow> run_state" where
  "journal_start m st =
     (case rs_journal st of None \<Rightarrow> st
      | Some j \<Rightarrow> st\<lparr>rs_journal := Some (start_migration (script_name m)
            [(''version'', DText (version m)), (''description'', DText (Some (description m))),
             (''type'', DText (Some (type_name (mtype m))))] j),
          rl_journal_started := True\<rparr>)"

definition journal_end :: "migration \<Rightarrow> bool \<Rightarrow> string option \<Rightarrow> int \<Rightarrow> run_state \<Rightarrow> run_state" where
  "journal_end m ok err time st =
     (case rs_journal st of None \<Rightarrow> st
      | Some j \<Rightarrow> st\<lparr>rs_journal := Some (end_migration (script_name m) ok err time j)\<rparr>)"

definition preflight_sql :: "world \<Rightarrow> string list \<Rightarrow> step" where
  "preflight_sql w names st =
     (let st1 = emit (Preflighted names) st in (wd_preflight w (rs_effects st1) names, st1))"

text \<open>\<open>execute_migration\<close> may set the error of the result, raise, or both.\<close>

definition execute_migration :: "world \<Rightarrow> migration \<Rightarrow> step" where
  "execute_migration w m st =
     (let st1 = emit (Executed (script_name m)) st;
          (err, exc) = wd_execute w (rs_effects st1) m;
          st2 = (case err of None \<Rightarrow> st1 | Some t \<Rightarrow> set_error t st1)
      in (exc, st2))"

definition begin_script :: "world \<Rightarrow> run_policy \<Rightarrow> migration \<Rightarrow> event_data \<Rightarrow> step" where
  "begin_script w pol m data =
     in_order (map (fire w) (po_before pol)
       @ (if wd_checks w then [preflight_sql w [script_name m]] else [])
       @ [always (journal_start m),
          always (\<lambda>st. emit (ScriptEvent ''migration.script.started'' data None None) st
                         \<lparr>rl_started_emitted := True\<rparr>),
          execute_migration w m])"

definition report_failed :: "event_data \<Rightarrow> string option \<Rightarrow> int \<Rightarrow> run_state \<Rightarrow> run_state" where
  "report_failed data err time st = emit (ScriptEvent ''migration.script.failed'' data err (Some time)) st"

text \<open>The engine reported a failure on the result.\<close>

definition engine_failure :: "world \<Rightarrow> run_policy \<Rightarrow> migration \<Rightarrow> event_data \<Rightarrow> int \<Rightarrow> step" where
  "engine_failure w pol m data time st =
     (let st1 = (journal_end m False (rs_error st) time st)\<lparr>rl_journal_started := False\<rparr>;
          st2 = (report_failed data (rs_error st) time st1)
                  \<lparr>rl_terminal_emitted := True, rl_error_fired := True\<rparr>
      in fire w (po_error pol) st2)"

definition finish_script ::
  "world \<Rightarrow> run_policy \<Rightarrow> migration \<Rightarrow> event_data \<Rightarrow> (int \<Rightarrow> migration_info) \<Rightarrow> int \<Rightarrow> step" where
  "finish_script w pol m data on_success time st =
     (let st1 = (journal_end m True None time st)\<lparr>rl_journal_started := False\<rparr>;
          st2 = st1\<lparr>rs_rows := rs_rows st1 @ [on_success time]\<rparr>;
          st3 = (fold (\<lambda>ev. emit (ScriptEvent ev data None (Some time))) (po_completed pol) st2)
                  \<lparr>rl_terminal_emitted := True\<rparr>
      in in_order (map (fire w) (po_after pol)) st3)"

text \<open>The \<open>try\<close> block: the value it returns, or the exception that leaves it.\<close>

definition try_script ::
  "world \<Rightarrow> run_policy \<Rightarrow> migration \<Rightarrow> event_data \<Rightarrow> (int \<Rightarrow> migration_info) \<Rightarrow> run_state
   \<Rightarrow> (exn + bool) \<times> run_state" where
  "try_script w pol m data on_success st =
     (case begin_script w pol m data st of
        (Some e, st') \<Rightarrow> (Inl e, st')
      | (None, st') \<Rightarrow>
          let time = wd_elapsed w (rs_effects st')
          in if truthy (rs_error st')
             then (case engine_failure w pol m data time st' of
                     (Some e, st2) \<Rightarrow> (Inl e, st2) | (None, st2) \<Rightarrow> (Inr False, st2))
             else (case finish_script w pol m data on_success time st' of
                     (Some e, st2) \<Rightarrow> (Inl e, st2) | (None, st2) \<Rightarrow> (Inr True, st2)))"

text \<open>What both handlers do with the journal and the script events.\<close>

definition close_failed :: "migration \<Rightarrow> event_data \<Rightarrow> string \<Rightarrow> int \<Rightarrow> run_state \<Rightarrow> run_state" where
  "close_failed m data err time st =
     (let st1 = (if rl_journal_started st then journal_end m False (Some err) time st else st)
      in if rl_started_emitted st1 \<and> \<not> rl_terminal_emitted st1
         then report_failed data (Some err) time st1 else st1)"

definition on_preflight_error ::
  "world \<Rightarrow> migration \<Rightarrow> event_data \<Rightarrow> string \<Rightarrow> run_state \<Rightarrow> (exn + bool) \<times> run_state" where
  "on_preflight_error w m data reason st =
     (let st1 = set_error reason st
      in (Inr False, close_failed m data reason (wd_elapsed w (rs_effects st1)) st1))"

definition on_exception ::
  "world \<Rightarrow> run_policy \<Rightarrow> migration \<Rightarrow> event_data \<Rightarrow> exn \<Rightarrow> run_state \<Rightarrow> (exn + bool) \<times> run_state" where
  "on_exception w pol m data e st =
     (if rl_error_fired st then (Inl e, st)
      else
        let reason = reason_of e;
            err = the (or_else (rs_error st) (Some reason));
            st1 = (if truthy (rs_error st) then st
                   else set_error (po_failure_prefix pol @ '': '' @ reason) st);
            st2 = close_failed m data err (wd_elapsed w (rs_effects st1)) st1
        in case fire w (po_error pol) st2 of
             (Some e', st3) \<Rightarrow> (Inl e', st3) | (None, st3) \<Rightarrow> (Inr False, st3))"

definition run_script ::
  "world \<Rightarrow> run_policy \<Rightarrow> migration \<Rightarrow> event_data \<Rightarrow> (int \<Rightarrow> migration_info) \<Rightarrow> run_state
   \<Rightarrow> (exn + bool) \<times> run_state" where
  "run_script w pol m data on_success st =
     (case try_script w pol m data on_success
             (st\<lparr>rl_journal_started := False, rl_started_emitted := False,
                 rl_terminal_emitted := False, rl_error_fired := False\<rparr>) of
        (Inr ok, st') \<Rightarrow> (Inr ok, st')
      | (Inl (SqlPreflightError reason), st') \<Rightarrow> on_preflight_error w m data reason st'
      | (Inl e, st') \<Rightarrow> on_exception w pol m data e st')"

subsection \<open>What the callbacks may change\<close>

fun is_callback_effect :: "effect \<Rightarrow> bool" where
  "is_callback_effect (CallbackEvent _ _ _) = True"
| "is_callback_effect (RanCallback _) = True"
| "is_callback_effect _ = False"

definition hide :: "run_state \<Rightarrow> run_state" where
  "hide st = st\<lparr>rs_effects := [], rs_callbacks := [], rs_snapshot := None\<rparr>"

text \<open>\<open>st'\<close> differs from \<open>st\<close> by effects of one kind, callback records and the callback snapshot.\<close>

definition extends :: "(effect \<Rightarrow> bool) \<Rightarrow> run_state \<Rightarrow> run_state \<Rightarrow> bool" where
  "extends P st st' \<longleftrightarrow> hide st' = hide st \<and> (\<exists>t. rs_effects st' = rs_effects st @ t \<and> list_all P t)"

lemma extends_refl [intro, simp]: "extends P st st"
  by (simp add: extends_def)

lemma extends_trans: "extends P a b \<Longrightarrow> extends P b c \<Longrightarrow> extends P a c"
  by (fastforce simp: extends_def)

lemma extends_mono: "extends P a b \<Longrightarrow> (\<And>e. P e \<Longrightarrow> Q e) \<Longrightarrow> extends Q a b"
  by (auto simp: extends_def list_all_iff)

lemma extends_emit [intro]: "P e \<Longrightarrow> extends P st (emit e st)"
  by (simp add: extends_def emit_def hide_def)

lemma extends_after_emit: "extends P (emit e st) st' \<Longrightarrow> P e \<Longrightarrow> extends P st st'"
  using extends_trans [OF extends_emit] by blast

lemma extends_callbacks [intro, simp]:
  "extends P st (st\<lparr>rs_callbacks := c\<rparr>)" "extends P st (st\<lparr>rs_snapshot := sn\<rparr>)"
  by (simp_all add: extends_def hide_def)

lemma extends_fields:
  assumes "extends P st st'"
  shows "rs_kind st' = rs_kind st" "rs_error st' = rs_error st" "rs_success st' = rs_success st"
    "rs_rows st' = rs_rows st" "rs_schema_version st' = rs_schema_version st"
    "rs_journal st' = rs_journal st"
    "rl_journal_started st' = rl_journal_started st" "rl_started_emitted st' = rl_started_emitted st"
    "rl_terminal_emitted st' = rl_terminal_emitted st" "rl_error_fired st' = rl_error_fired st"
proof -
  have h: "hide st' = hide st" using assms by (simp add: extends_def)
  show "rs_kind st' = rs_kind st" "rs_error st' = rs_error st" "rs_success st' = rs_success st"
    "rs_rows st' = rs_rows st" "rs_schema_version st' = rs_schema_version st"
    "rs_journal st' = rs_journal st"
    "rl_journal_started st' = rl_journal_started st" "rl_started_emitted st' = rl_started_emitted st"
    "rl_terminal_emitted st' = rl_terminal_emitted st" "rl_error_fired st' = rl_error_fired st"
    using arg_cong [OF h, of rs_kind] arg_cong [OF h, of rs_error] arg_cong [OF h, of rs_success]
      arg_cong [OF h, of rs_rows] arg_cong [OF h, of rs_schema_version] arg_cong [OF h, of rs_journal]
      arg_cong [OF h, of rl_journal_started] arg_cong [OF h, of rl_started_emitted]
      arg_cong [OF h, of rl_terminal_emitted] arg_cong [OF h, of rl_error_fired]
    by (simp_all add: hide_def)
qed

lemma in_order_append:
  "in_order (as @ bs) st =
     (case in_order as st of (Some e, s) \<Rightarrow> (Some e, s) | (None, s) \<Rightarrow> in_order bs s)"
  by (induction as arbitrary: st) (auto split: prod.splits option.splits)

lemma extends_in_order:
  "(\<And>a s. a \<in> set as \<Longrightarrow> extends P s (snd (a s))) \<Longrightarrow> extends P st (snd (in_order as st))"
proof (induction as arbitrary: st)
  case (Cons a as)
  have "extends P st (snd (a st))" by (rule Cons.prems) simp
  moreover have "extends P s (snd (in_order as s))" for s by (rule Cons.IH) (simp add: Cons.prems)
  ultimately show ?case
    by (auto split: prod.splits option.splits intro: extends_trans)
qed simp

lemma run_callback_step:
  "run_callback w event cb st = (r, st') \<Longrightarrow> extends is_callback_effect st st'"
  by (auto simp: run_callback_def Let_def split: option.splits exn.splits if_splits
      intro!: extends_emit extends_trans [OF _ extends_emit] extends_trans [OF _ extends_callbacks(1)])

lemma extends_execute_callbacks:
  "extends is_callback_effect st (snd (execute_callbacks w event catalog st))"
proof -
  let ?loop = "in_order (map (run_callback w event) (get_callbacks_by_event event catalog))"
  have loop: "extends is_callback_effect s (snd (?loop s))" for s
    by (rule extends_in_order) (use run_callback_step in \<open>fastforce simp: prod_eq_iff\<close>)
  have "extends is_callback_effect st (snd (?loop (emit (CallbackEvent ev [] None) st)))" for ev
    using loop by (rule extends_after_emit) simp
  with loop show ?thesis
    by (auto simp: execute_callbacks_def Let_def split: option.splits)
qed

lemma extends_fire:
  "\<exists>s. s = emit (Fired event) st \<and> extends is_callback_effect s (snd (fire w event st))"
proof -
  have "extends is_callback_effect s (snd (execute_callbacks w event c (s\<lparr>rs_snapshot := sn\<rparr>)))" for s c sn
    by (rule extends_trans [OF extends_callbacks(2) extends_execute_callbacks])
  then show ?thesis
    using extends_execute_callbacks
    by (auto simp: fire_def Let_def split: option.splits sum.splits)
qed

definition fires :: "string list \<Rightarrow> effect \<Rightarrow> bool" where
  "fires evs e \<longleftrightarrow> is_callback_effect e \<or> e \<in> Fired ` set evs"

lemma extends_fire_one: "ev \<in> set evs \<Longrightarrow> extends (fires evs) s (snd (fire w ev s))"
proof -
  assume ev: "ev \<in> set evs"
  have "extends is_callback_effect (emit (Fired ev) s) (snd (fire w ev s))"
    using extends_fire by blast
  then have "extends (fires evs) (emit (Fired ev) s) (snd (fire w ev s))"
    by (rule extends_mono) (simp add: fires_def)
  then show ?thesis by (rule extends_after_emit) (simp add: ev fires_def)
qed

lemma extends_fires: "extends (fires evs) st (snd (in_order (map (fire w) evs) st))"
  by (rule extends_in_order) (auto intro: extends_fire_one)

subsection \<open>What a run shows to the outside\<close>

text \<open>The script events and the execution of the script, in order; and how often an event was fired.\<close>

fun is_script_effect :: "effect \<Rightarrow> bool" where
  "is_script_effect (ScriptEvent _ _ _ _) = True"
| "is_script_effect (Executed _) = True"
| "is_script_effect _ = False"

definition script_part :: "effect list \<Rightarrow> effect list" where
  "script_part t = filter is_script_effect t"

definition fired :: "string \<Rightarrow> effect list \<Rightarrow> nat" where
  "fired ev t = count_list t (Fired ev)"

text \<open>The part of the journal entry a run makes: its start, and its end with the outcome.\<close>

definition open_entry :: "migration \<Rightarrow> journal \<Rightarrow> journal" where
  "open_entry m = start_migration (script_name m)
     [(''version'', DText (version m)), (''description'', DText (Some (description m))),
      (''type'', DText (Some (type_name (mtype m))))]"

definition whole_entry :: "migration \<Rightarrow> bool \<Rightarrow> string option \<Rightarrow> int \<Rightarrow> journal \<Rightarrow> journal" where
  "whole_entry m ok err time j = end_migration (script_name m) ok err time (open_entry m j)"

text \<open>How far a run has come from \<open>st\<close> to \<open>s\<close>: its script effects, the error events fired, the rows added
  and what it did to the journal.\<close>

definition phase ::
  "run_policy \<Rightarrow> run_state \<Rightarrow> run_state \<Rightarrow> effect list \<Rightarrow> nat \<Rightarrow> migration_info list
   \<Rightarrow> (journal \<Rightarrow> journal) \<Rightarrow> bool" where
  "phase pol st s sp n rows jr \<longleftrightarrow>
     (\<exists>t. rs_effects s = rs_effects st @ t \<and> script_part t = sp \<and> fired (po_error pol) t = n)
     \<and> rs_rows s = rs_rows st @ rows \<and> rs_journal s = map_option jr (rs_journal st)
     \<and> rs_kind s = rs_kind st"

definition flags :: "run_state \<Rightarrow> bool \<Rightarrow> bool \<Rightarrow> bool \<Rightarrow> bool \<Rightarrow> bool" where
  "flags s j a b c \<longleftrightarrow> rl_journal_started s = j \<and> rl_started_emitted s = a
     \<and> rl_terminal_emitted s = b \<and> rl_error_fired s = c"

lemma quiet_trace:
  assumes "list_all (\<lambda>e. fires evs e \<or> (\<exists>n. e = Preflighted n)) t"
  shows "script_part t = []" and "x \<notin> set evs \<Longrightarrow> fired x t = 0"
proof -
  have e: "\<not> is_script_effect e \<and> (x \<notin> set evs \<longrightarrow> e \<noteq> Fired x)" if "e \<in> set t" for e
    using assms that by (cases e) (auto simp: list_all_iff fires_def)
  then show "script_part t = []" by (simp add: script_part_def filter_empty_conv)
  show "x \<notin> set evs \<Longrightarrow> fired x t = 0"
    using e by (auto simp: fired_def count_list_0_iff)
qed

lemma phase_same [simp]:
  "phase pol st (s\<lparr>rl_journal_started := x\<rparr>) sp n rows jr = phase pol st s sp n rows jr"
  "phase pol st (s\<lparr>rl_started_emitted := x\<rparr>) sp n rows jr = phase pol st s sp n rows jr"
  "phase pol st (s\<lparr>rl_terminal_emitted := x\<rparr>) sp n rows jr = phase pol st s sp n rows jr"
  "phase pol st (s\<lparr>rl_error_fired := x\<rparr>) sp n rows jr = phase pol st s sp n rows jr"
  "phase pol (st\<lparr>rl_journal_started := x\<rparr>) s sp n rows jr = phase pol st s sp n rows jr"
  "phase pol (st\<lparr>rl_started_emitted := x\<rparr>) s sp n rows jr = phase pol st s sp n rows jr"
  "phase pol (st\<lparr>rl_terminal_emitted := x\<rparr>) s sp n rows jr = phase pol st s sp n rows jr"
  "phase pol (st\<lparr>rl_error_fired := x\<rparr>) s sp n rows jr = phase pol st s sp n rows jr"
  by (simp_all add: phase_def)

lemma phase_set_error [simp]: "phase pol st (set_error m s) sp n rows jr = phase pol st s sp n rows jr"
  by (simp add: phase_def set_error_def)

lemma phase_quiet:
  "phase pol st s sp n rows jr \<Longrightarrow> extends (\<lambda>e. fires evs e \<or> (\<exists>n. e = Preflighted n)) s s'
   \<Longrightarrow> po_error pol \<notin> set evs \<Longrightarrow> phase pol st s' sp n rows jr"
  using extends_fields(1,4,6) [of _ s s'] quiet_trace
  by (fastforce simp: phase_def extends_def script_part_def fired_def)

lemma phase_fire_error:
  assumes "phase pol st s sp n rows jr"
  shows "phase pol st (snd (fire w (po_error pol) s)) sp (Suc n) rows jr"
proof -
  let ?s = "snd (fire w (po_error pol) s)"
  have x: "extends is_callback_effect (emit (Fired (po_error pol)) s) ?s"
    using extends_fire by blast
  then obtain t where t: "rs_effects ?s = rs_effects s @ Fired (po_error pol) # t" "list_all is_callback_effect t"
    by (auto simp: extends_def emit_def)
  have "list_all (\<lambda>e. fires [] e \<or> (\<exists>n. e = Preflighted n)) t"
    using t(2) by (auto simp: list_all_iff fires_def)
  then have "script_part t = []" "fired (po_error pol) t = 0"
    using quiet_trace(1) [of "[]" t] quiet_trace(2) [of "[]" t "po_error pol"] by simp_all
  then show ?thesis
    using assms t(1) extends_fields(1,4,6) [OF x] by (auto simp: phase_def script_part_def fired_def emit_def)
qed

lemma phase_emit:
  "phase pol st s sp n rows jr \<Longrightarrow> is_script_effect e \<Longrightarrow> phase pol st (emit e s) (sp @ [e]) n rows jr"
  by (cases e) (auto simp: phase_def emit_def script_part_def fired_def)

lemma phase_events:
  "phase pol st s sp n rows jr
   \<Longrightarrow> phase pol st (fold (\<lambda>ev. emit (ScriptEvent ev d x y)) evs s) (sp @ map (\<lambda>ev. ScriptEvent ev d x y) evs) n rows jr"
proof (induction evs arbitrary: s sp)
  case (Cons ev evs)
  show ?case using Cons.IH [OF phase_emit [OF Cons.prems, of "ScriptEvent ev d x y"]] by simp
qed simp

lemma flags_simps [simp]:
  "flags (emit e s) j a b c = flags s j a b c"
  "flags (set_error msg s) j a b c = flags s j a b c"
  "flags (journal_end m ok err time s) j a b c = flags s j a b c"
  "flags (s\<lparr>rs_rows := x\<rparr>) j a b c = flags s j a b c"
  by (auto simp: flags_def emit_def set_error_def journal_end_def split: option.splits)

lemma flags_extends: "extends P s s' \<Longrightarrow> flags s' j a b c = flags s j a b c"
  using extends_fields [of P s s'] by (simp add: flags_def)

lemma flags_fold [simp]: "flags (fold (\<lambda>ev. emit (f ev)) evs s) j a b c = flags s j a b c"
  by (induction evs arbitrary: s) simp_all

subsection \<open>The phases of a run\<close>

definition quiet_before :: "run_policy \<Rightarrow> effect \<Rightarrow> bool" where
  "quiet_before pol e \<longleftrightarrow> fires (po_before pol) e \<or> (\<exists>n. e = Preflighted n)"

definition started :: "migration \<Rightarrow> event_data \<Rightarrow> run_state \<Rightarrow> run_state" where
  "started m data s = emit (ScriptEvent ''migration.script.started'' data None None) (journal_start m s)
     \<lparr>rl_started_emitted := True\<rparr>"

lemma begin_script_cases:
  obtains (refused) e s where "begin_script w pol m data st = (Some e, s)" "extends (quiet_before pol) st s"
  | (ran) s where "begin_script w pol m data st = execute_migration w m (started m data s)"
      "extends (quiet_before pol) st s"
proof -
  let ?pre = "map (fire w) (po_before pol) @ (if wd_checks w then [preflight_sql w [script_name m]] else [])"
  have pre: "extends (quiet_before pol) st (snd (in_order ?pre st))"
  proof (rule extends_in_order)
    fix a s assume "a \<in> set ?pre"
    then consider ev where "ev \<in> set (po_before pol)" "a = fire w ev" | "a = preflight_sql w [script_name m]"
      by (auto split: if_splits)
    then show "extends (quiet_before pol) s (snd (a s))"
    proof cases
      case 1
      then show ?thesis
        using extends_mono [OF extends_fire_one [OF 1(1)], of "quiet_before pol" s w]
        by (simp add: quiet_before_def)
    next
      case 2
      then show ?thesis by (auto simp: preflight_sql_def Let_def quiet_before_def)
    qed
  qed
  have split: "begin_script w pol m data st =
      (case in_order ?pre st of (Some e, s) \<Rightarrow> (Some e, s)
       | (None, s) \<Rightarrow> execute_migration w m (started m data s))"
    unfolding begin_script_def append_assoc [symmetric] in_order_append [of ?pre]
    by (simp add: always_def started_def split: prod.split option.split)
  obtain r s where rs: "in_order ?pre st = (r, s)" by (cases "in_order ?pre st")
  show thesis
  proof (cases r)
    case None
    with rs split pre show thesis by (intro ran [of s]) simp_all
  next
    case (Some e)
    with rs split pre show thesis by (intro refused [of e s]) simp_all
  qed
qed

lemma begin_script_phases:
  assumes b: "begin_script w pol m data st = (r, s)" and fl: "flags st False False False False"
    and ne: "po_error pol \<notin> set (po_before pol)"
  shows "(r \<noteq> None \<and> phase pol st s [] 0 [] id \<and> flags s False False False False)
    \<or> (phase pol st s [ScriptEvent ''migration.script.started'' data None None, Executed (script_name m)]
          0 [] (open_entry m)
       \<and> flags s (rs_journal st \<noteq> None) True False False)"
proof -
  have p0: "phase pol st st [] 0 [] id"
    by (simp add: phase_def script_part_def fired_def option.map_id0)
  show ?thesis
  proof (cases rule: begin_script_cases [of w pol m data st])
    case (refused e s')
    then show ?thesis
      using b phase_quiet [OF p0 refused(2) [unfolded quiet_before_def [abs_def]]] ne
        flags_extends [OF refused(2)] fl by simp
  next
    case (ran s0)
    have p1: "phase pol st s0 [] 0 [] id"
      by (rule phase_quiet [OF p0 ran(2) [unfolded quiet_before_def [abs_def]] ne])
    then have j: "rs_journal s0 = rs_journal st" by (simp add: phase_def option.map_id0)
    have "phase pol st (journal_start m s0) [] 0 [] (open_entry m)"
      using p1 by (auto simp: phase_def journal_start_def open_entry_def split: option.splits)
    then have "phase pol st (started m data s0) [ScriptEvent ''migration.script.started'' data None None] 0 []
        (open_entry m)"
      unfolding started_def phase_same using phase_emit by fastforce
    from phase_emit [OF this, of "Executed (script_name m)"]
    have p: "phase pol st (emit (Executed (script_name m)) (started m data s0))
        [ScriptEvent ''migration.script.started'' data None None, Executed (script_name m)] 0 [] (open_entry m)"
      by simp
    have "flags (started m data s0) (rs_journal st \<noteq> None) True False False"
      using fl flags_extends [OF ran(2)] j
      by (auto simp: flags_def started_def journal_start_def emit_def split: option.splits)
    with p show ?thesis
      using b ran(1) by (auto simp: execute_migration_def Let_def split: prod.splits option.splits)
  qed
qed

subsection \<open>Every run keeps its promises\<close>

definition opening_part :: "migration \<Rightarrow> event_data \<Rightarrow> effect list" where
  "opening_part m data = [ScriptEvent ''migration.script.started'' data None None, Executed (script_name m)]"

definition failed_part :: "event_data \<Rightarrow> string option \<Rightarrow> int \<Rightarrow> effect list" where
  "failed_part data err time = [ScriptEvent ''migration.script.failed'' data err (Some time)]"

definition completed_part :: "run_policy \<Rightarrow> event_data \<Rightarrow> int \<Rightarrow> effect list" where
  "completed_part pol data time = map (\<lambda>ev. ScriptEvent ev data None (Some time)) (po_completed pol)"

lemma fire_error_raises:
  assumes "contains ev ''Error''" "fire w ev s = (Some e, s')"
  shows "wd_bound w = None \<or> (\<exists>t. wd_callback_catalog w t = Inl e)"
proof -
  have "fst (run_callback w ev cb s) = None" for cb s
    using assms(1) by (auto simp: run_callback_def Let_def split: option.splits)
  then have "fst (in_order (map (run_callback w ev) cbs) s) = None" for cbs s
    by (induction cbs arbitrary: s) (auto split: prod.splits option.splits simp: prod_eq_iff)
  then have "fst (execute_callbacks w ev c s) = None" for c s
    by (auto simp: execute_callbacks_def Let_def split: option.splits)
  then show ?thesis
    using assms(2) by (auto simp: fire_def Let_def prod_eq_iff split: option.splits sum.splits)
qed

lemma fire_keeps:
  assumes "fire w ev s = (r, s')"
  shows "rs_error s' = rs_error s" "flags s' j a b c = flags s j a b c"
proof -
  have x: "extends is_callback_effect (emit (Fired ev) s) s'"
    using extends_fire [of ev s w] assms by auto
  show "rs_error s' = rs_error s" using extends_fields(2) [OF x] by (simp add: emit_def)
  show "flags s' j a b c = flags s j a b c" using flags_extends [OF x] by simp
qed

lemma phase_journal_end:
  "phase pol st s sp n rows (open_entry m)
   \<Longrightarrow> phase pol st (journal_end m ok err time s) sp n rows (whole_entry m ok err time)"
  by (cases "rs_journal st") (auto simp: phase_def journal_end_def whole_entry_def)

lemma phase_rows:
  "phase pol st s sp n [] jr \<Longrightarrow> phase pol st (s\<lparr>rs_rows := rs_rows s @ rows\<rparr>) sp n rows jr"
  by (simp add: phase_def)

lemma error_fold: "rs_error (fold (\<lambda>ev. emit (g ev)) evs u) = rs_error u"
  by (induction evs arbitrary: u) (simp_all add: emit_def)

lemma engine_failure_phase:
  assumes "phase pol st s (opening_part m data) 0 [] (open_entry m)" "flags s j True False False"
    "engine_failure w pol m data time s = (r, s')"
  shows "phase pol st s' (opening_part m data @ failed_part data (rs_error s) time) 1 []
           (whole_entry m False (rs_error s) time)"
    "flags s' False True True True" "rs_error s' = rs_error s"
proof -
  let ?s1 = "(journal_end m False (rs_error s) time s)\<lparr>rl_journal_started := False\<rparr>"
  let ?s2 = "(report_failed data (rs_error s) time ?s1)\<lparr>rl_terminal_emitted := True, rl_error_fired := True\<rparr>"
  have f: "fire w (po_error pol) ?s2 = (r, s')"
    using assms(3) by (simp add: engine_failure_def Let_def journal_end_def split: option.splits)
  have "phase pol st (journal_end m False (rs_error s) time s) (opening_part m data) 0 []
      (whole_entry m False (rs_error s) time)"
    using assms(1) by (rule phase_journal_end)
  then have "phase pol st ?s2 (opening_part m data @ failed_part data (rs_error s) time) 0 []
      (whole_entry m False (rs_error s) time)"
    unfolding report_failed_def failed_part_def phase_same by (intro phase_emit) simp_all
  from phase_fire_error [OF this, of w]
  show "phase pol st s' (opening_part m data @ failed_part data (rs_error s) time) 1 []
      (whole_entry m False (rs_error s) time)" by (simp add: f)
  have "flags ?s2 False True True True"
    using assms(2) by (simp add: flags_def report_failed_def emit_def journal_end_def split: option.splits)
  then show "flags s' False True True True" using fire_keeps(2) [OF f] by simp
  show "rs_error s' = rs_error s"
    using fire_keeps(1) [OF f] by (simp add: report_failed_def emit_def journal_end_def split: option.splits)
qed

lemma finish_script_phase:
  assumes "phase pol st s (opening_part m data) 0 [] (open_entry m)" "flags s j True False False"
    "finish_script w pol m data row time s = (r, s')" "po_error pol \<notin> set (po_after pol)"
  shows "phase pol st s' (opening_part m data @ completed_part pol data time) 0 [row time]
           (whole_entry m True None time)"
    "flags s' False True True False" "rs_error s' = rs_error s"
proof -
  let ?s1 = "(journal_end m True None time s)\<lparr>rl_journal_started := False\<rparr>"
  let ?s2 = "?s1\<lparr>rs_rows := rs_rows ?s1 @ [row time]\<rparr>"
  let ?s3 = "(fold (\<lambda>ev. emit (ScriptEvent ev data None (Some time))) (po_completed pol) ?s2)
               \<lparr>rl_terminal_emitted := True\<rparr>"
  have f: "in_order (map (fire w) (po_after pol)) ?s3 = (r, s')"
    using assms(3) by (simp add: finish_script_def Let_def)
  have x: "extends (\<lambda>e. fires (po_after pol) e \<or> (\<exists>n. e = Preflighted n)) ?s3 s'"
    using extends_fires [of "po_after pol" ?s3 w] unfolding f snd_conv
    by (rule extends_mono) blast
  have "phase pol st ?s2 (opening_part m data) 0 [row time] (whole_entry m True None time)"
    by (rule phase_rows) (simp add: phase_journal_end [OF assms(1)])
  from phase_events [OF this, of data None "Some time" "po_completed pol"]
  have "phase pol st ?s3 (opening_part m data @ completed_part pol data time) 0 [row time] (whole_entry m True None time)"
    unfolding completed_part_def phase_same .
  then show "phase pol st s' (opening_part m data @ completed_part pol data time) 0 [row time]
      (whole_entry m True None time)"
    by (rule phase_quiet [OF _ x assms(4)])
  have "flags ?s2 False True False False"
    using assms(2) by (simp add: flags_def journal_end_def split: option.splits)
  then have "flags (fold (\<lambda>ev. emit (ScriptEvent ev data None (Some time))) (po_completed pol) ?s2)
      False True False False"
    unfolding flags_fold .
  then have "flags ?s3 False True True False" by (simp add: flags_def)
  then show "flags s' False True True False" using flags_extends [OF x] by simp
  show "rs_error s' = rs_error s"
    using extends_fields(2) [OF x] by (simp add: error_fold journal_end_def split: option.splits)
qed

text \<open>How the \<open>try\<close> block can leave: before the script, with the script running, after the engine
  reported a failure, or after the script was applied.\<close>

inductive try_exit ::
  "world \<Rightarrow> run_policy \<Rightarrow> migration \<Rightarrow> event_data \<Rightarrow> (int \<Rightarrow> migration_info) \<Rightarrow> run_state \<Rightarrow> exn + bool \<Rightarrow> run_state \<Rightarrow> bool"
  for w pol m data row st where
  exit_before: "phase pol st s [] 0 [] id \<Longrightarrow> flags s False False False False
    \<Longrightarrow> try_exit w pol m data row st (Inl e) s"
| exit_running: "phase pol st s (opening_part m data) 0 [] (open_entry m)
    \<Longrightarrow> flags s (rs_journal st \<noteq> None) True False False \<Longrightarrow> try_exit w pol m data row st (Inl e) s"
| exit_failed: "phase pol st s (opening_part m data @ failed_part data err time) 1 [] (whole_entry m False err time)
    \<Longrightarrow> flags s False True True True \<Longrightarrow> truthy (rs_error s)
    \<Longrightarrow> r = Inr False \<or> (\<exists>e t. r = Inl e \<and> fire w (po_error pol) t = (Some e, s))
    \<Longrightarrow> try_exit w pol m data row st r s"
| exit_applied: "phase pol st s (opening_part m data @ completed_part pol data time) 0 [row time] (whole_entry m True None time)
    \<Longrightarrow> flags s False True True False \<Longrightarrow> \<not> truthy (rs_error s)
    \<Longrightarrow> r = Inr True \<or> (\<exists>e. r = Inl e) \<Longrightarrow> try_exit w pol m data row st r s"

lemma try_script_exit:
  assumes "flags st False False False False"
    "po_error pol \<notin> set (po_before pol)" "po_error pol \<notin> set (po_after pol)"
    "try_script w pol m data row st = (r, s)"
  shows "try_exit w pol m data row st r s
    \<and> (case r of Inr False \<Rightarrow> truthy (rs_error s) | _ \<Rightarrow> True)"
proof -
  obtain r1 s1 where b: "begin_script w pol m data st = (r1, s1)" by (cases "begin_script w pol m data st")
  let ?time = "wd_elapsed w (rs_effects s1)"
  show ?thesis
  proof (cases r1)
    case (Some e)
    then show ?thesis
      using begin_script_phases [OF b assms(1,2)] assms(4) b
      by (auto simp: try_script_def opening_part_def intro: exit_before exit_running)
  next
    case None
    then have p: "phase pol st s1 (opening_part m data) 0 [] (open_entry m)"
        "flags s1 (rs_journal st \<noteq> None) True False False"
      using begin_script_phases [OF b assms(1,2)] by (simp_all add: opening_part_def)
    show ?thesis
    proof (cases "truthy (rs_error s1)")
      case True
      obtain r2 s2 where f: "engine_failure w pol m data ?time s1 = (r2, s2)"
        by (cases "engine_failure w pol m data ?time s1")
      have "s = s2" "r = (case r2 of None \<Rightarrow> Inr False | Some e \<Rightarrow> Inl e)"
        using assms(4) b None True f by (auto simp: try_script_def Let_def split: option.splits)
      moreover obtain t where "fire w (po_error pol) t = (r2, s2)"
        using f by (simp add: engine_failure_def Let_def)
      ultimately have "r = Inr False \<or> (\<exists>e t. r = Inl e \<and> fire w (po_error pol) t = (Some e, s))"
        by (cases r2) auto
      moreover have "truthy (rs_error s)"
        using engine_failure_phase(3) [OF p f] True \<open>s = s2\<close> by simp
      ultimately show ?thesis
        using exit_failed [OF engine_failure_phase(1,2) [OF p f]] \<open>s = s2\<close>
        by (auto split: sum.split)
    next
      case False
      obtain r2 s2 where f: "finish_script w pol m data row ?time s1 = (r2, s2)"
        by (cases "finish_script w pol m data row ?time s1")
      have "s = s2" "r = (case r2 of None \<Rightarrow> Inr True | Some e \<Rightarrow> Inl e)"
        using assms(4) b None False f by (auto simp: try_script_def Let_def split: option.splits)
      then show ?thesis
        using finish_script_phase [OF p f assms(3)] False by (cases r2) (auto intro: exit_applied)
    qed
  qed
qed

text \<open>The promises of a run, over the events, the journal and the rows of the result.\<close>

definition run_verdict :: "world \<Rightarrow> exn + bool \<Rightarrow> run_state \<Rightarrow> bool" where
  "run_verdict w r s \<longleftrightarrow>
     (case r of
        Inr True \<Rightarrow> \<not> truthy (rs_error s)
      | Inr False \<Rightarrow> rs_error s \<noteq> None
      | Inl e \<Rightarrow> wd_bound w = None \<or> (\<exists>t. wd_callback_catalog w t = Inl e))"

inductive run_promises ::
  "world \<Rightarrow> run_policy \<Rightarrow> migration \<Rightarrow> event_data \<Rightarrow> (int \<Rightarrow> migration_info) \<Rightarrow> run_state
   \<Rightarrow> exn + bool \<Rightarrow> run_state \<Rightarrow> bool"
  for w pol m data row st where
  promise_before: "phase pol st s [] n [] id \<Longrightarrow> n \<le> 1 \<Longrightarrow> r \<noteq> Inr True \<Longrightarrow> run_verdict w r s
    \<Longrightarrow> run_promises w pol m data row st r s"
| promise_failed: "phase pol st s (opening_part m data @ failed_part data err time) n []
        (whole_entry m False err time) \<Longrightarrow> n \<le> 1 \<Longrightarrow> r \<noteq> Inr True \<Longrightarrow> run_verdict w r s
    \<Longrightarrow> run_promises w pol m data row st r s"
| promise_applied: "phase pol st s (opening_part m data @ completed_part pol data time) n [row time]
        (whole_entry m True None time) \<Longrightarrow> n \<le> 1 \<Longrightarrow> n = 0 \<or> r \<noteq> Inr True \<Longrightarrow> run_verdict w r s
    \<Longrightarrow> run_promises w pol m data row st r s"

lemma close_failed_running:
  assumes "phase pol st s (opening_part m data) n [] (open_entry m)"
    "flags s (rs_journal st \<noteq> None) True False False"
  shows "phase pol st (close_failed m data err time s)
           (opening_part m data @ failed_part data (Some err) time) n [] (whole_entry m False (Some err) time)"
proof -
  have "phase pol st (if rl_journal_started s then journal_end m False (Some err) time s else s)
      (opening_part m data) n [] (whole_entry m False (Some err) time)"
  proof (cases "rs_journal st")
    case None
    then show ?thesis using assms by (simp add: phase_def flags_def)
  next
    case (Some j)
    then show ?thesis using phase_journal_end [OF assms(1)] assms(2) by (simp add: flags_def)
  qed
  moreover have "rl_started_emitted (journal_end m False (Some err) time s)"
      "\<not> rl_terminal_emitted (journal_end m False (Some err) time s)"
    using assms(2) by (simp_all add: flags_def journal_end_def split: option.splits)
  ultimately show ?thesis
    using assms(2) phase_emit
    by (auto simp: close_failed_def Let_def flags_def report_failed_def failed_part_def)
qed

lemma close_failed_other:
  "flags s False a b c \<Longrightarrow> a = b \<Longrightarrow> close_failed m data err time s = s"
  by (auto simp: close_failed_def flags_def)

lemma close_failed_keeps: "rs_error (close_failed m data err time s) = rs_error s"
  by (simp add: close_failed_def Let_def journal_end_def report_failed_def emit_def split: option.splits)

text \<open>The error event is fired last: whatever the state was before, one more event and nothing else.\<close>

lemma on_exception_fires:
  assumes "on_exception w pol m data e s = (r, s')" "\<not> rl_error_fired s"
    "contains (po_error pol) ''Error''"
  obtains err time s1 where "s1 = s \<or> (\<exists>msg. s1 = set_error msg s)"
    "\<And>sp rows jr. phase pol st (close_failed m data err time s1) sp 0 rows jr \<Longrightarrow> phase pol st s' sp 1 rows jr"
    "r \<noteq> Inr True" "run_verdict w r s'"
proof -
  let ?s1 = "if truthy (rs_error s) then s else set_error (po_failure_prefix pol @ '': '' @ reason_of e) s"
  let ?err = "the (or_else (rs_error s) (Some (reason_of e)))" and ?time = "wd_elapsed w (rs_effects ?s1)"
  let ?s2 = "close_failed m data ?err ?time ?s1"
  obtain r2 where f: "fire w (po_error pol) ?s2 = (r2, s')" and r: "r = (case r2 of None \<Rightarrow> Inr False | Some e \<Rightarrow> Inl e)"
    using assms(1,2) by (auto simp: on_exception_def Let_def split: prod.splits option.splits)
  have "phase pol st ?s2 sp 0 rows jr \<Longrightarrow> phase pol st s' sp 1 rows jr" for sp rows jr
    using phase_fire_error [of pol st ?s2 sp 0 rows jr w] unfolding f by simp
  moreover have "rs_error s' \<noteq> None"
    using fire_keeps(1) [OF f] by (auto simp: close_failed_keeps set_error_def truthy_def split: option.splits)
  then have "run_verdict w r s'"
    using r fire_error_raises [OF assms(3)] f by (auto simp: run_verdict_def split: option.splits)
  moreover have "?s1 = s \<or> (\<exists>msg. ?s1 = set_error msg s)" by auto
  ultimately show thesis using r by (intro that [of ?s1 ?err ?time]) (auto split: option.splits)
qed

lemma flags_maybe_error: "s1 = s \<or> (\<exists>msg. s1 = set_error msg s) \<Longrightarrow> flags s1 j a b c = flags s j a b c"
  by auto

lemma phase_maybe_error:
  "s1 = s \<or> (\<exists>msg. s1 = set_error msg s) \<Longrightarrow> phase pol st s1 sp n rows jr = phase pol st s sp n rows jr"
  by auto

text \<open>An exception that left the \<open>try\<close> block, and the handler that got it: \<open>k\<close> tells how many error
  events the handler fired.\<close>

lemma handled_promises:
  assumes exit: "try_exit w pol m data row st (Inl e) s1"
    and sx: "sx = s1 \<or> (\<exists>msg. sx = set_error msg s1)"
    and step: "\<And>sp n rows jr. phase pol st (close_failed m data err time sx) sp n rows jr
        \<Longrightarrow> n = 0 \<or> k = 0 \<Longrightarrow> phase pol st s sp (n + k) rows jr"
    and k: "k \<le> 1" "rl_error_fired s1 \<Longrightarrow> k = 0" and r: "r \<noteq> Inr True" "run_verdict w r s"
  shows "run_promises w pol m data row st r s"
  using exit
proof cases
  case exit_before
  then have "phase pol st (close_failed m data err time sx) [] 0 [] id"
    using close_failed_other [of sx False False False m data err time] phase_maybe_error [OF sx]
      flags_maybe_error [OF sx] by simp
  with step [of "[]" 0 "[]" id] show ?thesis using k r by (intro promise_before) simp_all
next
  case exit_running
  then have "phase pol st (close_failed m data err time sx)
      (opening_part m data @ failed_part data (Some err) time) 0 [] (whole_entry m False (Some err) time)"
    using phase_maybe_error [OF sx] flags_maybe_error [OF sx] by (intro close_failed_running) simp_all
  from step [OF this] show ?thesis using k r by (intro promise_failed) simp_all
next
  case (exit_failed err' time')
  then have "phase pol st (close_failed m data err time sx)
      (opening_part m data @ failed_part data err' time') 1 [] (whole_entry m False err' time')"
    using close_failed_other [of sx True True True m data err time] phase_maybe_error [OF sx]
      flags_maybe_error [OF sx] by simp
  moreover have "k = 0" using exit_failed(2) k(2) by (simp add: flags_def)
  ultimately show ?thesis using step r by (intro promise_failed) fastforce+
next
  case (exit_applied time')
  then have "phase pol st (close_failed m data err time sx)
      (opening_part m data @ completed_part pol data time') 0 [row time'] (whole_entry m True None time')"
    using close_failed_other [of sx True True False m data err time] phase_maybe_error [OF sx]
      flags_maybe_error [OF sx] by simp
  from step [OF this] show ?thesis using k r by (intro promise_applied) simp_all
qed

lemma run_script_promises:
  assumes "po_error pol \<notin> set (po_before pol)" "po_error pol \<notin> set (po_after pol)"
    and err: "contains (po_error pol) ''Error''"
    and run: "run_script w pol m data row st = (r, s)"
  shows "run_promises w pol m data row st r s"
proof -
  let ?st = "st\<lparr>rl_journal_started := False, rl_started_emitted := False,
                rl_terminal_emitted := False, rl_error_fired := False\<rparr>"
  obtain r1 s1 where t: "try_script w pol m data row ?st = (r1, s1)" by (cases "try_script w pol m data row ?st")
  have "flags ?st False False False False" by (simp add: flags_def)
  note exit = try_script_exit [OF this assms(1,2) t]
  have "run_promises w pol m data row ?st r s"
  proof (cases r1)
    case (Inr ok)
    then have "r = Inr ok" "s = s1" using run t by (simp_all add: run_script_def)
    with exit Inr show ?thesis
      by (auto simp: run_verdict_def truthy_def simp del: phase_same elim!: try_exit.cases
          intro: promise_failed promise_applied split: option.splits)
  next
    case (Inl e)
    then have x: "try_exit w pol m data row ?st (Inl e) s1" using exit by simp
    show ?thesis
    proof (cases "\<exists>reason. e = SqlPreflightError reason")
      case True
      then obtain reason where "e = SqlPreflightError reason" ..
      then have "(r, s) = on_preflight_error w m data reason s1"
        using run t Inl by (simp add: run_script_def)
      then have "r = Inr False" "s = close_failed m data reason (wd_elapsed w (rs_effects (set_error reason s1)))
          (set_error reason s1)"
        by (simp_all add: on_preflight_error_def Let_def)
      then show ?thesis
        by (intro handled_promises [OF x, where sx = "set_error reason s1" and k = 0])
          (auto simp: run_verdict_def close_failed_keeps set_error_def simp del: phase_same)
    next
      case False
      then have h: "on_exception w pol m data e s1 = (r, s)"
        using run t Inl by (cases e) (simp_all add: run_script_def)
      show ?thesis
      proof (cases "rl_error_fired s1")
        case True
        with x obtain err time t' where "phase pol ?st s1 (opening_part m data @ failed_part data err time) 1 []
            (whole_entry m False err time)" "fire w (po_error pol) t' = (Some e, s1)"
          by (auto elim!: try_exit.cases simp: flags_def simp del: phase_same)
        moreover have "r = Inl e" "s = s1" using h True by (simp_all add: on_exception_def)
        ultimately show ?thesis
          using fire_error_raises [OF err] by (intro promise_failed) (auto simp: run_verdict_def)
      next
        case nf: False
        obtain err' time s2 where "s2 = s1 \<or> (\<exists>msg. s2 = set_error msg s1)"
          "\<And>sp rows jr. phase pol ?st (close_failed m data err' time s2) sp 0 rows jr \<Longrightarrow> phase pol ?st s sp 1 rows jr"
          "r \<noteq> Inr True" "run_verdict w r s"
          using on_exception_fires [OF h nf err] by metis
        with x nf show ?thesis
          by (intro handled_promises [OF x, where sx = s2 and k = 1 and err = err' and time = time]) auto
      qed
    qed
  qed
  then show ?thesis by cases (auto intro: promise_before promise_failed promise_applied)
qed

definition policy_of :: "result_kind \<Rightarrow> run_policy" where
  "policy_of k = (case k of MigrateResult \<Rightarrow> MIGRATE_POLICY | UndoResult \<Rightarrow> UNDO_POLICY)"

lemma policy_error:
  "po_error (policy_of k) \<notin> set (po_before (policy_of k))"
  "po_error (policy_of k) \<notin> set (po_after (policy_of k))"
  "contains (po_error (policy_of k)) ''Error''"
  by (cases k; simp add: policy_of_def MIGRATE_POLICY_def UNDO_POLICY_def; code_simp)+


subsection \<open>The text of an error\<close>

lemma starts_with_length: "old \<noteq> [] \<and> starts_with s old \<Longrightarrow> length old \<le> length s"
  by (auto simp: starts_with_iff dest: arg_cong [of s _ length])

lemma length_replace_all: "length new \<le> length old \<Longrightarrow> length (replace_all old new s) \<le> length s"
proof (induction old new s rule: replace_all.induct)
  case (2 old new c s)
  show ?case
  proof (cases "old \<noteq> [] \<and> starts_with (c # s) old")
    case True
    then have "length old \<le> length (c # s)" by (rule starts_with_length)
    then show ?thesis using 2 True by simp
  qed (use 2 in auto)
qed simp

lemma length_replace_all_less:
  "length new < length old \<Longrightarrow> contains s old \<Longrightarrow> length (replace_all old new s) < length s"
proof (induction old new s rule: replace_all.induct)
  case (1 old new)
  then show ?case by (auto simp: contains_def split: if_splits)
next
  case (2 old new c s)
  show ?case
  proof (cases "old \<noteq> [] \<and> starts_with (c # s) old")
    case True
    then have "length old \<le> length (c # s)" by (rule starts_with_length)
    moreover have "length (replace_all old new (drop (length old) (c # s))) \<le> length (drop (length old) (c # s))"
      using 2(3) by (intro length_replace_all) simp
    ultimately show ?thesis using 2(3) True by simp
  next
    case False
    then have "contains s old" using 2(3,4) by (auto simp: contains_def split: if_splits)
    then show ?thesis using 2(2) [OF False] 2(3) False by auto
  qed
qed

text \<open>\<open>UndoResult\<close> keeps the text of an error; \<open>MigrateResult\<close> keeps it exactly when it has no
  line that starts with "Version" and nowhere the letters "nversion": an error about a "conversion"
  is not the one the database gave.\<close>

theorem set_error_keeps_text:
  "rs_error (set_error m st) = Some m \<longleftrightarrow>
     (case rs_kind st of UndoResult \<Rightarrow> True
      | MigrateResult \<Rightarrow> \<not> contains m ''nversion'' \<and> \<not> contains m (CHR 0x0A # ''Version''))"
proof -
  let ?v = "CHR 0x0A # ''Version''"
  have "clean_error m = m \<longleftrightarrow> \<not> contains m ''nversion'' \<and> \<not> contains m ?v"
  proof (cases "contains m ?v")
    case True
    have "length (replace_all ?v ''Version'' m) < length m"
      by (rule length_replace_all_less) (simp_all add: True)
    moreover have "length (replace_all ''nversion'' ''version'' x) \<le> length x" for x
      by (rule length_replace_all) simp
    ultimately have "length (clean_error m) < length m"
      by (auto simp: clean_error_def intro: le_less_trans)
    then show ?thesis using True by auto
  next
    case False
    then have "clean_error m = replace_all ''nversion'' ''version'' m"
      by (simp add: clean_error_def replace_all_absent)
    then show ?thesis
      using False length_replace_all_less [of "''version''" "''nversion''" m]
      by (cases "contains m ''nversion''") (auto simp: replace_all_absent)
  qed
  then show ?thesis by (cases "rs_kind st") (simp_all add: set_error_def)
qed

end
