(* ===== verification/Effects.thy ===== *)
theory Effects
  imports Runner
begin

text \<open>
  Which effects the steps of a command may have: a step \<open>grows\<close> the effects of the state by effects of
  a kind. A run of a script never touches the migration lock.
\<close>

subsection \<open>Effects of the steps\<close>

definition grows :: "(effect \<Rightarrow> bool) \<Rightarrow> run_state \<Rightarrow> run_state \<Rightarrow> bool" where
  "grows P st st' \<longleftrightarrow> (\<exists>t. rs_effects st' = rs_effects st @ t \<and> list_all P t)"

lemma grows_refl [simp]: "grows P st st"
  by (simp add: grows_def)

lemma grows_trans: "grows P a b \<Longrightarrow> grows P b c \<Longrightarrow> grows P a c"
  by (fastforce simp: grows_def)

lemma grows_mono: "grows P a b \<Longrightarrow> (\<And>e. P e \<Longrightarrow> Q e) \<Longrightarrow> grows Q a b"
  by (auto simp: grows_def list_all_iff)

lemma grows_extends: "extends P a b \<Longrightarrow> grows P a b"
  by (simp add: extends_def grows_def)

lemma grows_same [simp]:
  "grows P st (set_error m s) = grows P st s"
  "grows P st (s\<lparr>rs_rows := x1\<rparr>) = grows P st s"
  "grows P st (s\<lparr>rs_sql := x2\<rparr>) = grows P st s"
  "grows P st (s\<lparr>rs_warn := x3\<rparr>) = grows P st s"
  "grows P st (s\<lparr>rs_journal := x4\<rparr>) = grows P st s"
  "grows P st (s\<lparr>rs_schema_version := x5\<rparr>) = grows P st s"
  "grows P st (s\<lparr>rs_dry_run_count := x6\<rparr>) = grows P st s"
  "grows P st (s\<lparr>rs_history_exists := x7\<rparr>) = grows P st s"
  "grows P st (s\<lparr>rl_journal_started := x8\<rparr>) = grows P st s"
  "grows P st (s\<lparr>rl_started_emitted := x8\<rparr>) = grows P st s"
  "grows P st (s\<lparr>rl_terminal_emitted := x8\<rparr>) = grows P st s"
  "grows P st (s\<lparr>rl_error_fired := x8\<rparr>) = grows P st s"
  "grows P st (journal_start mg s) = grows P st s"
  "grows P st (journal_end mg ok err time s) = grows P st s"
  by (auto simp: grows_def set_error_def journal_start_def journal_end_def split: option.split)

lemma grows_from_same [simp]:
  "grows P (set_error m s) st = grows P s st"
  "grows P (s\<lparr>rs_rows := x1\<rparr>) st = grows P s st"
  "grows P (s\<lparr>rs_sql := x2\<rparr>) st = grows P s st"
  "grows P (s\<lparr>rs_schema_version := x5\<rparr>) st = grows P s st"
  "grows P (s\<lparr>rs_history_exists := x7\<rparr>) st = grows P s st"
  "grows P (s\<lparr>rs_warn := x3\<rparr>) st = grows P s st"
  "grows P (s\<lparr>rl_journal_started := x8\<rparr>) st = grows P s st"
  "grows P (s\<lparr>rl_started_emitted := x8\<rparr>) st = grows P s st"
  "grows P (s\<lparr>rl_terminal_emitted := x8\<rparr>) st = grows P s st"
  "grows P (s\<lparr>rl_error_fired := x8\<rparr>) st = grows P s st"
  by (auto simp: grows_def set_error_def)

lemma grows_emit: "grows P st s \<Longrightarrow> P e \<Longrightarrow> grows P st (emit e s)"
  by (auto simp: grows_def emit_def)

lemma grows_fold: "grows P st s \<Longrightarrow> (\<And>ev. P (f ev)) \<Longrightarrow> grows P st (fold (\<lambda>ev. emit (f ev)) evs s)"
  by (induction evs arbitrary: s) (auto intro: grows_emit)

lemma grows_case:
  "grows P st (snd x) \<Longrightarrow> (\<And>a s. x = (a, s) \<Longrightarrow> grows P st s \<Longrightarrow> grows P st (snd (k a s)))
   \<Longrightarrow> grows P st (snd (case x of (a, s) \<Rightarrow> k a s))"
  by (cases x) simp

lemma grows_in_order:
  "(\<And>a s. a \<in> set as \<Longrightarrow> grows P s (snd (a s))) \<Longrightarrow> grows P st (snd (in_order as st))"
proof (induction as arbitrary: st)
  case (Cons a as)
  have "grows P st (snd (a st))" by (rule Cons.prems) simp
  moreover have "grows P s (snd (in_order as s))" for s by (rule Cons.IH) (simp add: Cons.prems)
  ultimately show ?case by (auto split: prod.splits option.splits intro: grows_trans)
qed simp

text \<open>What may happen while the lock is held, when scripts are run and when they are only marked; and
  what only reads.\<close>

fun allowed :: "bool \<Rightarrow> effect \<Rightarrow> bool" where
  "allowed mark AcquiredLock = False"
| "allowed mark ReleasedLock = False"
| "allowed mark (RecordedRow n) = mark"
| "allowed mark Committed = mark"
| "allowed mark (Fired ev) = (\<not> mark)"
| "allowed mark (ScriptEvent ev d e t) = (\<not> mark)"
| "allowed mark (CallbackEvent ev n e) = (\<not> mark)"
| "allowed mark (RanCallback n) = (\<not> mark)"
| "allowed mark (Executed n) = (\<not> mark)"
| "allowed mark (Preflighted ns) = True"
| "allowed mark (PreparedSql n) = True"
| "allowed mark ReadHistory = True"
| "allowed mark (CheckedDatabase b) = True"

fun read_only :: "effect \<Rightarrow> bool" where
  "read_only (Preflighted ns) = True"
| "read_only (PreparedSql n) = True"
| "read_only ReadHistory = True"
| "read_only (CheckedDatabase b) = True"
| "read_only e = False"

lemma read_only_allowed: "read_only e \<Longrightarrow> allowed mark e"
  by (cases e) simp_all

lemma fires_allowed: "fires evs e \<Longrightarrow> allowed False e"
  by (cases e) (auto simp: fires_def)

lemma fire_grows: "grows (fires [ev]) st (snd (fire w ev st))"
  by (rule grows_extends [OF extends_fire_one]) simp

lemma fire_allowed: "grows (allowed False) st (snd (fire w ev st))"
  by (rule grows_mono [OF fire_grows]) (rule fires_allowed)

lemma fires_in_order_allowed: "grows (allowed False) st (snd (in_order (map (fire w) evs) st))"
  by (rule grows_mono [OF grows_extends [OF extends_fires]]) (rule fires_allowed)

lemma execute_migration_allowed: "grows (allowed False) st (snd (execute_migration w m st))"
  by (auto simp: execute_migration_def Let_def intro!: grows_emit split: prod.splits option.splits)

lemma preflight_sql_read_only: "grows read_only st (snd (preflight_sql w ns st))"
  by (simp add: preflight_sql_def Let_def grows_emit)

lemma begin_script_allowed: "grows (allowed False) st (snd (begin_script w pol m data st))"
  unfolding begin_script_def
proof (rule grows_in_order)
  fix a s assume a: "a \<in> set (map (fire w) (po_before pol)
       @ (if wd_checks w then [preflight_sql w [script_name m]] else [])
       @ [always (journal_start m), always (\<lambda>st. emit (ScriptEvent ''migration.script.started'' data None None) st
            \<lparr>rl_started_emitted := True\<rparr>), execute_migration w m])"
  have "grows (allowed False) s (snd (preflight_sql w ns s))" for ns
    by (rule grows_mono [OF preflight_sql_read_only]) (rule read_only_allowed)
  moreover have "grows (allowed False) s (emit (ScriptEvent ''migration.script.started'' data None None) s)"
    by (rule grows_emit) simp_all
  ultimately show "grows (allowed False) s (snd (a s))"
    using a fire_allowed execute_migration_allowed by (auto simp: always_def split: if_splits)
qed

lemma engine_failure_allowed: "grows (allowed False) st (snd (engine_failure w pol m data time st))"
  unfolding engine_failure_def Let_def report_failed_def
  by (rule grows_trans [OF _ fire_allowed]) (simp add: grows_emit)

lemma finish_script_allowed: "grows (allowed False) st (snd (finish_script w pol m data row time st))"
  unfolding finish_script_def Let_def
  by (rule grows_trans [OF _ fires_in_order_allowed]) (simp add: grows_fold)

lemma try_script_allowed: "grows (allowed False) st (snd (try_script w pol m data row st))"
  unfolding try_script_def Let_def
  by (rule grows_case [OF begin_script_allowed])
    (auto split: option.split intro!: grows_case [OF grows_trans [OF _ engine_failure_allowed]]
      grows_case [OF grows_trans [OF _ finish_script_allowed]])

lemma close_failed_allowed: "grows (allowed False) st s \<Longrightarrow> grows (allowed False) st (close_failed m data err time s)"
  by (simp add: close_failed_def Let_def report_failed_def grows_emit)

lemma on_exception_allowed: "grows (allowed False) st (snd (on_exception w pol m data e st))"
  unfolding on_exception_def Let_def
  by (auto split: option.split intro!: grows_case [OF grows_trans [OF close_failed_allowed fire_allowed]])

lemma run_script_allowed: "grows (allowed False) st (snd (run_script w pol m data row st))"
proof -
  have p: "grows (allowed False) s (snd (on_preflight_error w m data e s))" for e s
    by (simp add: on_preflight_error_def Let_def close_failed_allowed)
  show ?thesis
    unfolding run_script_def
    by (rule grows_case [OF grows_trans [OF _ try_script_allowed]])
      (auto split: sum.split exn.split intro: grows_trans [OF _ on_exception_allowed] grows_trans [OF _ p])
qed

end
