(* ===== verification/MigrateCommand.thy ===== *)
theory MigrateCommand
  imports Effects
begin

text \<open>
  The migrate command (\<open>commands/migrate_command.py\<close>): the loop over the pending scripts, the
  callbacks around it, marking scripts as executed, the dry run, and the whole body of \<open>execute\<close> with
  the plan, the validation, the migration lock and the second plan under it; and the command
  lifecycle of \<open>commands/base_command.py\<close>. The analysis a dry run prints and the report texts are left
  out.
\<close>

subsection \<open>Rows of the result\<close>

definition info_of :: "migration \<Rightarrow> string \<Rightarrow> int \<Rightarrow> migration_info" where
  "info_of m outcome time =
     \<lparr>mi_script = script_name m, mi_version = version m, mi_description = description m,
      mi_type = type_name (mtype m), mi_status = outcome, mi_time = time, mi_checksum = checksum m\<rparr>"

definition migrate_event_data :: "migration \<Rightarrow> event_data" where
  "migrate_event_data m = \<lparr>ed_script = script_name m, ed_version = version m,
     ed_description = description m, ed_type = type_name (mtype m)\<rparr>"

subsection \<open>The visible SQL\<close>

definition prepare_sql :: "world \<Rightarrow> migration \<Rightarrow> run_state \<Rightarrow> (exn + string list) \<times> run_state" where
  "prepare_sql w m st =
     (let st1 = emit (PreparedSql (script_name m)) st;
          (err, r) = wd_prepare w (rs_effects st1) m
      in (r, case err of None \<Rightarrow> st1 | Some t \<Rightarrow> set_error t st1))"

fun collect_visible_sql :: "world \<Rightarrow> bool \<Rightarrow> migration list \<Rightarrow> run_state \<Rightarrow> exn option \<times> run_state" where
  "collect_visible_sql w keep [] st = (None, st)"
| "collect_visible_sql w keep (m # ms) st =
     (case prepare_sql w m st of
        (Inl e, st1) \<Rightarrow> (Some e, st1)
      | (Inr statements, st1) \<Rightarrow>
          if truthy (rs_error st1) then (None, st1)
          else collect_visible_sql w keep ms
                 (if keep then st1\<lparr>rs_sql := rs_sql st1 @ [(script_name m, statements)]\<rparr> else st1))"

definition handle_dry_run :: "world \<Rightarrow> migration list \<Rightarrow> bool \<Rightarrow> step" where
  "handle_dry_run w pending show_sql st =
     (case collect_visible_sql w show_sql pending st of
        (Some e, st1) \<Rightarrow> (Some e, st1)
      | (None, st1) \<Rightarrow>
          if truthy (rs_error st1) then (None, st1)
          else (None, st1\<lparr>rs_rows := rs_rows st1 @ map (\<lambda>m. info_of m ''PENDING'' 0) pending,
                          rs_dry_run_count := length pending\<rparr>))"

subsection \<open>Marking as executed\<close>

text \<open>The value is whether every script was marked.\<close>

fun mark_as_executed :: "world \<Rightarrow> migration list \<Rightarrow> run_state \<Rightarrow> bool \<times> run_state" where
  "mark_as_executed w [] st = (True, st)"
| "mark_as_executed w (m # ms) st =
     (let st1 = emit (RecordedRow (script_name m)) st
      in case wd_record w (rs_effects st1) m of
           Some e \<Rightarrow> (False, set_error (''Failed to mark migration as executed: '' @ reason_of e) st1)
         | None \<Rightarrow> mark_as_executed w ms (st1\<lparr>rs_rows := rs_rows st1 @ [info_of m ''SUCCESS'' 0]\<rparr>))"

definition mark_and_commit :: "world \<Rightarrow> migration list \<Rightarrow> run_state \<Rightarrow> bool \<times> run_state" where
  "mark_and_commit w ms st =
     (case mark_as_executed w ms st of
        (False, st1) \<Rightarrow> (False, st1)
      | (True, st1) \<Rightarrow>
          if wd_transactional w
          then (let st2 = emit Committed st1
                in case wd_commit w (rs_effects st2) of
                     None \<Rightarrow> (True, st2)
                   | Some e \<Rightarrow>
                       (False, set_error (''Failed to commit mark-as-executed history records: '' @ reason_of e) st2))
          else (True, st1))"

subsection \<open>The loop and the callbacks around it\<close>

definition versioned_of :: "migration list \<Rightarrow> migration list" where
  "versioned_of ms = filter (\<lambda>m. type_name (mtype m) \<in> set VERSIONED_SCRIPT_TYPES) ms"

definition repeatable_of :: "migration list \<Rightarrow> migration list" where
  "repeatable_of ms = filter (\<lambda>m. mtype m = REPEATABLE) ms"

definition execute_before_callbacks :: "world \<Rightarrow> migration list \<Rightarrow> step" where
  "execute_before_callbacks w ms =
     in_order (map (fire w)
       (''beforeMigrate'' # (if versioned_of ms \<noteq> [] then [''beforeVersioned''] else [])
          @ (if repeatable_of ms \<noteq> [] then [''beforeRepeatable''] else [])))"

definition execute_after_callbacks :: "world \<Rightarrow> migration list \<Rightarrow> step" where
  "execute_after_callbacks w ms st =
     (if truthy (rs_error st) then (None, st)
      else in_order (map (fire w)
             ((if versioned_of ms \<noteq> [] then [''afterVersioned''] else [])
                @ (if repeatable_of ms \<noteq> [] then [''afterRepeatable''] else [])
                @ [''afterMigrate''])) st)"

definition lock_lost_message :: "string \<Rightarrow> string" where
  "lock_lost_message n =
     ''The migration lock was lost (taken over by another process or not renewable); stopping before '' @ n"

fun migration_loop :: "world \<Rightarrow> bool \<Rightarrow> migration list \<Rightarrow> run_state \<Rightarrow> exn option \<times> run_state" where
  "migration_loop w show_sql [] st = (None, st)"
| "migration_loop w show_sql (m # ms) st =
     (if wd_lock_lost w (rs_effects st) then (None, set_error (lock_lost_message (script_name m)) st)
      else
        (case (if show_sql then collect_visible_sql w True [m] st else (None, st)) of
           (Some e, st1) \<Rightarrow> (Some e, st1)
         | (None, st1) \<Rightarrow>
             if show_sql \<and> truthy (rs_error st1) then (None, st1)
             else
               (case run_script w MIGRATE_POLICY m (migrate_event_data m) (info_of m ''SUCCESS'') st1 of
                  (Inl e, st2) \<Rightarrow> (Some e, st2)
                | (Inr False, st2) \<Rightarrow> (None, st2)
                | (Inr True, st2) \<Rightarrow> migration_loop w show_sql ms st2)))"

definition apply_migrations :: "world \<Rightarrow> bool \<Rightarrow> migration list \<Rightarrow> step" where
  "apply_migrations w show_sql ms =
     in_order [execute_before_callbacks w ms, migration_loop w show_sql ms, execute_after_callbacks w ms]"

subsection \<open>Plan, validation and preflight\<close>

record migrate_options =
  mo_dry_run :: bool
  mo_target :: "string option"
  mo_selection :: selection
  mo_strict :: bool
  mo_mark :: bool
  mo_show_sql :: bool

definition check_execution_sql :: "world \<Rightarrow> bool" where
  "check_execution_sql w \<longleftrightarrow> \<not> wd_capture w \<or> wd_checks w"

text \<open>\<open>plan_migrate\<close> over the history as it is now. \<open>Inr None\<close>: strict mode refused, the error is on the
  result.\<close>

definition read_plan :: "world \<Rightarrow> migrate_options \<Rightarrow> run_state \<Rightarrow> (exn + (string \<times> string option) + migrate_plan) \<times> run_state" where
  "read_plan w mo st =
     (let st1 = emit ReadHistory st
      in case wd_history w (rs_effects st1) of
           Inl e \<Rightarrow> (Inl e, st1)
         | Inr rows \<Rightarrow>
             (case plan_migrate (wd_files w) (Some (wd_source w)) (mo_target mo) (mo_selection mo)
                     (mo_strict mo) rows (rs_warn st1) of
                Inl (MState e) \<Rightarrow> (Inl (OtherError (wd_state_text w e)), st1)
              | Inl (StrictModeError n v) \<Rightarrow> (Inr (Inl (n, v)), st1)
              | Inr (plan, warn) \<Rightarrow> (Inr (Inr plan), st1\<lparr>rs_warn := warn\<rparr>)))"

definition preflight_events :: "migration list \<Rightarrow> string list" where
  "preflight_events ms =
     [''beforeMigrate'', ''afterMigrate'', ''afterMigrateError'', ''beforeEach'', ''afterEach'',
      ''beforeEachMigrate'', ''afterEachMigrate'']
     @ (if versioned_of ms \<noteq> [] then [''beforeVersioned'', ''afterVersioned''] else [])
     @ (if repeatable_of ms \<noteq> [] then [''beforeRepeatable'', ''afterRepeatable''] else [])"

definition callbacks_for :: "world \<Rightarrow> string list \<Rightarrow> run_state \<Rightarrow> exn + migration list" where
  "callbacks_for w events st =
     (case wd_bound w of
        None \<Rightarrow> Inl (OtherError ''callbacks are not bound'')
      | Some None \<Rightarrow> Inr []
      | Some (Some d) \<Rightarrow>
          rbind (wd_callback_catalog w (rs_effects st)) (\<lambda>catalog.
            Inr (concat (map (\<lambda>ev. get_callbacks_by_event ev catalog) events))))"

text \<open>\<open>_preflight_execution_sql\<close> returns at once when nothing would be classified or checked.\<close>

definition preflight_with_callbacks :: "world \<Rightarrow> string list \<Rightarrow> migration list \<Rightarrow> step" where
  "preflight_with_callbacks w events ms st =
     (case callbacks_for w events st of
        Inl e \<Rightarrow> (Some e, st)
      | Inr cbs \<Rightarrow>
          if check_execution_sql w then preflight_sql w (map script_name (ms @ cbs)) st else (None, st))"

definition check_database :: "world \<Rightarrow> bool \<Rightarrow> step" where
  "check_database w ensure st =
     (let st1 = emit (CheckedDatabase ensure) st in (wd_database w (rs_effects st1) ensure, st1))"

definition validate_plan :: "world \<Rightarrow> migrate_plan \<Rightarrow> run_state \<Rightarrow> exn + (bool \<times> string)" where
  "validate_plan w plan st = wd_validate w (rs_effects st) (mp_state plan)"

subsection \<open>Under the lock\<close>

definition MIGRATION_LOCK_REFUSAL :: string where
  "MIGRATION_LOCK_REFUSAL = ''Could not acquire migration lock - another migration may be running''"

text \<open>The steps below have a value: whether the body goes on to the final state (\<open>True\<close>) or returns.\<close>

type_synonym branch = "run_state \<Rightarrow> (exn + bool) \<times> run_state"

definition refuse :: "string \<Rightarrow> branch" where
  "refuse msg st = (Inr False, set_error msg st)"

definition and_go_on :: "exn option \<times> run_state \<Rightarrow> (exn + bool) \<times> run_state" where
  "and_go_on r = (case r of (Some e, st) \<Rightarrow> (Inl e, st) | (None, st) \<Rightarrow> (Inr True, st))"

definition run_locked_plan :: "world \<Rightarrow> migrate_options \<Rightarrow> migration list \<Rightarrow> migrate_plan \<Rightarrow> branch" where
  "run_locked_plan w mo planned plan st =
     (let ms = mp_pending plan;
          newly = filter (\<lambda>m. script_name m \<notin> set (map script_name planned)) ms;
          to_check = (if wd_checks w then ms else newly);
          checked = (if to_check \<noteq> [] \<and> \<not> mo_mark mo \<and> check_execution_sql w
                     then preflight_with_callbacks w (preflight_events to_check) to_check st
                     else (None, st))
      in case checked of
           (Some e, st1) \<Rightarrow> (Inl e, st1)
         | (None, st1) \<Rightarrow>
             if ms = [] then (Inr True, st1)
             else if mo_mark mo
             then (case mark_and_commit w ms st1 of (ok, st2) \<Rightarrow> (Inr ok, st2))
             else and_go_on (apply_migrations w (mo_show_sql mo) ms st1))"

definition under_lock :: "world \<Rightarrow> migrate_options \<Rightarrow> migration list \<Rightarrow> branch" where
  "under_lock w mo planned st =
     (case read_plan w mo st of
        (Inl e, st1) \<Rightarrow> (Inl e, st1)
      | (Inr (Inl (n, v)), st1) \<Rightarrow> refuse (wd_strict_text w n v) st1
      | (Inr (Inr plan), st1) \<Rightarrow>
          (case validate_plan w plan st1 of
             Inl e \<Rightarrow> (Inl e, st1)
           | Inr (False, errs) \<Rightarrow> refuse (''Validation failed: '' @ errs) st1
           | Inr (True, _) \<Rightarrow> run_locked_plan w mo planned plan st1))"

text \<open>The exception handlers around the locked part.\<close>

definition migrate_handler :: "world \<Rightarrow> migrate_options \<Rightarrow> exn \<Rightarrow> branch" where
  "migrate_handler w mo e st =
     (case e of
        SqlPreflightError reason \<Rightarrow> (Inr True, set_error reason st)
      | _ \<Rightarrow>
          let st1 = (if truthy (rs_error st) then st
                     else set_error (''Migration execution failed: '' @ reason_of e) st)
          in if mo_mark mo then (Inr True, st1)
             else and_go_on (fire w ''afterMigrateError'' st1))"

definition handled :: "world \<Rightarrow> migrate_options \<Rightarrow> (exn + bool) \<times> run_state \<Rightarrow> (exn + bool) \<times> run_state" where
  "handled w mo r = (case r of (Inl e, st) \<Rightarrow> migrate_handler w mo e st | (Inr b, st) \<Rightarrow> (Inr b, st))"

text \<open>The lock is released in the \<open>finally\<close> clause, after the handlers.\<close>

definition with_migration_lock :: "world \<Rightarrow> migrate_options \<Rightarrow> migration list \<Rightarrow> branch" where
  "with_migration_lock w mo planned st =
     (case wd_acquire w (rs_effects st) of
        Inl e \<Rightarrow> migrate_handler w mo e st
      | Inr False \<Rightarrow> refuse MIGRATION_LOCK_REFUSAL st
      | Inr True \<Rightarrow>
          (case handled w mo (under_lock w mo planned (emit AcquiredLock st)) of
             (r, st1) \<Rightarrow> (r, emit ReleasedLock st1)))"

subsection \<open>The body of execute\<close>

definition update_final_state :: "world \<Rightarrow> step" where
  "update_final_state w st =
     (let st1 = emit ReadHistory st
      in case wd_history w (rs_effects st1) of
           Inl e \<Rightarrow> (Some e, st1)
         | Inr rows \<Rightarrow>
             (case build_state (wd_files w) None None rows (rs_warn st1) of
                Inl e \<Rightarrow> (Some (OtherError (wd_state_text w e)), st1)
              | Inr (state, warn) \<Rightarrow>
                  (None, st1\<lparr>rs_schema_version := ms_current_version state, rs_warn := warn\<rparr>)))"

definition flag_missing_history :: "world \<Rightarrow> migrate_plan \<Rightarrow> run_state \<Rightarrow> run_state" where
  "flag_missing_history w plan st =
     (if ms_all_applied_objects (mp_state plan) \<noteq> [] \<or> wd_has_history w (rs_effects st) then st
      else st\<lparr>rs_history_exists := False\<rparr>)"

definition migrate_planned :: "world \<Rightarrow> migrate_options \<Rightarrow> migrate_plan \<Rightarrow> step" where
  "migrate_planned w mo plan st =
     (let pending = mp_pending plan
      in case validate_plan w plan st of
           Inl e \<Rightarrow> (Some e, st)
         | Inr (False, errs) \<Rightarrow> (None, set_error (''Validation failed: '' @ errs) st)
         | Inr (True, _) \<Rightarrow>
             let st1 = (if mo_dry_run mo then flag_missing_history w plan st else st)
             in if pending = [] then (None, st1)
                else if mo_dry_run mo then handle_dry_run w pending (mo_show_sql mo) st1
                else (case with_migration_lock w mo pending st1 of
                        (Inl e, st2) \<Rightarrow> (Some e, st2)
                      | (Inr False, st2) \<Rightarrow> (None, st2)
                      | (Inr True, st2) \<Rightarrow> update_final_state w st2))"

text \<open>The SQL is classified and the history created before the first write, then the plan is carried
  out.\<close>

definition body_steps :: "world \<Rightarrow> migrate_options \<Rightarrow> migrate_plan \<Rightarrow> step list" where
  "body_steps w mo plan =
     (if \<not> mo_dry_run mo \<and> \<not> mo_mark mo \<and> check_execution_sql w
      then (if mp_pending plan \<noteq> []
            then [preflight_with_callbacks w (preflight_events (mp_pending plan)) (mp_pending plan)] else [])
           @ [check_database w True]
      else [])
     @ [migrate_planned w mo plan]"

definition migrate_body :: "world \<Rightarrow> migrate_options \<Rightarrow> step" where
  "migrate_body w mo st =
     (case wd_setup w of
        Some e \<Rightarrow> (Some e, st)
      | None \<Rightarrow>
          (case read_plan w mo st of
             (Inl e, st1) \<Rightarrow> (Some e, st1)
           | (Inr (Inl (n, v)), st1) \<Rightarrow>
               (None, set_error (wd_strict_text w n v)
                        (if truthy v then st1\<lparr>rs_schema_version := v\<rparr> else st1))
           | (Inr (Inr plan), st1) \<Rightarrow>
               let st2 = (if truthy (mp_current_version plan)
                          then st1\<lparr>rs_schema_version := mp_current_version plan\<rparr> else st1)
               in in_order (body_steps w mo plan) st2))"

text \<open>\<open>_run_command_lifecycle\<close>: exceptions of the preflight leave the command, those of the body
  become the error of the result, except a lost connection.\<close>

definition command_lifecycle :: "string \<Rightarrow> step \<Rightarrow> step \<Rightarrow> step" where
  "command_lifecycle prefix preflight body st =
     (case preflight st of
        (Some e, st1) \<Rightarrow> (Some e, st1)
      | (None, st1) \<Rightarrow>
          (case body st1 of
             (Some (PreflightConnectionError r), st2) \<Rightarrow> (Some (PreflightConnectionError r), st2)
           | (Some e, st2) \<Rightarrow> (None, set_error (prefix @ '': '' @ reason_of e) st2)
           | (None, st2) \<Rightarrow> (None, st2)))"

definition migrate_execute :: "world \<Rightarrow> migrate_options \<Rightarrow> step" where
  "migrate_execute w mo =
     command_lifecycle ''Migration operation failed''
       (check_database w (\<not> (\<not> mo_dry_run mo \<and> \<not> mo_mark mo \<and> check_execution_sql w) \<and> \<not> mo_dry_run mo))
       (migrate_body w mo)"

subsection \<open>What migrate may do, and when\<close>

lemma grows_read_only: "grows read_only st s \<Longrightarrow> grows (allowed mark) st s"
  by (erule grows_mono) (rule read_only_allowed)

lemma collect_visible_sql_reads: "grows read_only st (snd (collect_visible_sql w keep ms st))"
proof (induction ms arbitrary: st keep)
  case (Cons m ms)
  have "grows read_only st (snd (prepare_sql w m st))"
    by (auto simp: prepare_sql_def Let_def grows_emit split: prod.split option.split)
  then show ?case
    by (simp, intro grows_case) (auto split: sum.split intro: grows_trans [OF _ Cons.IH])
qed simp

lemma handle_dry_run_reads: "grows read_only st (snd (handle_dry_run w ms b st))"
  unfolding handle_dry_run_def
  by (rule grows_case [OF collect_visible_sql_reads]) (auto split: option.split)

lemma preflight_with_callbacks_reads: "grows read_only st (snd (preflight_with_callbacks w evs ms st))"
  using preflight_sql_read_only by (auto simp: preflight_with_callbacks_def split: sum.split)

lemma read_plan_reads: "grows read_only st (snd (read_plan w mo st))"
  by (auto simp: read_plan_def Let_def grows_emit split: sum.split migrate_error.split)

lemma check_database_reads: "grows read_only st (snd (check_database w b st))"
  by (simp add: check_database_def Let_def grows_emit)

lemma update_final_state_reads: "grows read_only st (snd (update_final_state w st))"
  by (auto simp: update_final_state_def Let_def grows_emit split: sum.split)

lemma mark_as_executed_allowed: "grows (allowed True) st (snd (mark_as_executed w ms st))"
proof (induction ms arbitrary: st)
  case (Cons m ms)
  show ?case
    by (auto simp: Let_def grows_emit split: option.split intro!: grows_trans [OF _ Cons.IH])
qed simp

lemma mark_and_commit_allowed: "grows (allowed True) st (snd (mark_and_commit w ms st))"
  unfolding mark_and_commit_def Let_def
  by (rule grows_case [OF mark_as_executed_allowed]) (auto simp: grows_emit split: option.split bool.split)

lemma migration_loop_allowed: "grows (allowed False) st (snd (migration_loop w b ms st))"
proof (induction ms arbitrary: st b)
  case (Cons m ms)
  have "grows (allowed False) st (snd (if b then collect_visible_sql w True [m] st else (None, st)))"
    using grows_read_only [OF collect_visible_sql_reads] by (simp del: collect_visible_sql.simps)
  note x = grows_case [OF this]
  show ?case
  proof (cases "wd_lock_lost w (rs_effects st)")
    case False
    then show ?thesis
      unfolding migration_loop.simps if_not_P [OF False]
      by (intro x) (auto split: sum.split bool.split option.split
          intro!: grows_case [OF grows_trans [OF _ run_script_allowed]] grows_trans [OF _ Cons.IH])
  qed simp
qed simp

lemma execute_before_callbacks_allowed: "grows (allowed False) st (snd (execute_before_callbacks w ms st))"
  unfolding execute_before_callbacks_def by (rule fires_in_order_allowed)

lemma execute_after_callbacks_allowed: "grows (allowed False) st (snd (execute_after_callbacks w ms st))"
  by (cases "truthy (rs_error st)")
    (simp_all only: execute_after_callbacks_def if_True if_False fires_in_order_allowed snd_conv grows_refl)

lemma apply_migrations_allowed: "grows (allowed False) st (snd (apply_migrations w b ms st))"
  unfolding apply_migrations_def
  by (rule grows_in_order)
    (auto intro: execute_before_callbacks_allowed migration_loop_allowed execute_after_callbacks_allowed)

text \<open>The locked part and its handlers only do what their mode allows.\<close>

lemma snd_and_go_on [simp]: "snd (and_go_on r) = snd r"
  by (cases r) (simp add: and_go_on_def split: option.split)

lemma snd_refuse [simp]: "snd (refuse msg st) = set_error msg st"
  by (simp add: refuse_def)

lemma run_locked_plan_allowed: "grows (allowed (mo_mark mo)) st (snd (run_locked_plan w mo planned plan st))"
proof -
  have c: "grows (allowed (mo_mark mo)) st (snd (if b then preflight_with_callbacks w evs ms st else (None, st)))" for b evs ms
    using grows_read_only [OF preflight_with_callbacks_reads] by simp
  have m: "mo_mark mo \<Longrightarrow> grows (allowed (mo_mark mo)) s (snd (mark_and_commit w ms s))" for s ms
    using mark_and_commit_allowed by simp
  have a: "\<not> mo_mark mo \<Longrightarrow> grows (allowed (mo_mark mo)) s (snd (apply_migrations w b ms s))" for s b ms
    using apply_migrations_allowed by simp
  have step: "grows (allowed (mo_mark mo)) st (snd (if ms = [] then (Inr True, s) else if mo_mark mo
        then (case mark_and_commit w ms s of (ok, s2) \<Rightarrow> (Inr ok, s2))
        else and_go_on (apply_migrations w (mo_show_sql mo) ms s)))"
    if "grows (allowed (mo_mark mo)) st s" for s ms
  proof (cases "mo_mark mo")
    case True
    then show ?thesis using that m [of s ms] by (cases "mark_and_commit w ms s") (auto intro: grows_trans)
  next
    case False
    then show ?thesis using that a [of s "mo_show_sql mo" ms] by (auto intro: grows_trans)
  qed
  show ?thesis
    unfolding run_locked_plan_def Let_def
  proof (rule grows_case [OF c])
    fix r s assume "grows (allowed (mo_mark mo)) st s"
    then show "grows (allowed (mo_mark mo)) st (snd (case r of None \<Rightarrow>
          if mp_pending plan = [] then (Inr True, s) else if mo_mark mo
          then (case mark_and_commit w (mp_pending plan) s of (ok, s2) \<Rightarrow> (Inr ok, s2))
          else and_go_on (apply_migrations w (mo_show_sql mo) (mp_pending plan) s)
        | Some e \<Rightarrow> (Inl e, s)))"
      using step by (cases r) simp_all
  qed
qed

lemma under_lock_allowed: "grows (allowed (mo_mark mo)) st (snd (under_lock w mo planned st))"
  unfolding under_lock_def
  by (rule grows_case [OF grows_read_only [OF read_plan_reads]])
    (auto split: sum.split bool.split intro: grows_trans [OF _ run_locked_plan_allowed])

lemma migrate_handler_fires:
  "grows (\<lambda>e. \<not> mo_mark mo \<and> fires [''afterMigrateError''] e) st (snd (migrate_handler w mo e st))"
proof -
  let ?P = "\<lambda>e. \<not> mo_mark mo \<and> fires [''afterMigrateError''] e"
  have "grows ?P st (snd (fire w ''afterMigrateError'' s))" if "\<not> mo_mark mo" "grows ?P st s" for s
    using that(1) by (intro grows_trans [OF that(2)] grows_mono [OF fire_grows]) simp
  then show ?thesis
    by (cases e; cases "mo_mark mo") (simp_all add: migrate_handler_def Let_def)
qed

lemma migrate_handler_allowed: "grows (allowed (mo_mark mo)) st (snd (migrate_handler w mo e st))"
  by (rule grows_mono [OF migrate_handler_fires]) (auto simp: fires_allowed)

lemma handled_allowed:
  "grows (allowed (mo_mark mo)) st (snd r) \<Longrightarrow> grows (allowed (mo_mark mo)) st (snd (handled w mo r))"
  by (auto simp: handled_def split: prod.split sum.split intro: grows_trans [OF _ migrate_handler_allowed])

subsection \<open>The lock discipline\<close>

definition locked_part :: "world \<Rightarrow> migrate_options \<Rightarrow> effect list \<Rightarrow> bool" where
  "locked_part w mo t \<longleftrightarrow>
     (\<exists>xs. t = AcquiredLock # xs @ [ReleasedLock] \<and> list_all (allowed (mo_mark mo)) xs)
     \<or> (\<exists>e u. wd_acquire w u = Inl e \<and> list_all (\<lambda>x. \<not> mo_mark mo \<and> fires [''afterMigrateError''] x) t)"

definition inside_ok :: "world \<Rightarrow> migrate_options \<Rightarrow> effect list \<Rightarrow> bool" where
  "inside_ok w mo t \<longleftrightarrow> t = [] \<or> (\<not> mo_dry_run mo \<and> locked_part w mo t)"

definition disciplined :: "world \<Rightarrow> migrate_options \<Rightarrow> effect list \<Rightarrow> bool" where
  "disciplined w mo t \<longleftrightarrow>
     (\<exists>before inside after. t = before @ inside @ after \<and> list_all read_only before \<and> list_all read_only after
        \<and> inside_ok w mo inside)"

definition disciplined_step :: "world \<Rightarrow> migrate_options \<Rightarrow> run_state \<Rightarrow> run_state \<Rightarrow> bool" where
  "disciplined_step w mo st s \<longleftrightarrow> (\<exists>t. rs_effects s = rs_effects st @ t \<and> disciplined w mo t)"

lemma reads_disciplined: "grows read_only st s \<Longrightarrow> disciplined_step w mo st s"
  unfolding grows_def disciplined_step_def disciplined_def inside_ok_def
  by (metis append.right_neutral append_Nil list.pred_inject(1))

lemma disciplined_after: "grows read_only st s \<Longrightarrow> disciplined_step w mo s s' \<Longrightarrow> disciplined_step w mo st s'"
proof -
  assume "grows read_only st s" "disciplined_step w mo s s'"
  then obtain a b i c where "rs_effects s = rs_effects st @ a" "list_all read_only a"
      "rs_effects s' = rs_effects s @ b @ i @ c" "list_all read_only b" "list_all read_only c"
      "inside_ok w mo i"
    by (auto simp: grows_def disciplined_step_def disciplined_def)
  then have "rs_effects s' = rs_effects st @ (a @ b) @ i @ c" "list_all read_only (a @ b)" by simp_all
  then show ?thesis
    using \<open>list_all read_only c\<close> \<open>inside_ok w mo i\<close> unfolding disciplined_step_def disciplined_def by blast
qed

lemma disciplined_before: "disciplined_step w mo st s \<Longrightarrow> grows read_only s s' \<Longrightarrow> disciplined_step w mo st s'"
proof -
  assume "disciplined_step w mo st s" "grows read_only s s'"
  then obtain a b i c where "rs_effects s' = rs_effects s @ a" "list_all read_only a"
      "rs_effects s = rs_effects st @ b @ i @ c" "list_all read_only b" "list_all read_only c"
      "inside_ok w mo i"
    by (auto simp: grows_def disciplined_step_def disciplined_def)
  then have "rs_effects s' = rs_effects st @ b @ i @ c @ a" "list_all read_only (c @ a)" by simp_all
  then show ?thesis
    using \<open>list_all read_only b\<close> \<open>inside_ok w mo i\<close> unfolding disciplined_step_def disciplined_def by blast
qed

lemma with_migration_lock_disciplined:
  assumes "\<not> mo_dry_run mo"
  shows "disciplined_step w mo st (snd (with_migration_lock w mo planned st))"
proof (cases "wd_acquire w (rs_effects st)")
  case (Inl e)
  from migrate_handler_fires [of mo st w e] obtain t where
    "rs_effects (snd (migrate_handler w mo e st)) = rs_effects st @ t"
    "list_all (\<lambda>x. \<not> mo_mark mo \<and> fires [''afterMigrateError''] x) t"
    by (auto simp: grows_def)
  moreover have "locked_part w mo t" using Inl calculation(2) by (auto simp: locked_part_def)
  ultimately show ?thesis
    using assms Inl unfolding with_migration_lock_def disciplined_step_def disciplined_def inside_ok_def
    by (intro exI [of _ t] conjI exI [of _ "[]"] exI [of _ t]) simp_all
next
  case (Inr ok)
  show ?thesis
  proof (cases ok)
    case False
    then show ?thesis using Inr by (simp add: with_migration_lock_def reads_disciplined)
  next
    case True
    let ?r = "handled w mo (under_lock w mo planned (emit AcquiredLock st))"
    have "grows (allowed (mo_mark mo)) (emit AcquiredLock st) (snd ?r)"
      by (intro handled_allowed under_lock_allowed)
    then obtain xs where xs: "rs_effects (snd ?r) = rs_effects st @ AcquiredLock # xs" "list_all (allowed (mo_mark mo)) xs"
      by (auto simp: grows_def emit_def)
    have e: "rs_effects (snd (with_migration_lock w mo planned st)) = rs_effects st @ AcquiredLock # xs @ [ReleasedLock]"
      using xs(1) True Inr
      by (cases ?r) (simp add: with_migration_lock_def emit_def [of ReleasedLock])
    have "locked_part w mo (AcquiredLock # xs @ [ReleasedLock])" using xs(2) by (auto simp: locked_part_def)
    then show ?thesis
      using assms e unfolding disciplined_step_def disciplined_def inside_ok_def
      by (intro exI [of _ "AcquiredLock # xs @ [ReleasedLock]"] conjI exI [of _ "[]"]
          exI [of _ "AcquiredLock # xs @ [ReleasedLock]"]) simp_all
  qed
qed

lemma migrate_planned_disciplined: "disciplined_step w mo st (snd (migrate_planned w mo plan st))"
proof -
  let ?s = "if mo_dry_run mo then flag_missing_history w plan st else st"
  have s: "grows read_only st ?s" by (simp add: flag_missing_history_def)
  have d: "disciplined_step w mo st (snd (handle_dry_run w ms b ?s))" for ms b
    by (rule reads_disciplined [OF grows_trans [OF s handle_dry_run_reads]])
  have l: "disciplined_step w mo st (snd (case with_migration_lock w mo ms ?s of
             (Inl e, st2) \<Rightarrow> (Some e, st2) | (Inr False, st2) \<Rightarrow> (None, st2)
           | (Inr True, st2) \<Rightarrow> update_final_state w st2))" if "\<not> mo_dry_run mo" for ms
  proof -
    have x: "disciplined_step w mo st (snd (with_migration_lock w mo ms ?s))"
      by (rule disciplined_after [OF s with_migration_lock_disciplined [OF that]])
    then show ?thesis
      using disciplined_before [OF x update_final_state_reads [of _ w]]
      by (auto split: prod.split sum.split bool.split)
  qed
  show ?thesis
    unfolding migrate_planned_def Let_def
    using d l s by (auto simp: reads_disciplined split: sum.split bool.split)
qed

lemma in_order_reads_then:
  assumes "\<And>a s. a \<in> set as \<Longrightarrow> grows read_only s (snd (a s))" "\<And>s. disciplined_step w mo s (snd (f s))"
  shows "disciplined_step w mo st (snd (in_order (as @ [f]) st))"
proof -
  have g: "grows read_only st (snd (in_order as st))" using assms(1) by (rule grows_in_order)
  obtain r s where rs: "in_order as st = (r, s)" by (cases "in_order as st")
  obtain r2 s2 where f: "f s = (r2, s2)" by (cases "f s")
  have "disciplined_step w mo st s" using g rs by (simp add: reads_disciplined)
  moreover have "disciplined_step w mo st s2"
    using g rs f assms(2) [of s] disciplined_after [of st s w mo s2] by simp
  ultimately show ?thesis using rs f by (cases r; cases r2) (simp_all add: in_order_append)
qed

lemma migrate_body_disciplined: "disciplined_step w mo st (snd (migrate_body w mo st))"
proof (cases "wd_setup w")
  case None
  obtain r s where rs: "read_plan w mo st = (r, s)" by (cases "read_plan w mo st")
  have g: "grows read_only st s" using read_plan_reads [of st w mo] rs by simp
  consider (raised) e where "r = Inl e" | (strict) n v where "r = Inr (Inl (n, v))" | (plan) p where "r = Inr (Inr p)"
    by (metis sum.exhaust prod.exhaust)
  then show ?thesis
  proof cases
    case raised
    then show ?thesis using None rs g by (simp add: migrate_body_def reads_disciplined)
  next
    case strict
    then show ?thesis using None rs g by (simp add: migrate_body_def reads_disciplined)
  next
    case (plan p)
    let ?s = "if truthy (mp_current_version p) then s\<lparr>rs_schema_version := mp_current_version p\<rparr> else s"
    have "disciplined_step w mo ?s (snd (in_order (body_steps w mo p) ?s))"
      unfolding body_steps_def by (rule in_order_reads_then)
        (auto intro: preflight_with_callbacks_reads check_database_reads migrate_planned_disciplined split: if_splits)
    moreover have "grows read_only st ?s" using g by simp
    ultimately show ?thesis
      using None rs plan disciplined_after unfolding migrate_body_def Let_def by simp
  qed
qed (simp add: migrate_body_def reads_disciplined)


subsection \<open>The loop runs a prefix\<close>

fun executed :: "effect list \<Rightarrow> string list" where
  "executed [] = []"
| "executed (Executed n # t) = n # executed t"
| "executed (_ # t) = executed t"

lemma executed_append [simp]: "executed (a @ b) = executed a @ executed b"
  by (induction a rule: executed.induct) simp_all

lemma executed_script_part: "executed t = executed (script_part t)"
  by (induction t rule: executed.induct) (simp_all add: script_part_def)

lemma executed_read_only: "list_all read_only t \<Longrightarrow> executed t = []"
  by (induction t rule: executed.induct) simp_all

lemma executed_events [simp]: "executed (map (\<lambda>ev. ScriptEvent ev d e t) evs) = []"
  by (induction evs) simp_all

definition rows_of :: "run_state \<Rightarrow> string list" where
  "rows_of st = map mi_script (rs_rows st)"

text \<open>What one turn adds: \<open>j\<close> executions and \<open>k\<close> rows of the script.\<close>

lemma run_script_turn:
  assumes "run_script w MIGRATE_POLICY m data (info_of m o') st = (r, s)"
  obtains t j k where "rs_effects s = rs_effects st @ t" "executed t = replicate j (script_name m)"
    "rows_of s = rows_of st @ replicate k (script_name m)" "k \<le> j" "j \<le> 1"
    "r = Inr True \<Longrightarrow> k = 1" "run_verdict w r s"
proof -
  have "run_promises w MIGRATE_POLICY m data (info_of m o') st r s"
    using policy_error [of MigrateResult] assms by (intro run_script_promises) (simp_all add: policy_of_def)
  then show thesis
  proof cases
    case (promise_before n)
    then obtain t where "rs_effects s = rs_effects st @ t" "script_part t = []" "rs_rows s = rs_rows st"
      by (auto simp: phase_def)
    then show thesis
      using promise_before(3,4) by (intro that [of t 0 0]) (simp_all add: rows_of_def executed_script_part [of t])
  next
    case (promise_failed err time n)
    then obtain t where "rs_effects s = rs_effects st @ t" "rs_rows s = rs_rows st"
        "script_part t = opening_part m data @ failed_part data err time"
      by (auto simp: phase_def)
    then show thesis
      using promise_failed(3,4) by (intro that [of t 1 0])
        (simp_all add: rows_of_def executed_script_part [of t] opening_part_def failed_part_def)
  next
    case (promise_applied time n)
    then obtain t where "rs_effects s = rs_effects st @ t" "rs_rows s = rs_rows st @ [info_of m o' time]"
        "script_part t = opening_part m data @ completed_part MIGRATE_POLICY data time"
      by (auto simp: phase_def)
    then show thesis
      using promise_applied(4) by (intro that [of t 1 1])
        (simp_all add: rows_of_def executed_script_part [of t] opening_part_def completed_part_def info_of_def)
  qed
qed

definition runs_prefix :: "migration list \<Rightarrow> run_state \<Rightarrow> exn option \<Rightarrow> run_state \<Rightarrow> bool" where
  "runs_prefix ms st r s \<longleftrightarrow>
     (\<exists>t j k. rs_effects s = rs_effects st @ t \<and> executed t = map script_name (take j ms)
        \<and> rows_of s = rows_of st @ map script_name (take k ms) \<and> k \<le> j \<and> j \<le> Suc k \<and> j \<le> length ms
        \<and> (if r = None \<and> rs_error s = None then k = length ms else True))"

lemma runs_prefix_stop:
  "rs_effects s = rs_effects st @ t \<Longrightarrow> executed t = replicate j (script_name m) \<Longrightarrow> j \<le> 1 \<Longrightarrow> k \<le> j
   \<Longrightarrow> rows_of s = rows_of st @ replicate k (script_name m) \<Longrightarrow> \<not> (r = None \<and> rs_error s = None)
   \<Longrightarrow> runs_prefix (m # ms) st r s"
  unfolding runs_prefix_def
  by (intro exI [of _ t] exI [of _ j] exI [of _ k]) (cases j; cases k; auto)

lemma runs_prefix_go_on:
  assumes "rs_effects s = rs_effects st @ t" "executed t = [script_name m]"
    "rows_of s = rows_of st @ [script_name m]" "runs_prefix ms s r s'"
  shows "runs_prefix (m # ms) st r s'"
proof -
  from assms(4) obtain u j k where "rs_effects s' = rs_effects s @ u" "executed u = map script_name (take j ms)"
    "rows_of s' = rows_of s @ map script_name (take k ms)" "k \<le> j" "j \<le> Suc k" "j \<le> length ms"
    "if r = None \<and> rs_error s' = None then k = length ms else True"
    unfolding runs_prefix_def by blast
  with assms(1-3) show ?thesis
    unfolding runs_prefix_def by (intro exI [of _ "t @ u"] exI [of _ "Suc j"] exI [of _ "Suc k"]) auto
qed

lemma collect_visible_sql_keeps: "rows_of (snd (collect_visible_sql w keep ms st)) = rows_of st"
proof (induction ms arbitrary: st keep)
  case (Cons m ms)
  have "rows_of (snd (prepare_sql w m st)) = rows_of st"
    by (auto simp: prepare_sql_def Let_def rows_of_def emit_def set_error_def split: prod.split option.split)
  then show ?case
    using Cons.IH by (auto simp: rows_of_def split: prod.split sum.split)
qed simp

lemma migration_loop_runs:
  "migration_loop w b ms st = (r, s) \<Longrightarrow> runs_prefix ms st r s"
proof (induction ms arbitrary: st)
  case Nil
  then show ?case by (auto simp: runs_prefix_def)
next
  case (Cons m ms)
  show ?case
  proof (cases "wd_lock_lost w (rs_effects st)")
    case True
    then show ?thesis
      using Cons.prems by (intro runs_prefix_stop [of _ _ "[]" 0 _ 0]) (auto simp: set_error_def rows_of_def)
  next
    case lock: False
    let ?v = "if b then collect_visible_sql w True [m] st else (None, st)"
    obtain r1 s1 where v: "?v = (r1, s1)" by (cases ?v)
    have "grows read_only st (snd ?v)" by (simp add: collect_visible_sql_reads del: collect_visible_sql.simps)
    then obtain t1 where t1: "rs_effects s1 = rs_effects st @ t1" "executed t1 = []"
      by (auto simp: v grows_def executed_read_only)
    have rows: "rows_of s1 = rows_of st"
      using collect_visible_sql_keeps [of w True "[m]" st] v
      by (cases b) (simp_all del: collect_visible_sql.simps)
    note loop = Cons.prems [unfolded migration_loop.simps if_not_P [OF lock] v]
    show ?thesis
    proof (cases "r1 \<noteq> None \<or> (b \<and> truthy (rs_error s1))")
      case True
      then have "s = s1" "\<not> (r = None \<and> rs_error s = None)"
        using loop by (auto simp: truthy_def split: option.splits)
      then show ?thesis using t1 rows by (intro runs_prefix_stop [of _ _ t1 0 _ 0]) simp_all
    next
      case False
      obtain r2 s2 where run: "run_script w MIGRATE_POLICY m (migrate_event_data m) (info_of m ''SUCCESS'') s1 = (r2, s2)"
        by (cases "run_script w MIGRATE_POLICY m (migrate_event_data m) (info_of m ''SUCCESS'') s1")
      from run_script_turn [OF run] obtain t j k where turn: "rs_effects s2 = rs_effects s1 @ t"
        "executed t = replicate j (script_name m)" "rows_of s2 = rows_of s1 @ replicate k (script_name m)"
        "k \<le> j" "j \<le> 1" "r2 = Inr True \<Longrightarrow> k = 1" "run_verdict w r2 s2" by metis
      have next_step: "(r, s) = (case r2 of Inl e \<Rightarrow> (Some e, s2) | Inr True \<Rightarrow> migration_loop w b ms s2
          | Inr False \<Rightarrow> (None, s2))"
        using loop False run by (auto split: option.splits)
      have e: "rs_effects s2 = rs_effects st @ (t1 @ t)" "executed (t1 @ t) = replicate j (script_name m)"
          "rows_of s2 = rows_of st @ replicate k (script_name m)"
        using t1 rows turn(1-3) by simp_all
      show ?thesis
      proof (cases "r2 = Inr True")
        case True
        then have "j = 1" "k = 1" using turn(4-6) by simp_all
        moreover have "runs_prefix ms s2 r s" using next_step True by (intro Cons.IH) simp
        ultimately show ?thesis using e by (intro runs_prefix_go_on [of s2 st "t1 @ t"]) simp_all
      next
        case False
        then have "s = s2" "\<not> (r = None \<and> rs_error s = None)"
          using next_step turn(7) by (auto simp: run_verdict_def split: sum.splits bool.splits)
        then show ?thesis using e turn(4,5) by (intro runs_prefix_stop [of _ _ "t1 @ t" j _ k]) simp_all
      qed
    qed
  qed
qed

text \<open>C22. The loop executes a prefix of the pending scripts, in their order, each once, and the rows it
  adds to the result are those of the scripts that were applied: the executed ones, or all but the
  last. It stops early only by raising or with an error on the result.\<close>

theorem migration_loop_prefix:
  "case migration_loop w b ms st of (r, s) \<Rightarrow>
     \<exists>t j k. rs_effects s = rs_effects st @ t \<and> executed t = map script_name (take j ms)
       \<and> map mi_script (rs_rows s) = map mi_script (rs_rows st) @ map script_name (take k ms)
       \<and> k \<le> j \<and> j \<le> Suc k \<and> j \<le> length ms
       \<and> (if r = None \<and> rs_error s = None then k = length ms else True)"
  using migration_loop_runs [of w b ms st] unfolding runs_prefix_def rows_of_def
  by (cases "migration_loop w b ms st") blast

subsection \<open>Only scripts planned under the lock are executed\<close>

definition executes_only :: "(string \<Rightarrow> bool) \<Rightarrow> effect \<Rightarrow> bool" where
  "executes_only Q e = (case e of Executed n \<Rightarrow> Q n | _ \<Rightarrow> True)"

lemma executes_only_executed: "list_all (executes_only Q) t = list_all Q (executed t)"
  by (induction t rule: executed.induct) (simp_all add: executes_only_def)

lemma executes_only_other: "read_only e \<or> fires evs e \<or> allowed True e \<Longrightarrow> executes_only Q e"
  by (cases e) (auto simp: executes_only_def fires_def)

text \<open>A script that is pending in a plan made from the history as it was read with the lock taken.\<close>

definition planned_under_lock :: "world \<Rightarrow> migrate_options \<Rightarrow> string \<Rightarrow> bool" where
  "planned_under_lock w mo n \<longleftrightarrow>
     (\<exists>u rows warn plan warn'. AcquiredLock \<in> set u \<and> wd_history w u = Inr rows
        \<and> plan_migrate (wd_files w) (Some (wd_source w)) (mo_target mo) (mo_selection mo) (mo_strict mo) rows warn
            = Inr (plan, warn')
        \<and> n \<in> script_name ` set (mp_pending plan))"

abbreviation planned_effect :: "world \<Rightarrow> migrate_options \<Rightarrow> effect \<Rightarrow> bool" where
  "planned_effect w mo \<equiv> executes_only (planned_under_lock w mo)"

lemma planned_reads: "grows read_only st s \<Longrightarrow> grows (planned_effect w mo) st s"
  by (erule grows_mono) (simp add: executes_only_other)

lemma planned_fires: "grows (fires evs) st s \<Longrightarrow> grows (planned_effect w mo) st s"
  by (erule grows_mono) (rule executes_only_other, blast)

lemma apply_migrations_planned:
  assumes "list_all (planned_under_lock w mo) (map script_name ms)"
  shows "grows (planned_effect w mo) st (snd (apply_migrations w b ms st))"
  unfolding apply_migrations_def
proof (rule grows_in_order)
  fix a s assume "a \<in> set [execute_before_callbacks w ms, migration_loop w b ms, execute_after_callbacks w ms]"
  moreover have cb: "grows (planned_effect w mo) s (snd (in_order (map (fire w) evs) s))" for evs
    by (rule planned_fires [OF grows_extends [OF extends_fires]])
  moreover have "grows (planned_effect w mo) s (snd (migration_loop w b ms s))"
  proof -
    obtain r s' where l: "migration_loop w b ms s = (r, s')" by (cases "migration_loop w b ms s")
    from migration_loop_runs [OF l] obtain t j where t: "rs_effects s' = rs_effects s @ t"
        "executed t = map script_name (take j ms)"
      unfolding runs_prefix_def by blast
    have "list_all (planned_under_lock w mo) (executed t)"
      using assms by (auto simp: t(2) list_all_iff dest: in_set_takeD)
    then show ?thesis using t(1) l by (auto simp: grows_def executes_only_executed)
  qed
  moreover have "grows (planned_effect w mo) s (snd (execute_after_callbacks w ms s))"
    by (cases "truthy (rs_error s)") (simp_all only: execute_after_callbacks_def if_True if_False cb snd_conv grows_refl)
  ultimately show "grows (planned_effect w mo) s (snd (a s))"
    unfolding execute_before_callbacks_def by (elim set_ConsD [elim_format] disjE) (simp_all del: in_order.simps list.map)
qed

lemma run_locked_plan_planned:
  assumes "list_all (planned_under_lock w mo) (map script_name (mp_pending plan))"
  shows "grows (planned_effect w mo) st (snd (run_locked_plan w mo planned plan st))"
proof -
  have c: "grows (planned_effect w mo) st (snd (if b then preflight_with_callbacks w evs ms st else (None, st)))" for b evs ms
    using planned_reads [OF preflight_with_callbacks_reads] by simp
  have m: "grows (planned_effect w mo) s (snd (mark_and_commit w ms s))" for s ms
    by (rule grows_mono [OF mark_and_commit_allowed]) (simp add: executes_only_other)
  show ?thesis
    unfolding run_locked_plan_def Let_def
  proof (rule grows_case [OF c])
    fix r s assume g: "grows (planned_effect w mo) st s"
    have "grows (planned_effect w mo) st (snd (mark_and_commit w (mp_pending plan) s))"
      by (rule grows_trans [OF g m])
    moreover have "grows (planned_effect w mo) st (snd (apply_migrations w (mo_show_sql mo) (mp_pending plan) s))"
      by (rule grows_trans [OF g apply_migrations_planned [OF assms]])
    ultimately show "grows (planned_effect w mo) st (snd (case r of None \<Rightarrow>
          if mp_pending plan = [] then (Inr True, s) else if mo_mark mo
          then (case mark_and_commit w (mp_pending plan) s of (ok, s2) \<Rightarrow> (Inr ok, s2))
          else and_go_on (apply_migrations w (mo_show_sql mo) (mp_pending plan) s)
        | Some e \<Rightarrow> (Inl e, s)))"
      using g by (cases r; cases "mark_and_commit w (mp_pending plan) s") simp_all
  qed
qed

lemma read_plan_planned:
  assumes "AcquiredLock \<in> set (rs_effects st)" "read_plan w mo st = (Inr (Inr plan), s)"
  shows "list_all (planned_under_lock w mo) (map script_name (mp_pending plan))"
proof -
  let ?u = "rs_effects (emit ReadHistory st)"
  obtain rows warn where "wd_history w ?u = Inr rows"
    "plan_migrate (wd_files w) (Some (wd_source w)) (mo_target mo) (mo_selection mo) (mo_strict mo) rows
       (rs_warn (emit ReadHistory st)) = Inr (plan, warn)"
    using assms(2) by (auto simp: read_plan_def Let_def split: sum.splits migrate_error.splits)
  moreover have "AcquiredLock \<in> set ?u" using assms(1) by (simp add: emit_def)
  ultimately have "n \<in> script_name ` set (mp_pending plan) \<Longrightarrow> planned_under_lock w mo n" for n
    unfolding planned_under_lock_def by blast
  then show ?thesis by (simp add: list_all_iff)
qed

lemma under_lock_planned:
  assumes "AcquiredLock \<in> set (rs_effects st)"
  shows "grows (planned_effect w mo) st (snd (under_lock w mo planned st))"
  unfolding under_lock_def
proof (rule grows_case [OF planned_reads [OF read_plan_reads]])
  fix a s assume r: "read_plan w mo st = (a, s)" and g: "grows (planned_effect w mo) st s"
  have "grows (planned_effect w mo) st (snd (run_locked_plan w mo planned plan s))" if "a = Inr (Inr plan)" for plan
    using read_plan_planned [OF assms r [unfolded that]]
    by (intro grows_trans [OF g] run_locked_plan_planned)
  then show "grows (planned_effect w mo) st (snd (case a of Inl e \<Rightarrow> (Inl e, s)
      | Inr (Inl (n, v)) \<Rightarrow> refuse (wd_strict_text w n v) s
      | Inr (Inr plan) \<Rightarrow> (case validate_plan w plan s of Inl e \<Rightarrow> (Inl e, s)
         | Inr (True, b) \<Rightarrow> run_locked_plan w mo planned plan s
         | Inr (False, errs) \<Rightarrow> refuse (''Validation failed: '' @ errs) s)))"
    using g by (auto split: sum.split bool.split)
qed

lemma migrate_handler_planned: "grows (planned_effect w mo) st (snd (migrate_handler w mo e st))"
  by (rule grows_mono [OF migrate_handler_fires]) (auto intro: executes_only_other)

lemma with_migration_lock_planned: "grows (planned_effect w mo) st (snd (with_migration_lock w mo planned st))"
proof -
  have "grows (planned_effect w mo) (emit AcquiredLock st) (snd (handled w mo (under_lock w mo planned (emit AcquiredLock st))))"
    using under_lock_planned [of "emit AcquiredLock st" w mo planned]
    by (auto simp: handled_def emit_def split: prod.split sum.split intro: grows_trans [OF _ migrate_handler_planned])
  moreover have "grows (planned_effect w mo) st (emit AcquiredLock st)"
    by (simp add: grows_emit executes_only_def)
  ultimately have "grows (planned_effect w mo) st (snd (handled w mo (under_lock w mo planned (emit AcquiredLock st))))"
    by (rule grows_trans [rotated])
  then show ?thesis
    using migrate_handler_planned
    by (auto simp: with_migration_lock_def executes_only_def intro: grows_emit split: sum.split bool.split prod.split)
qed

lemma migrate_planned_planned: "grows (planned_effect w mo) st (snd (migrate_planned w mo plan st))"
proof -
  let ?s = "if mo_dry_run mo then flag_missing_history w plan st else st"
  have s: "grows (planned_effect w mo) st ?s" by (simp add: flag_missing_history_def)
  have d: "grows (planned_effect w mo) st (snd (handle_dry_run w ms b ?s))" for ms b
    by (rule grows_trans [OF s planned_reads [OF handle_dry_run_reads]])
  have "grows (planned_effect w mo) st (snd (case with_migration_lock w mo ms ?s of
             (Inl e, st2) \<Rightarrow> (Some e, st2) | (Inr False, st2) \<Rightarrow> (None, st2)
           | (Inr True, st2) \<Rightarrow> update_final_state w st2))" for ms
    by (rule grows_case [OF grows_trans [OF s with_migration_lock_planned]])
      (auto split: sum.split bool.split intro: grows_trans [OF _ planned_reads [OF update_final_state_reads]])
  then show ?thesis
    unfolding migrate_planned_def Let_def
    using d s by (auto split: sum.split bool.split)
qed

lemma migrate_body_planned: "grows (planned_effect w mo) st (snd (migrate_body w mo st))"
proof (cases "wd_setup w")
  case None
  have p: "grows (planned_effect w mo) s (snd (in_order (body_steps w mo plan) s))" for s plan
    unfolding body_steps_def by (rule grows_in_order)
      (auto intro: planned_reads [OF preflight_with_callbacks_reads] planned_reads [OF check_database_reads]
        migrate_planned_planned split: if_splits)
  show ?thesis
    unfolding migrate_body_def Let_def None option.case
    by (rule grows_case [OF planned_reads [OF read_plan_reads]])
      (auto split: sum.split intro!: grows_trans [OF _ p])
qed (simp add: migrate_body_def)

text \<open>C24. Every script a migrate command executes is pending in a plan (as \<open>plan_migrate\<close> makes it from
  the catalog and the filters of the command) over the history read after the migration lock was
  taken: a script that another process applied while this one waited is not run again.\<close>

theorem executed_planned_under_lock:
  "\<exists>t. rs_effects (snd (migrate_execute w mo st)) = rs_effects st @ t
     \<and> list_all (planned_under_lock w mo) (executed t)"
proof -
  have c: "grows (planned_effect w mo) st (snd (check_database w b st))" for b
    by (rule planned_reads [OF check_database_reads])
  have "grows (planned_effect w mo) st (snd (migrate_execute w mo st))"
    unfolding migrate_execute_def command_lifecycle_def
    by (rule grows_case [OF c])
      (auto split: option.split exn.split intro!: grows_case [OF grows_trans [OF _ migrate_body_planned]])
  then show ?thesis by (auto simp: grows_def executes_only_executed)
qed

end
