(* ===== verification/UndoPlan.thy ===== *)
theory UndoPlan
  imports Plans "HOL-Library.Sublist"
begin

text \<open>
  What undo would revert (\<open>state/undo_plan.py\<close>): the selection among the applied migrations, the
  widening to whole groups and to generated part sets, and the undo script of every step.
\<close>

subsection \<open>Generated parts\<close>

definition digits_re :: re where
  "digits_re = plus (Cls is_digit)"

definition PART_HEADER :: re where
  "PART_HEADER =
     Seq (lit ''-- Part '') (Seq (Grp 1 digits_re) (Seq (lit '' of '') (Seq (Grp 2 digits_re)
       (Seq (lit ''; '')
         (Seq (Alt (lit ''transactional'')
                (Alt (Seq (lit ''autocommit-only ('') (Seq (plus any_char) (lit '')'')))
                     (lit ''no statements; keeps every sync part paired with an undo part'')))
           (Seq (lit ''.'') Eol))))))"

definition PART_NAME :: re where
  "PART_NAME =
     Seq (lit ''V'') (Seq (Grp 1 (plus any_char)) (Seq (lit ''_'') (Seq (Grp 2 digits_re)
       (Seq (lit ''__'') (Seq (Grp 3 (plus any_char)) (Seq (lit ''.sql'') Eol))))))"

definition PART_SIGNATURE :: string where
  "PART_SIGNATURE = ''-- Split because dblift migrate refuses a file that mixes autocommit-only and transactional statements; ''"

definition PART_ORDERS :: "string list" where
  "PART_ORDERS = [PART_SIGNATURE @ ''apply them in order.'',
                  PART_SIGNATURE @ ''dblift undo applies them from the highest part down.'']"

definition PAIRED_PART_HEADER :: string where
  "PAIRED_PART_HEADER = ''-- Each undo part reverses only its matching sync part; `dblift undo` applies the highest applied part first.''"

text \<open>The groups of a header or a name: numbers for the digits.\<close>

definition part_header :: "string \<Rightarrow> (nat \<times> nat) option" where
  "part_header line = map_option (\<lambda>(c, r). (nat_of_digits (the (c 1)), nat_of_digits (the (c 2))))
     (re_match PART_HEADER line)"

definition part_name :: "string \<Rightarrow> (string \<times> nat \<times> string) option" where
  "part_name n = map_option (\<lambda>(c, r). (the (c 1), nat_of_digits (the (c 2)), the (c 3)))
     (re_match PART_NAME n)"

text \<open>\<open>str(Path(p).parent)\<close> of a path in normal form.\<close>

definition path_parent :: "string \<Rightarrow> string" where
  "path_parent p =
     (let front = rev (drop 1 (dropWhile (\<lambda>c. c \<noteq> CHR ''/'') (rev p)))
      in if CHR ''/'' \<notin> set p then ''.'' else if front = [] then ''/'' else front)"

record part_group =
  pg_count :: nat
  pg_parts :: "(nat, migration) dict"
  pg_invalid :: bool

text \<open>The part a script claims to be: its number, the cnt and the key of its group.\<close>

definition part_identity :: "migration \<Rightarrow> (nat \<times> nat \<times> string) option" where
  "part_identity m =
     (case splitlines (content m) of
        l1 # l2 # _ \<Rightarrow>
          if l2 \<notin> set PART_ORDERS then None
          else (case (part_header l1, part_name (script_name m)) of
                  (Some (number, cnt), Some (base, n, desc)) \<Rightarrow>
                    if number \<noteq> n \<or> \<not> (1 \<le> number \<and> number \<le> cnt) then None
                    else Some (number, cnt,
                      (case group_tag_of m of
                         Some tag \<Rightarrow> if tag \<noteq> [] then tag else
                           ''legacy:'' @ path_parent (the (or_else (path m) (Some (script_name m)))) @ '':'' @ base @ '':'' @ desc
                       | None \<Rightarrow>
                           ''legacy:'' @ path_parent (the (or_else (path m) (Some (script_name m)))) @ '':'' @ base @ '':'' @ desc))
                | _ \<Rightarrow> None)
      | _ \<Rightarrow> None)"

definition add_part :: "(string, part_group) dict \<Rightarrow> migration \<Rightarrow> (string, part_group) dict" where
  "add_part groups m =
     (case part_identity m of
        None \<Rightarrow> groups
      | Some (number, cnt, key) \<Rightarrow>
          let g = (case dget groups key of None \<Rightarrow> \<lparr>pg_count = cnt, pg_parts = [], pg_invalid = False\<rparr>
                   | Some g \<Rightarrow> g);
              known = dget (pg_parts g) number \<noteq> None
          in dset groups key
               \<lparr>pg_count = pg_count g,
                pg_parts = (if known then pg_parts g else dset (pg_parts g) number m),
                pg_invalid = (pg_invalid g \<or> cnt \<noteq> pg_count g \<or> known)\<rparr>)"

definition generated_part_groups :: "migration_state \<Rightarrow> (string, part_group) dict" where
  "generated_part_groups st =
     foldl add_part [] (case ms_resolved_objects st of None \<Rightarrow> [] | Some ms \<Rightarrow> ms)"

definition part_file :: "string \<Rightarrow> nat \<Rightarrow> string \<Rightarrow> string" where
  "part_file base n desc = ''V'' @ base @ ''_'' @ digits_of_nat n @ ''__'' @ desc @ ''.sql''"

definition expected_part_names :: "(nat, migration) dict \<Rightarrow> nat \<Rightarrow> (string, string) dict" where
  "expected_part_names parts cnt =
     (case parts of
        [] \<Rightarrow> []
      | (_, seed) # _ \<Rightarrow>
          (case part_name (script_name seed) of
             None \<Rightarrow> []
           | Some (base, _, desc) \<Rightarrow>
               foldl (\<lambda>names number.
                        let name = part_file base number desc
                        in case fm_version (parse_migration_filename name) of
                             None \<Rightarrow> names | Some v \<Rightarrow> dset names v name)
                 [] [1..<Suc cnt]))"

definition has_matching_paired_undo :: "migration_state \<Rightarrow> string \<Rightarrow> string \<Rightarrow> nat \<Rightarrow> bool" where
  "has_matching_paired_undo st ver forward_name cnt =
     (case map fst (filter (\<lambda>(m, e). e = UNDO_AVAILABLE \<and> version_str m = ver) (ms_catalog st)) of
        [m] \<Rightarrow>
          script_name m = ''U'' @ drop 1 forward_name
          \<and> (let lines = splitlines (content m)
             in case (part_header (hd (lines @ [''''])), part_name forward_name) of
                  (Some (n, c), Some (_, number, _)) \<Rightarrow>
                    lines \<noteq> [] \<and> n = number \<and> c = cnt \<and> length lines > 2
                    \<and> lines ! 1 = PART_ORDERS ! 1 \<and> lines ! 2 = PAIRED_PART_HEADER
                | _ \<Rightarrow> False)
      | _ \<Rightarrow> False)"

subsection \<open>Widening to part sets\<close>

datatype undo_error = UState plan_error | UKeyError string | UNotInList

text \<open>The rows that are applied now, by version, the last one of each; a successful row whose version
  has no rank is a \<open>KeyError\<close>.\<close>

fun current_rows ::
  "(string, version_rank_state) dict \<Rightarrow> migration list \<Rightarrow> migration list \<Rightarrow> (string, migration) dict
   \<Rightarrow> undo_error + (string, migration) dict" where
  "current_rows ranks rows [] d = Inr d"
| "current_rows ranks rows (m # ms) d =
     (if has_version m \<and> succeeded m
      then (case dget ranks (version_str m) of
              None \<Rightarrow> Inl (UKeyError (version_str m))
            | Some s \<Rightarrow>
                if installed_rank_of m = vr_versioned s
                   \<and> \<not> is_currently_undone (Some (version_str m)) rows (Some ranks)
                then current_rows ranks rows ms (dset d (version_str m) m)
                else current_rows ranks rows ms d)
      else current_rows ranks rows ms d)"

datatype part_refusal =
    AmbiguousVersion
  | PartFileMissing
  | AmbiguousHeaders
  | NoMatchingUndoParts
  | AbsentFromHistory "string list"
  | OutOfPartOrder
  | AmbiguousOrder
  | ChangesUndoOrder
  | StepsOutOfOrder

definition has_paired_marker :: "migration \<Rightarrow> bool" where
  "has_paired_marker m \<longleftrightarrow>
     length (splitlines (content m)) > 2 \<and> splitlines (content m) ! 2 = PAIRED_PART_HEADER"

definition in_history :: "(string, migration) dict \<Rightarrow> string \<times> string \<Rightarrow> bool" where
  "in_history current e = (case dget current (fst e) of None \<Rightarrow> False | Some m \<Rightarrow> script_name m = snd e)"

definition part_members :: "(string, migration) dict \<Rightarrow> (string, string) dict \<Rightarrow> migration list" where
  "part_members current expected =
     map (\<lambda>e. the (dget current (fst e))) (filter (in_history current) expected)"

definition missing_parts :: "(string, migration) dict \<Rightarrow> (string, string) dict \<Rightarrow> (nat, migration) dict \<Rightarrow> string list" where
  "missing_parts current expected parts =
     map snd (filter (\<lambda>e. \<not> in_history current e \<or> \<not> list_ex (\<lambda>p. script_name (snd p) = snd e) parts) expected)"

text \<open>A paired set that is applied only in part may still be undone when its applied parts are the first
  ones, applied one directly after the other.\<close>

definition applied_prefix :: "(string, migration) dict \<Rightarrow> (string, string) dict \<Rightarrow> string list \<Rightarrow> bool" where
  "applied_prefix current expected missing =
     (let ranks = map installed_rank_of (part_members current expected)
      in ranks \<noteq> [] \<and> ranks = map (\<lambda>i. hd ranks + int i) [0..<length ranks]
         \<and> int (length ranks) = int (length expected) - int (length missing)
         \<and> list_all (in_history current) (take (length ranks) expected))"

fun first_slot :: "int \<Rightarrow> migration list \<Rightarrow> nat \<Rightarrow> nat \<Rightarrow> nat" where
  "first_slot rank [] i best = best"
| "first_slot rank (m # ms) i best =
     first_slot rank ms (Suc i) (if installed_rank_of m > rank then Suc i else best)"

fun last_slot :: "int \<Rightarrow> migration list \<Rightarrow> nat \<Rightarrow> nat" where
  "last_slot rank [] i = i"
| "last_slot rank (m # ms) i = (if installed_rank_of m < rank then i else last_slot rank ms (Suc i))"

text \<open>The members that are not selected yet are inserted by rank, the highest part first.\<close>

fun insert_members :: "migration list \<Rightarrow> migration list \<Rightarrow> string list \<Rightarrow> part_refusal + migration list" where
  "insert_members [] expanded seen = Inr expanded"
| "insert_members (m # ms) expanded seen =
     (if version_str m \<in> set seen then insert_members ms expanded seen
      else let rank = installed_rank_of m
        in if list_ex (\<lambda>x. installed_rank_of x = rank) expanded then Inl AmbiguousOrder
           else let f = first_slot rank expanded 0 0; l = last_slot rank expanded 0
             in if f > l then Inl ChangesUndoOrder
                else insert_members ms (take f expanded @ m # drop f expanded) (version_str m # seen))"

fun index_of :: "'a \<Rightarrow> 'a list \<Rightarrow> nat option" where
  "index_of x [] = None"
| "index_of x (y # ys) = (if x = y then Some 0 else map_option Suc (index_of x ys))"

definition positions :: "migration list \<Rightarrow> migration list \<Rightarrow> nat list option" where
  "positions ms expanded =
     (if list_all (\<lambda>m. index_of m expanded \<noteq> None) ms
      then Some (map (\<lambda>m. the (index_of m expanded)) ms) else None)"

text \<open>One group: left alone when none of its parts is selected, refused, or inserted.\<close>

definition include_group ::
  "migration_state \<Rightarrow> (string, migration) dict \<Rightarrow> part_group \<Rightarrow> migration list
   \<Rightarrow> undo_error + part_refusal + migration list" where
  "include_group st current g expanded =
     (let parts = pg_parts g; cnt = pg_count g;
          expected = expected_part_names parts cnt;
          missing = missing_parts current expected parts;
          markers = map (\<lambda>p. has_paired_marker (snd p)) parts;
          all_paired = list_all id markers
             \<and> list_all (\<lambda>(v, n). has_matching_paired_undo st v n cnt) expected;
          paired = all_paired \<and> (if missing = [] then True else applied_prefix current expected missing);
          members = part_members current expected
      in if \<not> list_ex (\<lambda>m. dget expected (version_str m) = Some (script_name m)) expanded then Inr (Inr expanded)
         else if pg_invalid g \<or> length parts \<noteq> cnt
         then Inr (Inl (if length parts \<noteq> cnt then PartFileMissing else AmbiguousHeaders))
         else if list_ex id markers \<and> \<not> all_paired then Inr (Inl NoMatchingUndoParts)
         else if missing \<noteq> [] \<and> \<not> paired then Inr (Inl (AbsentFromHistory missing))
         else if map installed_rank_of members \<noteq> sort (map installed_rank_of members) then Inr (Inl OutOfPartOrder)
         else (case insert_members (rev members) expanded (map version_str expanded) of
                 Inl r \<Rightarrow> Inr (Inl r)
               | Inr expanded' \<Rightarrow>
                   (case positions (rev members) expanded' of
                      None \<Rightarrow> Inl UNotInList
                    | Some ps \<Rightarrow> if ps \<noteq> sort ps then Inr (Inl StepsOutOfOrder) else Inr (Inr expanded'))))"

fun include_groups ::
  "migration_state \<Rightarrow> (string, migration) dict \<Rightarrow> part_group list \<Rightarrow> migration list
   \<Rightarrow> undo_error + part_refusal + migration list" where
  "include_groups st current [] expanded = Inr (Inr expanded)"
| "include_groups st current (g # gs) expanded =
     (case include_group st current g expanded of
        Inr (Inr expanded') \<Rightarrow> include_groups st current gs expanded'
      | r \<Rightarrow> r)"

text \<open>How many parts claim to be this version of this script.\<close>

definition times_claimed :: "part_group list \<Rightarrow> migration \<Rightarrow> nat" where
  "times_claimed gs m =
     length (filter (\<lambda>p. version_str (snd p) = version_str m \<and> script_name (snd p) = script_name m)
       (concat (map pg_parts gs)))"

definition include_generated_part_groups ::
  "migration_state \<Rightarrow> migration list \<Rightarrow> migration list \<Rightarrow> (string, version_rank_state) dict
   \<Rightarrow> undo_error + part_refusal + migration list" where
  "include_generated_part_groups st chosen applied ranks =
     (let gs = map snd (generated_part_groups st)
      in if gs = [] \<or> chosen = [] then Inr (Inr chosen)
         else if list_ex (\<lambda>m. times_claimed gs m > 1) chosen then Inr (Inl AmbiguousVersion)
         else rbind (current_rows ranks applied applied []) (\<lambda>current. include_groups st current gs chosen))"

subsection \<open>The plan\<close>

record undo_step =
  us_migration :: migration
  us_script :: migration

datatype undo_refusal = RuleRefusal string | PartRefusal part_refusal | NoUndoScript string

record undo_plan =
  up_state :: migration_state
  up_current_version :: "string option"
  up_steps :: "undo_step list"
  up_refusal :: "undo_refusal option"
  up_group_additions :: "migration list"
  up_target_in_group :: bool
  up_selected :: "migration list"
  up_missing_script :: "migration option"

definition find_undo_script :: "migration \<Rightarrow> migration_state \<Rightarrow> migration option" where
  "find_undo_script m st =
     (if version m = None then None
      else map_option fst (List.find (\<lambda>(u, e). e = UNDO_AVAILABLE \<and> version_str u = version_str m) (ms_catalog st)))"

text \<open>The applied rows undo may choose from: successful versioned rows that pass the filters and are the
  latest of their version.\<close>

definition undo_pool :: "migration list \<Rightarrow> selection \<Rightarrow> (string, version_rank_state) dict \<Rightarrow> migration list" where
  "undo_pool applied sel ranks =
     filter (\<lambda>m. installed_rank_of m = vr_versioned (dget_or ranks (version_str m) (rank_state 0 0)))
       (select_by sel None
         (filter (\<lambda>m. (mtype m = SQL \<or> mtype m = PYTHON) \<and> succeeded m \<and> has_version m) applied))"

fun scan_latest ::
  "(migration \<Rightarrow> bool) \<Rightarrow> bool \<Rightarrow> migration list \<Rightarrow> migration list" where
  "scan_latest undone all [] = []"
| "scan_latest undone all (m # ms) =
     (if undone m then scan_latest undone all ms
      else m # (if all then scan_latest undone all ms else []))"

text \<open>The scan above a target: the rules are asked again, and may refuse.\<close>

fun scan_above ::
  "string \<Rightarrow> migration list \<Rightarrow> (string, version_rank_state) dict \<Rightarrow> migration list \<Rightarrow> string + migration list" where
  "scan_above target rows ranks [] = Inr []"
| "scan_above target rows ranks (m # ms) =
     (if vcmp (version_str m) target \<le> 0 then scan_above target rows ranks ms
      else if is_currently_undone (Some (version_str m)) rows (Some ranks) then scan_above target rows ranks ms
      else (case should_undo_version (version_str m) rows (Some ranks) of
              (True, _) \<Rightarrow> rbind (scan_above target rows ranks ms) (\<lambda>r. Inr (m # r))
            | (False, msg) \<Rightarrow> if msg \<noteq> [] then Inl msg else scan_above target rows ranks ms))"

fun resolve_steps :: "migration_state \<Rightarrow> migration list \<Rightarrow> migration + undo_step list" where
  "resolve_steps st [] = Inr []"
| "resolve_steps st (m # ms) =
     (case find_undo_script m st of
        None \<Rightarrow> Inl m
      | Some u \<Rightarrow> rbind (resolve_steps st ms) (\<lambda>r. Inr (\<lparr>us_migration = m, us_script = u\<rparr> # r)))"

definition refused_plan :: "migration_state \<Rightarrow> undo_refusal \<Rightarrow> migration list \<Rightarrow> undo_plan" where
  "refused_plan st r ms =
     \<lparr>up_state = st, up_current_version = ms_current_version st, up_steps = [], up_refusal = Some r,
      up_group_additions = [], up_target_in_group = False, up_selected = ms, up_missing_script = None\<rparr>"

text \<open>The plan once the migrations to undo are widened to their groups.\<close>

definition finish_undo_plan ::
  "migration_state \<Rightarrow> migration list \<Rightarrow> migration list \<Rightarrow> bool \<Rightarrow> (string, version_rank_state) dict
   \<Rightarrow> undo_error + undo_plan" where
  "finish_undo_plan st chosen added in_group ranks =
     rbind (include_generated_part_groups st chosen (ms_all_applied_objects st) ranks) (\<lambda>r.
       (case r of
          Inl refusal \<Rightarrow> Inr (refused_plan st (PartRefusal refusal) chosen)
        | Inr ms \<Rightarrow>
            (case resolve_steps st ms of
               Inl m \<Rightarrow> Inr ((refused_plan st (NoUndoScript (script_name m)) ms)
                          \<lparr>up_group_additions := added, up_target_in_group := in_group,
                           up_missing_script := Some m\<rparr>)
             | Inr steps \<Rightarrow>
                 Inr \<lparr>up_state = st, up_current_version = ms_current_version st, up_steps = steps,
                      up_refusal = None, up_group_additions = added, up_target_in_group = in_group,
                      up_selected = ms, up_missing_script = None\<rparr>)))"

definition tag_filter_active :: "selection \<Rightarrow> bool" where
  "tag_filter_active sel \<longleftrightarrow>
     (case normalize_filter (sel_tags sel) of None \<Rightarrow> False | Some ts \<Rightarrow> ts \<noteq> [])
     \<or> (case normalize_filter (sel_exclude_tags sel) of None \<Rightarrow> False | Some ts \<Rightarrow> ts \<noteq> [])"

definition undo_seeds ::
  "string option \<Rightarrow> selection \<Rightarrow> migration list \<Rightarrow> (string, version_rank_state) dict \<Rightarrow> string + migration list" where
  "undo_seeds target sel rows ranks =
     (let pool = undo_pool rows sel ranks
      in case target of
           None \<Rightarrow> Inr (scan_latest (\<lambda>m. is_currently_undone (Some (version_str m)) rows (Some ranks))
                          (tag_filter_active sel) (rev pool))
         | Some t \<Rightarrow> scan_above t rows ranks (rev pool))"

definition plan_undo ::
  "fs \<Rightarrow> script_source option \<Rightarrow> string option \<Rightarrow> selection \<Rightarrow> migration list \<Rightarrow> warn_state
   \<Rightarrow> undo_error + (undo_plan \<times> warn_state)" where
  "plan_undo f source target sel rows w =
     (case build_state f source target rows w of
        Inl e \<Rightarrow> Inl (UState e)
      | Inr (st, w') \<Rightarrow>
          let applied = ms_all_applied_objects st;
              ranks = latest_successful_ranks applied
          in case undo_seeds target sel applied ranks of
               Inl msg \<Rightarrow> Inr (refused_plan st (RuleRefusal msg) [], w')
             | Inr seeds \<Rightarrow>
                 let (chosen, added) = (if seeds = [] then ([], [])
                       else expand_undo_set_to_groups seeds (undo_pool applied sel ranks) applied ranks)
                 in rbind (finish_undo_plan st chosen added (target \<noteq> None \<and> added \<noteq> []) ranks)
                      (\<lambda>p. Inr (p, w')))"

subsection \<open>What is chosen\<close>

text \<open>A row that is applied now: the latest successful versioned row of a version that is not undone.\<close>

definition applied_now :: "migration list \<Rightarrow> migration \<Rightarrow> bool" where
  "applied_now rows m \<longleftrightarrow> applies_row (version_str m) m
     \<and> installed_rank_of m = latest_rank (applies_row (version_str m)) rows
     \<and> \<not> latest_rank (applies_row (version_str m)) rows < latest_rank (undoes_row (version_str m)) rows"

lemma has_version_str: "has_version m \<Longrightarrow> version_str m \<noteq> []"
  by (auto simp: has_version_def version_str_def split: option.splits)

lemma filter_select: "filter P (select_by sel t ms) = select_by sel t (filter P ms)"
  by (simp add: select_by_def select_migrations_def conj_commute)

lemma undo_pool_active:
  "filter (\<lambda>m. \<not> is_currently_undone (Some (version_str m)) rows None) (undo_pool rows sel (latest_successful_ranks rows))
     = select_by sel None (filter (applied_now rows) rows)"
proof -
  have "(mtype m = SQL \<or> mtype m = PYTHON) \<and> succeeded m \<and> has_version m
      \<and> installed_rank_of m = vr_versioned (dget_or (latest_successful_ranks rows) (version_str m) (rank_state 0 0))
      \<and> \<not> is_currently_undone (Some (version_str m)) rows None \<longleftrightarrow> applied_now rows m" if "m \<in> set rows" for m
  proof (cases "applies_row (version_str m) m")
    case True
    then have "filter (applies_row (version_str m)) rows \<noteq> []" using that by (auto simp: filter_empty_conv)
    moreover have "version_str m \<noteq> []" using True has_version_str by (simp add: applies_row_def)
    ultimately show ?thesis
      using True by (auto simp: applied_now_def dget_or_def dget_latest_ranks rank_state_def
          is_currently_undone_iff applies_row_def)
  qed (auto simp: applied_now_def applies_row_def)
  then show ?thesis
    unfolding undo_pool_def filter_select filter_filter by (intro arg_cong [of _ _ "select_by sel None"] filter_cong) auto
qed

lemma scan_latest_filter:
  "scan_latest P all ms = (if all then filter (\<lambda>m. \<not> P m) ms else take 1 (filter (\<lambda>m. \<not> P m) ms))"
  by (induction ms) auto

lemma scan_above_filter:
  "scan_above t rows (latest_successful_ranks rows) ms
     = Inr (filter (\<lambda>m. vcmp (version_str m) t > 0 \<and> \<not> is_currently_undone (Some (version_str m)) rows None) ms)"
proof (induction ms)
  case (Cons m ms)
  have "should_undo_version v rows (Some (latest_successful_ranks rows)) = (True, [])"
    if "\<not> is_currently_undone (Some v) rows None" for v
    using that by (simp add: should_undo_version_def)
  then show ?case using Cons by (auto simp: linorder_not_le)
qed simp

text \<open>C25. Undo starts from the rows that are applied now and pass the filters, latest first: without a
  target from the first of them, or from all of them when a tag filter is given; with a target from
  exactly those whose version is above the target. The rules never refuse any of them.\<close>

theorem undo_seeds_spec:
  "undo_seeds target sel rows (latest_successful_ranks rows) =
     (let ms = rev (select_by sel None (filter (applied_now rows) rows))
      in Inr (case target of
                None \<Rightarrow> if tag_filter_active sel then ms else take 1 ms
              | Some t \<Rightarrow> filter (\<lambda>m. vcmp (version_str m) t > 0) ms))"
  unfolding undo_pool_active [symmetric] rev_filter [symmetric] Let_def undo_seeds_def
  by (simp add: scan_latest_filter scan_above_filter rev_filter conj_commute split: option.split)

subsection \<open>The steps\<close>

lemma find_undo_script_some:
  "find_undo_script m st = Some u \<Longrightarrow> (u, UNDO_AVAILABLE) \<in> set (ms_catalog st) \<and> version_str u = version_str m"
  by (auto simp: find_undo_script_def find_Some_iff in_set_conv_nth split: if_splits)

lemma find_undo_script_none:
  "find_undo_script m st = None \<Longrightarrow> version m = None
     \<or> list_all (\<lambda>(u, e). e = UNDO_AVAILABLE \<longrightarrow> version_str u \<noteq> version_str m) (ms_catalog st)"
  by (auto simp: find_undo_script_def find_None_iff list_all_iff split: if_splits)

lemma resolve_steps_spec:
  "case resolve_steps st ms of
     Inr steps \<Rightarrow> map us_migration steps = ms
       \<and> list_all (\<lambda>s. find_undo_script (us_migration s) st = Some (us_script s)) steps
   | Inl m \<Rightarrow> m \<in> set ms \<and> find_undo_script m st = None"
  by (induction ms) (auto split: option.splits sum.splits)

subsection \<open>Rows without a rank\<close>

text \<open>A successful row of a version that has neither a versioned nor an undo row: a baseline.\<close>

definition unranked_version :: "migration list \<Rightarrow> string \<Rightarrow> bool" where
  "unranked_version rows v \<longleftrightarrow>
     list_ex (\<lambda>r. has_version r \<and> succeeded r \<and> version_str r = v) rows
     \<and> filter (applies_row v) rows = [] \<and> filter (undoes_row v) rows = []"

lemma current_rows_error:
  "case current_rows (latest_successful_ranks rows) rows ms d of
     Inl e \<Rightarrow> (\<exists>v. e = UKeyError v \<and> (\<exists>r \<in> set ms. has_version r \<and> succeeded r \<and> version_str r = v)
               \<and> filter (applies_row v) rows = [] \<and> filter (undoes_row v) rows = [])
   | Inr d' \<Rightarrow> (\<forall>r \<in> set ms. has_version r \<and> succeeded r \<longrightarrow>
        \<not> (filter (applies_row (version_str r)) rows = [] \<and> filter (undoes_row (version_str r)) rows = []))"
proof (induction ms arbitrary: d)
  case (Cons m ms)
  show ?case
  proof (cases "has_version m \<and> succeeded m")
    case True
    show ?thesis
    proof (cases "dget (latest_successful_ranks rows) (version_str m)")
      case None
      then have "filter (applies_row (version_str m)) rows = [] \<and> filter (undoes_row (version_str m)) rows = []"
        by (simp only: dget_latest_ranks option.distinct split: if_splits)
      then show ?thesis using True None by simp
    next
      case (Some s)
      then have "\<not> (filter (applies_row (version_str m)) rows = [] \<and> filter (undoes_row (version_str m)) rows = [])"
        by (auto simp only: dget_latest_ranks option.distinct split: if_splits)
      moreover have "\<exists>d'. current_rows (latest_successful_ranks rows) rows (m # ms) d
          = current_rows (latest_successful_ranks rows) rows ms d'"
        using True Some by auto
      then obtain d' where "current_rows (latest_successful_ranks rows) rows (m # ms) d
          = current_rows (latest_successful_ranks rows) rows ms d'" ..
      ultimately show ?thesis using Cons.IH [of d'] by (auto split: sum.splits simp del: current_rows.simps)
    qed
  next
    case False
    then have "current_rows (latest_successful_ranks rows) rows (m # ms) d
        = current_rows (latest_successful_ranks rows) rows ms d" by auto
    then show ?thesis using Cons.IH [of d] False by (auto split: sum.splits simp del: current_rows.simps)
  qed
qed simp

text \<open>Reading which generated parts are applied fails with a \<open>KeyError\<close> exactly when the history has
  a successful row, such as a baseline, whose version was never applied or undone as a script, and the
  error names such a version.\<close>

theorem current_rows_key_error:
  "case current_rows (latest_successful_ranks rows) rows rows [] of
     Inl e \<Rightarrow> (\<exists>v. e = UKeyError v \<and> unranked_version rows v)
   | Inr d \<Rightarrow> \<not> (\<exists>v. unranked_version rows v)"
  using current_rows_error [of rows rows "[]"]
  by (auto simp: unranked_version_def list_ex_iff split: sum.splits)

lemma include_group_error: "include_group st c g ms \<noteq> Inl (UState x)" "include_group st c g ms \<noteq> Inl (UKeyError v)"
  by (auto simp: include_group_def Let_def split: sum.split option.split)

lemma include_groups_error: "include_groups st c gs ms \<noteq> Inl (UState x)" "include_groups st c gs ms \<noteq> Inl (UKeyError v)"
proof -
  have "include_groups st c gs ms = Inl e \<Longrightarrow> \<exists>g ms. include_group st c g ms = Inl e" for e
    by (induction gs arbitrary: ms) (auto split: sum.splits)
  then show "include_groups st c gs ms \<noteq> Inl (UState x)" "include_groups st c gs ms \<noteq> Inl (UKeyError v)"
    using include_group_error by blast+
qed

lemma include_error:
  assumes "include_generated_part_groups st ms rows (latest_successful_ranks rows) = Inl e"
  shows "e \<noteq> UState x \<and> (case e of UKeyError v \<Rightarrow> unranked_version rows v | _ \<Rightarrow> True)"
proof -
  from assms consider "current_rows (latest_successful_ranks rows) rows rows [] = Inl e"
    | c where "include_groups st c (map snd (generated_part_groups st)) ms = Inl e"
    by (auto simp: include_generated_part_groups_def Let_def rbind_Inl_iff split: if_splits)
  then show ?thesis
  proof cases
    case 1
    then show ?thesis
      using current_rows_error [of rows rows "[]"] by (auto simp: unranked_version_def list_ex_iff)
  next
    case 2
    then show ?thesis using include_groups_error by (cases e) auto
  qed
qed

text \<open>C26. A plan is all or nothing: without a refusal every selected migration has a step, in the same
  order, with the first undo script the catalog offers for its version; with a refusal there is no
  step, and a refusal for a missing script names a selected migration the catalog has no undo script
  for. The rules of a version never refuse a plan, and a plan fails with an exception only when the
  state cannot be read, a row has no rank, or a member is not in the plan.\<close>

theorem plan_undo_all_or_nothing:
  "case plan_undo f source target sel rows w of
     Inl (UState e) \<Rightarrow> build_state f source target rows w = Inl e
   | Inl (UKeyError v) \<Rightarrow> (\<exists>st w'. build_state f source target rows w = Inr (st, w')
        \<and> unranked_version (ms_all_applied_objects st) v)
   | Inl UNotInList \<Rightarrow> True
   | Inr (p, w') \<Rightarrow>
       (case up_refusal p of
          None \<Rightarrow> map us_migration (up_steps p) = up_selected p
            \<and> list_all (\<lambda>s. find_undo_script (us_migration s) (up_state p) = Some (us_script s)
                 \<and> (us_script s, UNDO_AVAILABLE) \<in> set (ms_catalog (up_state p))
                 \<and> version_str (us_script s) = version_str (us_migration s)) (up_steps p)
        | Some (RuleRefusal msg) \<Rightarrow> False
        | Some (PartRefusal r) \<Rightarrow> up_steps p = []
        | Some (NoUndoScript n) \<Rightarrow> up_steps p = []
            \<and> (\<exists>m. up_missing_script p = Some m \<and> m \<in> set (up_selected p) \<and> script_name m = n
                 \<and> find_undo_script m (up_state p) = None))"
proof (cases "build_state f source target rows w")
  case (Inl e)
  then show ?thesis by (simp add: plan_undo_def)
next
  case (Inr r)
  obtain st w1 where r: "r = (st, w1)" by (cases r)
  let ?rows = "ms_all_applied_objects st"
  let ?ranks = "latest_successful_ranks ?rows"
  obtain seeds where seeds: "undo_seeds target sel ?rows ?ranks = Inr seeds"
    using undo_seeds_spec [of target sel ?rows] by (simp add: Let_def)
  obtain chosen added where ca: "(if seeds = [] then ([], [])
      else expand_undo_set_to_groups seeds (undo_pool ?rows sel ?ranks) ?rows ?ranks) = (chosen, added)"
    by fastforce
  have plan: "plan_undo f source target sel rows w
      = rbind (finish_undo_plan st chosen added (target \<noteq> None \<and> added \<noteq> []) ?ranks) (\<lambda>p. Inr (p, w1))"
    using ca by (simp add: plan_undo_def Inr r Let_def seeds)
  let ?inc = "include_generated_part_groups st chosen ?rows ?ranks"
  consider (raised) e where "?inc = Inl e" | (refused) pr where "?inc = Inr (Inl pr)" | (ok) ms where "?inc = Inr (Inr ms)"
    by (metis sum.exhaust)
  then show ?thesis
  proof cases
    case raised
    then have "e \<noteq> UState x \<and> (case e of UKeyError v \<Rightarrow> unranked_version ?rows v | _ \<Rightarrow> True)" for x
      by (rule include_error)
    then show ?thesis
      using raised by (cases e) (auto simp: plan finish_undo_plan_def Inr r)
  next
    case refused
    then show ?thesis by (simp add: plan finish_undo_plan_def refused_plan_def)
  next
    case ok
    then show ?thesis
      using resolve_steps_spec [where st = st and ms = ms]
      by (cases "resolve_steps st ms")
        (auto simp: plan finish_undo_plan_def refused_plan_def list_all_iff dest: find_undo_script_some)
  qed
qed

subsection \<open>Widening keeps the order\<close>

text \<open>A migration that was not chosen comes after every one applied later and before every one applied
  earlier.\<close>

definition by_rank :: "migration list \<Rightarrow> migration list \<Rightarrow> bool" where
  "by_rank chosen ms \<longleftrightarrow>
     sorted_wrt (\<lambda>x y. x \<in> set chosen \<and> y \<in> set chosen \<or> installed_rank_of y < installed_rank_of x) ms"

lemma first_slot_ge: "b \<le> i \<Longrightarrow> b \<le> first_slot r ms i b"
proof (induction ms arbitrary: i b)
  case (Cons m ms)
  show ?case using Cons.IH [of "Suc i" "Suc i"] Cons.IH [of b "Suc i"] Cons.prems by auto
qed simp

lemma first_slot_after: "x \<in> set (drop (first_slot r ms i b - i) ms) \<Longrightarrow> b \<le> i \<Longrightarrow> installed_rank_of x \<le> r"
proof (induction ms arbitrary: i b)
  case (Cons m ms)
  let ?b = "if installed_rank_of m > r then Suc i else b"
  have b: "?b \<le> Suc i" using Cons.prems(2) by simp
  show ?case
  proof (cases "first_slot r ms (Suc i) ?b - i")
    case 0
    then have "\<not> installed_rank_of m > r" using first_slot_ge [OF b, of r ms] by (auto split: if_splits)
    moreover have "x \<in> set ms \<Longrightarrow> installed_rank_of x \<le> r"
      using Cons.IH [OF _ b] 0 by auto
    ultimately show ?thesis using Cons.prems 0 by auto
  next
    case (Suc k)
    then have "first_slot r ms (Suc i) ?b - Suc i = k" by simp
    then show ?thesis using Cons.IH [OF _ b] Cons.prems Suc by auto
  qed
qed simp

lemma last_slot_before:
  "x \<in> set (take (last_slot r ms i - i) ms) \<Longrightarrow> installed_rank_of x \<ge> r" "i \<le> last_slot r ms i"
proof (induction ms arbitrary: i)
  case (Cons m ms)
  {
    case 1
    have "last_slot r ms (Suc i) - i = Suc (last_slot r ms (Suc i) - Suc i)"
      using Cons.IH(2) [of "Suc i"] by simp
    then show ?case using 1 Cons.IH(1) [of "Suc i"] by (auto split: if_splits)
  next
    case 2
    then show ?case using Cons.IH(2) [of "Suc i"] by auto
  }
qed simp_all

lemma subseq_insert: "subseq xs (take n ys @ drop n ys) \<Longrightarrow> subseq xs (take n ys @ y # drop n ys)"
  using subseq_order.trans list_emb_append_mono [of "(=)" "take n ys" "take n ys" "drop n ys" "y # drop n ys"]
  by (metis list_emb.intros(2) subseq_order.order_refl)

lemma insert_members_spec:
  assumes "insert_members ms ex seen = Inr ex'" "subseq ch ex" "by_rank ch ex"
  shows "subseq ch ex' \<and> by_rank ch ex' \<and> set ex' \<subseteq> set ex \<union> set ms"
  using assms
proof (induction ms arbitrary: ex seen)
  case (Cons m ms)
  show ?case
  proof (cases "version_str m \<in> set seen")
    case True
    then show ?thesis using Cons.IH [of ex seen] Cons.prems by auto
  next
    case False
    let ?r = "installed_rank_of m" and ?f = "first_slot (installed_rank_of m) ex 0 0"
    let ?l = "last_slot (installed_rank_of m) ex 0" and ?ex = "take (first_slot (installed_rank_of m) ex 0 0) ex @ m # drop (first_slot (installed_rank_of m) ex 0 0) ex"
    have ne: "\<And>x. x \<in> set ex \<Longrightarrow> installed_rank_of x \<noteq> ?r" and fl: "?f \<le> ?l"
      and ins: "insert_members ms ?ex (version_str m # seen) = Inr ex'"
      using Cons.prems(1) False by (auto simp: Let_def list_ex_iff split: if_splits)
    have "installed_rank_of x > ?r" if "x \<in> set (take ?f ex)" for x
    proof -
      have "x \<in> set (take (?l - 0) ex)" using that fl set_take_subset_set_take [of ?f ?l ex] by auto
      from last_slot_before(1) [OF this] show ?thesis using ne [of x] in_set_takeD [OF that] by simp
    qed
    moreover have "installed_rank_of x < ?r" if "x \<in> set (drop ?f ex)" for x
    proof -
      have "x \<in> set (drop (?f - 0) ex)" using that by simp
      from first_slot_after [OF this] show ?thesis using ne [of x] in_set_dropD [OF that] by simp
    qed
    moreover have "sorted_wrt R (take ?f ex) \<and> sorted_wrt R (drop ?f ex)
        \<and> (\<forall>x \<in> set (take ?f ex). \<forall>y \<in> set (drop ?f ex). R x y)" if "sorted_wrt R ex" for R
      using that sorted_wrt_append [of R "take ?f ex" "drop ?f ex"] by simp
    ultimately have "by_rank ch ?ex"
      using Cons.prems(3) unfolding by_rank_def sorted_wrt_append by fastforce
    moreover have "subseq ch ?ex" using Cons.prems(2) by (intro subseq_insert) simp
    ultimately have "subseq ch ex' \<and> by_rank ch ex' \<and> set ex' \<subseteq> set ?ex \<union> set ms"
      by (rule Cons.IH [OF ins, rotated])
    moreover have "set ?ex \<subseteq> set ex \<union> {m}" by (auto dest: in_set_takeD in_set_dropD)
    ultimately show ?thesis by auto
  qed
qed auto

text \<open>The rows the members come from are applied now.\<close>

lemma current_rows_values:
  assumes "current_rows (latest_successful_ranks rows) rows ms d = Inr d'"
    and "\<And>k m. (k, m) \<in> set d \<Longrightarrow> m \<in> set rows \<and> P m"
    and "set ms \<subseteq> set rows"
    and "\<And>m. m \<in> set ms \<Longrightarrow> has_version m \<Longrightarrow> succeeded m \<Longrightarrow>
          \<not> is_currently_undone (Some (version_str m)) rows None \<Longrightarrow> P m"
  shows "(k, m) \<in> set d' \<Longrightarrow> m \<in> set rows \<and> P m"
  using assms
proof (induction ms arbitrary: d)
  case (Cons x ms)
  have set_dset: "(k, m) \<in> set (dset d a b) \<Longrightarrow> (k, m) \<in> set d \<or> m = b" for k m d a and b :: migration
    by (induction d a b rule: dset.induct) (auto split: if_splits)
  from Cons.prems(2) obtain d1 where d1: "current_rows (latest_successful_ranks rows) rows ms d1 = Inr d'"
      "d1 = d \<or> (d1 = dset d (version_str x) x \<and> has_version x \<and> succeeded x
         \<and> \<not> is_currently_undone (Some (version_str x)) rows None)"
    by (auto split: if_splits option.splits)
  have "m \<in> set rows \<and> P m" if "(k, m) \<in> set d1" for k m
    using d1(2) Cons.prems(3-5) set_dset [of k m d "version_str x" x] that by auto
  then show ?case using Cons.IH [OF Cons.prems(1) d1(1)] Cons.prems(4,5) by auto
qed auto

lemma include_group_spec:
  assumes "include_group st current g ms = Inr (Inr ms')" "subseq ch ms" "by_rank ch ms"
  shows "subseq ch ms' \<and> by_rank ch ms' \<and> set ms' \<subseteq> set ms \<union> snd ` set current"
proof -
  have m: "set (part_members current expected) \<subseteq> snd ` set current" for expected
  proof
    fix x assume "x \<in> set (part_members current expected)"
    then obtain e where "in_history current e" "x = the (dget current (fst e))"
      by (auto simp only: part_members_def set_map set_filter)
    then have "dget current (fst e) = Some x" by (auto simp: in_history_def split: option.splits)
    then have "(fst e, x) \<in> set current" unfolding dget_def by (rule map_of_SomeD)
    then show "x \<in> snd ` set current" by (rule rev_image_eqI) simp
  qed
  have "ms' = ms \<or> (\<exists>seen. insert_members (rev (part_members current (expected_part_names (pg_parts g) (pg_count g)))) ms seen = Inr ms')"
    using assms(1) by (auto simp: include_group_def Let_def split: if_splits sum.splits option.splits)
  then show ?thesis
  proof
    assume "\<exists>seen. insert_members (rev (part_members current (expected_part_names (pg_parts g) (pg_count g)))) ms seen = Inr ms'"
    then obtain seen where i: "insert_members (rev (part_members current (expected_part_names (pg_parts g) (pg_count g)))) ms seen = Inr ms'" ..
    show ?thesis using insert_members_spec [OF i assms(2,3)] m [of "expected_part_names (pg_parts g) (pg_count g)"] by auto
  qed (use assms in auto)
qed

lemma include_groups_spec:
  "include_groups st current gs ms = Inr (Inr ms') \<Longrightarrow> subseq ch ms \<Longrightarrow> by_rank ch ms
   \<Longrightarrow> subseq ch ms' \<and> by_rank ch ms' \<and> set ms' \<subseteq> set ms \<union> snd ` set current"
proof (induction gs arbitrary: ms)
  case (Cons g gs)
  from Cons.prems(1) obtain m1 where i: "include_group st current g ms = Inr (Inr m1)"
      "include_groups st current gs m1 = Inr (Inr ms')"
    by (auto split: sum.splits)
  from include_group_spec [OF i(1) Cons.prems(2,3)] Cons.IH [OF i(2)] show ?case by auto
qed auto

text \<open>Widening an undo to generated part sets keeps every chosen migration, in the chosen order; what
  it adds are successful rows of versions that are not undone, and each of them stands after every
  migration of the plan with a higher rank and before every one with a lower rank.\<close>

theorem part_groups_keep_order:
  "case include_generated_part_groups st chosen rows (latest_successful_ranks rows) of
     Inr (Inr ms) \<Rightarrow> subseq chosen ms \<and> by_rank chosen ms
       \<and> list_all (\<lambda>m. m \<in> set chosen \<or> (m \<in> set rows \<and> succeeded m
            \<and> \<not> is_currently_undone (Some (version_str m)) rows None)) ms
   | _ \<Rightarrow> True"
proof (cases "include_generated_part_groups st chosen rows (latest_successful_ranks rows)")
  case (Inr r)
  have refl: "subseq chosen chosen" "by_rank chosen chosen"
    by (auto simp: by_rank_def sorted_wrt_iff_nth_less)
  show ?thesis
  proof (cases r)
    case inner: (Inr ms)
    then consider "ms = chosen" | c where "current_rows (latest_successful_ranks rows) rows rows [] = Inr c"
        "include_groups st c (map snd (generated_part_groups st)) chosen = Inr (Inr ms)"
      using Inr by (auto simp: include_generated_part_groups_def Let_def split: if_splits)
    then show ?thesis
    proof cases
      case 1
      then show ?thesis using Inr inner refl by (simp add: list_all_iff)
    next
      case 2
      have v: "(k, m) \<in> set c \<Longrightarrow> m \<in> set rows \<and> succeeded m
          \<and> \<not> is_currently_undone (Some (version_str m)) rows None" for k m
        by (rule current_rows_values [OF 2(1), where P = "\<lambda>m. succeeded m
            \<and> \<not> is_currently_undone (Some (version_str m)) rows None"]) auto
      show ?thesis
        using include_groups_spec [OF 2(2) refl] v Inr inner by (fastforce simp: list_all_iff)
    qed
  qed (simp add: Inr)
qed simp

end
