(* ===== verification/UndoCommand.thy ===== *)
theory UndoCommand
  imports MigrateCommand UndoPlan
begin

text \<open>
  The undo command (\<open>commands/undo_command.py\<close>): the body of \<open>execute\<close> with its lock, its error
  callback and its loop. Texts made from a refused or failed plan are arguments; logs are left out.
\<close>

record undo_options =
  uo_dry_run :: bool
  uo_target :: "string option"
  uo_selection :: selection
  uo_show_sql :: bool

record undo_texts =
  ut_refusal :: "undo_refusal \<Rightarrow> string"
  ut_error :: "undo_error \<Rightarrow> string"

subsection \<open>One script\<close>

definition undo_event_data :: "undo_step \<Rightarrow> event_data" where
  "undo_event_data s =
     \<lparr>ed_script = script_name (us_script s), ed_version = version (us_migration s),
      ed_description = ''Undo: '' @ description (us_migration s), ed_type = ''UNDO_SQL''\<rparr>"

definition record_undone :: "undo_step \<Rightarrow> int \<Rightarrow> migration_info" where
  "record_undone s time =
     \<lparr>mi_script = script_name (us_script s), mi_version = version (us_migration s),
      mi_description = ''Undo: '' @ description (us_migration s), mi_type = ''UNDO_SQL'',
      mi_status = ''UNDONE'', mi_time = time, mi_checksum = checksum (us_migration s)\<rparr>"

fun undo_loop :: "world \<Rightarrow> bool \<Rightarrow> undo_step list \<Rightarrow> run_state \<Rightarrow> exn option \<times> run_state" where
  "undo_loop w show_sql [] st = (None, st)"
| "undo_loop w show_sql (s # ss) st =
     (if wd_lock_lost w (rs_effects st) then (None, set_error (lock_lost_message (script_name (us_script s))) st)
      else
        (case (if show_sql then collect_visible_sql w True [us_script s] st else (None, st)) of
           (Some e, st1) \<Rightarrow> (Some e, st1)
         | (None, st1) \<Rightarrow>
             if show_sql \<and> truthy (rs_error st1) then (None, st1)
             else
               (case run_script w UNDO_POLICY (us_script s) (undo_event_data s) (record_undone s) st1 of
                  (Inl e, st2) \<Rightarrow> (Some e, st2)
                | (Inr False, st2) \<Rightarrow> (None, st2)
                | (Inr True, st2) \<Rightarrow> undo_loop w show_sql ss st2)))"

subsection \<open>Checks before anything runs\<close>

text \<open>Every SQL script of the plan must have executable SQL. The value is whether the body goes on.\<close>

fun check_statements :: "world \<Rightarrow> undo_step list \<Rightarrow> run_state \<Rightarrow> (exn + bool) \<times> run_state" where
  "check_statements w [] st = (Inr True, st)"
| "check_statements w (s # ss) st =
     (if format (us_script s) \<noteq> FSQL then check_statements w ss st
      else
        (case prepare_sql w (us_script s) st of
           (Inl e, st1) \<Rightarrow> (Inl e, st1)
         | (Inr statements, st1) \<Rightarrow>
             if truthy (rs_error st1) then (Inr False, st1)
             else if statements = []
             then refuse (''Undo script '' @ script_name (us_script s) @ '' has no executable SQL'') st1
             else check_statements w ss st1))"

fun undo_dry_run :: "world \<Rightarrow> bool \<Rightarrow> undo_step list \<Rightarrow> run_state \<Rightarrow> exn option \<times> run_state" where
  "undo_dry_run w show_sql [] st = (None, st)"
| "undo_dry_run w show_sql (s # ss) st =
     (if show_sql \<and> format (us_script s) = FPYTHON
      then (let st1 = st\<lparr>rs_sql := rs_sql st @ [(script_name (us_script s), [])]\<rparr>
            in if truthy (rs_error st1) then (None, st1) else undo_dry_run w show_sql ss st1)
      else
        (case collect_visible_sql w show_sql [us_script s] st of
           (Some e, st1) \<Rightarrow> (Some e, st1)
         | (None, st1) \<Rightarrow> if truthy (rs_error st1) then (None, st1) else undo_dry_run w show_sql ss st1))"

subsection \<open>The body\<close>

definition read_undo_plan :: "world \<Rightarrow> undo_texts \<Rightarrow> undo_options \<Rightarrow> run_state \<Rightarrow> (exn + undo_plan) \<times> run_state" where
  "read_undo_plan w tx uo st =
     (let st1 = emit ReadHistory st
      in case wd_history w (rs_effects st1) of
           Inl e \<Rightarrow> (Inl e, st1)
         | Inr rows \<Rightarrow>
             (case plan_undo (wd_files w) (Some (wd_source w)) (uo_target uo) (uo_selection uo) rows (rs_warn st1) of
                Inl e \<Rightarrow> (Inl (OtherError (ut_error tx e)), st1)
              | Inr (plan, warn) \<Rightarrow> (Inr plan, st1\<lparr>rs_warn := warn\<rparr>)))"

definition rebuild_state :: "world \<Rightarrow> step" where
  "rebuild_state w st =
     (let st1 = emit ReadHistory st
      in case wd_history w (rs_effects st1) of
           Inl e \<Rightarrow> (Some e, st1)
         | Inr rows \<Rightarrow>
             (case build_state (wd_files w) (Some (wd_source w)) None rows (rs_warn st1) of
                Inl e \<Rightarrow> (Some (OtherError (wd_state_text w e)), st1)
              | Inr (state, warn) \<Rightarrow>
                  (None, st1\<lparr>rs_schema_version := ms_current_version state, rs_warn := warn\<rparr>)))"

definition after_undo :: "world \<Rightarrow> step" where
  "after_undo w st = (if truthy (rs_error st) then (None, st) else fire w ''afterUndo'' st)"

text \<open>The scripts are run between the callbacks of the command; a failing \<open>beforeUndo\<close> ends it.\<close>

definition run_undo_steps :: "world \<Rightarrow> bool \<Rightarrow> undo_step list \<Rightarrow> step" where
  "run_undo_steps w show_sql steps st =
     (case fire w ''beforeUndo'' st of
        (Some (SqlPreflightError r), st1) \<Rightarrow> (Some (SqlPreflightError r), st1)
      | (Some e, st1) \<Rightarrow>
          fire w ''afterUndoError'' (set_error (''beforeUndo callback failed: '' @ reason_of e) st1)
      | (None, st1) \<Rightarrow> in_order [undo_loop w show_sql steps, after_undo w, rebuild_state w] st1)"

definition undo_events :: "string list" where
  "undo_events = [''beforeUndo'', ''afterUndo'', ''afterUndoError'', ''beforeEach'', ''afterEach'']"

definition undo_real_run :: "world \<Rightarrow> undo_options \<Rightarrow> undo_step list \<Rightarrow> step list" where
  "undo_real_run w uo steps =
     (if check_execution_sql w then [preflight_with_callbacks w undo_events (map us_script steps)] else [])
     @ [run_undo_steps w (uo_show_sql uo) steps]"

definition carry_out_undo :: "world \<Rightarrow> undo_options \<Rightarrow> undo_step list \<Rightarrow> step" where
  "carry_out_undo w uo steps st =
     (case check_statements w steps st of
        (Inl e, st1) \<Rightarrow> (Some e, st1)
      | (Inr False, st1) \<Rightarrow> (None, st1)
      | (Inr True, st1) \<Rightarrow>
          if uo_dry_run uo then undo_dry_run w (uo_show_sql uo) steps st1
          else in_order (undo_real_run w uo steps) st1)"

definition undo_planned :: "world \<Rightarrow> undo_texts \<Rightarrow> undo_options \<Rightarrow> undo_plan \<Rightarrow> step" where
  "undo_planned w tx uo plan st =
     (let st1 = (if truthy (up_current_version plan)
                 then st\<lparr>rs_schema_version := up_current_version plan\<rparr> else st)
      in case up_refusal plan of
           Some r \<Rightarrow>
             if up_missing_script plan = None \<or> up_selected plan \<noteq> []
             then (None, set_error (ut_refusal tx r) st1) else (None, st1)
         | None \<Rightarrow>
             if up_selected plan = [] then (None, st1) else carry_out_undo w uo (up_steps plan) st1)"

text \<open>The block that holds the lock, up to the binding of the callbacks and from there on.\<close>

definition bound_undo :: "world \<Rightarrow> undo_texts \<Rightarrow> undo_options \<Rightarrow> step" where
  "bound_undo w tx uo st =
     (case read_undo_plan w tx uo st of
        (Inl e, st1) \<Rightarrow> (Some e, st1)
      | (Inr plan, st1) \<Rightarrow> undo_planned w tx uo plan st1)"

text \<open>\<open>_fire_error_callback_while_locked\<close>, which runs before the lock is released; before the callbacks
  are bound it does nothing, and its own failure is only logged.\<close>

definition error_callback :: "world \<Rightarrow> exn option \<times> run_state \<Rightarrow> exn option \<times> run_state" where
  "error_callback w r =
     (case r of
        (Some (OtherError m), st) \<Rightarrow> (Some (OtherError m), snd (fire w ''afterUndoError'' st))
      | _ \<Rightarrow> r)"

definition undo_inside :: "world \<Rightarrow> undo_texts \<Rightarrow> undo_options \<Rightarrow> step" where
  "undo_inside w tx uo st =
     (case wd_setup w of
        Some e \<Rightarrow> (Some e, st)
      | None \<Rightarrow> error_callback w (bound_undo w tx uo st))"

definition undo_body :: "world \<Rightarrow> undo_texts \<Rightarrow> undo_options \<Rightarrow> step" where
  "undo_body w tx uo st =
     (if uo_dry_run uo then undo_inside w tx uo st
      else if \<not> wd_has_history w (rs_effects st) then (None, st)
      else (case wd_acquire w (rs_effects st) of
              Inl e \<Rightarrow> (Some e, st)
            | Inr False \<Rightarrow> (None, set_error MIGRATION_LOCK_REFUSAL st)
            | Inr True \<Rightarrow>
                (case undo_inside w tx uo (emit AcquiredLock st) of
                   (r, st1) \<Rightarrow> (r, emit ReleasedLock st1))))"

definition undo_execute :: "world \<Rightarrow> undo_texts \<Rightarrow> undo_options \<Rightarrow> step" where
  "undo_execute w tx uo =
     command_lifecycle ''Undo operation failed'' (check_database w False) (undo_body w tx uo)"

subsection \<open>What undo may do, and when\<close>

lemma undo_loop_allowed: "grows (allowed False) st (snd (undo_loop w b ss st))"
proof (induction ss arbitrary: st b)
  case (Cons s ss)
  have "grows (allowed False) st (snd (if b then collect_visible_sql w True [us_script s] st else (None, st)))"
    using grows_read_only [OF collect_visible_sql_reads] by (simp del: collect_visible_sql.simps)
  note x = grows_case [OF this]
  show ?case
  proof (cases "wd_lock_lost w (rs_effects st)")
    case False
    then show ?thesis
      unfolding undo_loop.simps if_not_P [OF False]
      by (intro x) (auto split: sum.split bool.split option.split
          intro!: grows_case [OF grows_trans [OF _ run_script_allowed]] grows_trans [OF _ Cons.IH])
  qed simp
qed simp

lemma prepare_sql_reads: "grows read_only st (snd (prepare_sql w m st))"
  by (auto simp: prepare_sql_def Let_def grows_emit split: prod.split option.split)

lemma check_statements_reads: "grows read_only st (snd (check_statements w ss st))"
proof (induction ss arbitrary: st)
  case (Cons s ss)
  show ?case
    unfolding check_statements.simps
    by (auto split: sum.split intro: Cons.IH
        intro!: grows_case [OF prepare_sql_reads] grows_trans [OF _ Cons.IH])
qed simp

lemma undo_dry_run_reads: "grows read_only st (snd (undo_dry_run w b ss st))"
proof (induction ss arbitrary: st b)
  case (Cons s ss)
  show ?case
    unfolding undo_dry_run.simps Let_def
    by (auto split: option.split simp del: collect_visible_sql.simps
        intro!: grows_case [OF collect_visible_sql_reads] grows_trans [OF _ Cons.IH])
qed simp

lemma read_undo_plan_reads: "grows read_only st (snd (read_undo_plan w tx uo st))"
  by (auto simp: read_undo_plan_def Let_def grows_emit split: sum.split)

lemma rebuild_state_reads: "grows read_only st (snd (rebuild_state w st))"
  by (auto simp: rebuild_state_def Let_def grows_emit split: sum.split)

lemma run_undo_steps_allowed: "grows (allowed False) st (snd (run_undo_steps w b ss st))"
proof -
  have l: "grows (allowed False) s (snd (in_order [undo_loop w b ss, after_undo w, rebuild_state w] s))" for s
  proof (rule grows_in_order)
    fix a s assume "a \<in> set [undo_loop w b ss, after_undo w, rebuild_state w]"
    then show "grows (allowed False) s (snd (a s))"
      using undo_loop_allowed fire_allowed grows_read_only [OF rebuild_state_reads]
      by (auto simp: after_undo_def)
  qed
  show ?thesis
    unfolding run_undo_steps_def
    by (rule grows_case [OF fire_allowed])
      (auto split: option.split exn.split intro: grows_trans [OF _ l] grows_trans [OF _ fire_allowed]
        simp del: in_order.simps)
qed

text \<open>A dry run reads until its error callback; a real run does what running scripts allows.\<close>

definition undo_effect :: "undo_options \<Rightarrow> effect \<Rightarrow> bool" where
  "undo_effect uo e = (if uo_dry_run uo then read_only e else allowed False e)"

lemma undo_effect_reads: "grows read_only st s \<Longrightarrow> grows (undo_effect uo) st s"
  by (erule grows_mono) (simp add: undo_effect_def read_only_allowed)

lemma bound_undo_effects: "grows (undo_effect uo) st (snd (bound_undo w tx uo st))"
proof -
  have c: "grows (undo_effect uo) s (snd (carry_out_undo w uo ss s))" for ss s
  proof (cases "uo_dry_run uo")
    case True
    then have "grows read_only s (snd (carry_out_undo w uo ss s))"
      unfolding carry_out_undo_def if_P [OF True]
      by (intro grows_case [OF check_statements_reads])
        (auto split: sum.split bool.split intro: grows_trans [OF _ undo_dry_run_reads])
    then show ?thesis by (rule undo_effect_reads)
  next
    case False
    have o: "grows (allowed False) s (snd (in_order (undo_real_run w uo ss) s))" for s
      unfolding undo_real_run_def by (rule grows_in_order)
        (auto intro: run_undo_steps_allowed grows_read_only [OF preflight_with_callbacks_reads] split: if_splits)
    have "grows (allowed False) s (snd (carry_out_undo w uo ss s))"
      unfolding carry_out_undo_def if_not_P [OF False]
      by (intro grows_case [OF grows_read_only [OF check_statements_reads]])
        (auto split: sum.split bool.split intro: grows_trans [OF _ o] simp del: in_order.simps)
    then show ?thesis by (rule grows_mono) (simp add: undo_effect_def False)
  qed
  have p: "grows (undo_effect uo) s (snd (undo_planned w tx uo plan s))" for plan s
    using c [of "if truthy (up_current_version plan) then s\<lparr>rs_schema_version := up_current_version plan\<rparr> else s" "up_steps plan"]
    by (auto simp: undo_planned_def Let_def split: option.split if_splits)
  show ?thesis
    unfolding bound_undo_def
    by (rule grows_case [OF undo_effect_reads [OF read_undo_plan_reads]])
      (auto split: sum.split intro: grows_trans [OF _ p])
qed

lemma undo_inside_effects:
  obtains a b where "rs_effects (snd (undo_inside w tx uo st)) = rs_effects st @ a @ b"
    "list_all (undo_effect uo) a" "list_all (fires [''afterUndoError'']) b"
    "b = [] \<or> (\<exists>m. fst (undo_inside w tx uo st) = Some (OtherError m))"
proof (cases "wd_setup w")
  case None
  obtain r s where rs: "bound_undo w tx uo st = (r, s)" by (cases "bound_undo w tx uo st")
  with bound_undo_effects [of uo st w tx] obtain a where a: "rs_effects s = rs_effects st @ a" "list_all (undo_effect uo) a"
    by (auto simp: grows_def)
  show thesis
  proof (cases "\<exists>m. r = Some (OtherError m)")
    case True
    then obtain m where m: "r = Some (OtherError m)" ..
    from fire_grows [of "''afterUndoError''" s w] obtain b where
      "rs_effects (snd (fire w ''afterUndoError'' s)) = rs_effects s @ b" "list_all (fires [''afterUndoError'']) b"
      by (auto simp: grows_def)
    then show thesis using None rs a m by (intro that [of a b]) (simp_all add: undo_inside_def error_callback_def)
  next
    case False
    then have "error_callback w (r, s) = (r, s)" by (auto simp: error_callback_def split: option.split exn.split)
    then show thesis using None rs a by (intro that [of a "[]"]) (simp_all add: undo_inside_def)
  qed
next
  case (Some e)
  then show thesis by (intro that [of "[]" "[]"]) (simp_all add: undo_inside_def)
qed

text \<open>C27. On every path a real undo only reads before it takes the migration lock and does nothing after
  it releases it; in between it runs scripts and callbacks. A dry run takes no lock and only reads,
  with one exception: when its body fails with an error, the callbacks of afterUndoError are fired,
  without the lock.\<close>

theorem undo_lock_discipline:
  "\<exists>a b. rs_effects (snd (undo_execute w tx uo st)) = rs_effects st @ a @ b \<and> list_all read_only a
     \<and> (if uo_dry_run uo then list_all (fires [''afterUndoError'']) b
        else b = [] \<or> (\<exists>xs. b = AcquiredLock # xs @ [ReleasedLock] \<and> list_all (allowed False) xs))"
proof -
  obtain r s where pre: "check_database w False st = (r, s)" by (cases "check_database w False st")
  with check_database_reads [of st w False] obtain a0 where a0: "rs_effects s = rs_effects st @ a0" "list_all read_only a0"
    by (auto simp: grows_def)
  have life: "rs_effects (snd (undo_execute w tx uo st)) = (if r = None then rs_effects (snd (undo_body w tx uo s)) else rs_effects s)"
    using pre by (auto simp: undo_execute_def command_lifecycle_def set_error_def split: prod.split option.split exn.split)
  show ?thesis
  proof (cases "r = None")
    case False
    then show ?thesis using life a0 by - (rule exI [of _ a0], rule exI [of _ "[]"], auto)
  next
    case None: True
    show ?thesis
    proof (cases "uo_dry_run uo")
      case True
      obtain a b where ab: "rs_effects (snd (undo_inside w tx uo s)) = rs_effects s @ a @ b"
        "list_all (undo_effect uo) a" "list_all (fires [''afterUndoError'']) b"
        by (rule undo_inside_effects)
      have "list_all read_only a" using ab(2) True by (simp add: undo_effect_def [abs_def])
      then show ?thesis
        using life a0 ab None True by - (rule exI [of _ "a0 @ a"], rule exI [of _ b], simp add: undo_body_def)
    next
      case False
      let ?s = "emit AcquiredLock s"
      obtain a b where ab: "rs_effects (snd (undo_inside w tx uo ?s)) = rs_effects ?s @ a @ b"
        "list_all (undo_effect uo) a" "list_all (fires [''afterUndoError'']) b"
        by (rule undo_inside_effects)
      have x: "list_all (allowed False) (a @ b)"
        using ab(2,3) False fires_allowed by (auto simp: undo_effect_def [abs_def] list_all_iff)
      have locked: "rs_effects (snd (case undo_inside w tx uo ?s of (r, st1) \<Rightarrow> (r, emit ReleasedLock st1)))
          = rs_effects st @ a0 @ AcquiredLock # (a @ b) @ [ReleasedLock]"
        using ab(1) a0(1) by (cases "undo_inside w tx uo ?s") (simp add: emit_def)
      have "rs_effects (snd (undo_body w tx uo s)) = rs_effects st @ a0
          \<or> rs_effects (snd (undo_body w tx uo s)) = rs_effects st @ a0 @ AcquiredLock # (a @ b) @ [ReleasedLock]"
        using False a0(1) locked by (auto simp: undo_body_def set_error_def split: sum.split bool.split)
      then show ?thesis
      proof
        assume "rs_effects (snd (undo_body w tx uo s)) = rs_effects st @ a0"
        then show ?thesis using life a0 None False by - (rule exI [of _ a0], rule exI [of _ "[]"], simp)
      next
        assume "rs_effects (snd (undo_body w tx uo s)) = rs_effects st @ a0 @ AcquiredLock # (a @ b) @ [ReleasedLock]"
        then show ?thesis
          using life a0 None False x by - (rule exI [of _ a0], rule exI [of _ "AcquiredLock # (a @ b) @ [ReleasedLock]"], auto)
      qed
    qed
  qed
qed

end
