(* ===== verification/Provider.thy ===== *)
theory Provider
  imports Migrations "HOL-Library.Sublist"
begin

text \<open>
  What the execution engine asks of a database (\<open>db/provider_interfaces.py\<close>, the abstract classes
  \<open>TransactionalProvider\<close> and \<open>QueryProvider\<close>, and the recording of history rows): a record with one
  operation per method, over the state of a connection. The locale \<open>transactional_provider\<close> is the
  contract the engine relies on, stated over what the database has saved and what the open transaction
  holds.
\<close>

subsection \<open>The operations\<close>

text \<open>The exceptions the engine tells apart; every other one is a \<open>Failure\<close>.\<close>

datatype exc =
    AbortedTransaction string
  | ConnectionFailure string
  | StatementVerdict string nat
  | ValueError string
  | Failure string

fun exc_text :: "exc \<Rightarrow> string" where
  "exc_text (AbortedTransaction t) = t"
| "exc_text (ConnectionFailure t) = t"
| "exc_text (StatementVerdict t n) = t"
| "exc_text (ValueError t) = t"
| "exc_text (Failure t) = t"

text \<open>A row written to the history table; its rank and its date are the database's.\<close>

record history_row =
  hr_script :: string
  hr_version :: "string option"
  hr_description :: string
  hr_type :: string
  hr_checksum :: "int option"
  hr_success :: bool
  hr_time :: int
  hr_installed_by :: string

type_synonym 'c op = "'c \<Rightarrow> exc option \<times> 'c"

text \<open>\<open>pv_open\<close> says whether the provider holds a transaction of its own (\<open>_tx is not None\<close>).\<close>

record 'c provider =
  pv_transactional :: bool
  pv_transactional_ddl :: bool
  pv_caller_owned :: bool
  pv_connected :: "'c \<Rightarrow> bool"
  pv_autocommitting :: "'c \<Rightarrow> exc + bool"
  pv_open :: "'c \<Rightarrow> bool"
  pv_check :: "'c op"
  pv_begin :: "'c op"
  pv_commit :: "'c op"
  pv_rollback :: "'c op"
  pv_execute :: "string option \<Rightarrow> string \<Rightarrow> 'c \<Rightarrow> (exc + int) \<times> 'c"
  pv_query :: "string \<Rightarrow> 'c \<Rightarrow> (exc + int) \<times> 'c"
  pv_execute_autocommit :: "string option \<Rightarrow> string \<Rightarrow> 'c \<Rightarrow> (exc + int) \<times> 'c"
  pv_record :: "history_row \<Rightarrow> 'c op"
  pv_set_schema :: "string \<Rightarrow> 'c op"
  pv_reset_cache :: "'c \<Rightarrow> 'c"
  pv_note_caller_work :: "'c \<Rightarrow> 'c"
  pv_commit_caller_work :: "'c op"
  pv_finish :: "string list \<Rightarrow> 'c op"

subsection \<open>The contract\<close>

text \<open>What a connection writes: statements and history rows, in order.\<close>

datatype dbwrite = Stmt string | Row string bool

text \<open>Setting the schema and probing are not writes. \<open>saved\<close> is what the database keeps whatever
  happens next, \<open>pending\<close> what the transaction in progress would add when it is committed. An operation
  may end a transaction in progress by committing or by dropping all of it, never a part.\<close>

definition ends_or_keeps :: "('c \<Rightarrow> dbwrite list) \<Rightarrow> ('c \<Rightarrow> dbwrite list) \<Rightarrow> 'c \<Rightarrow> 'c \<Rightarrow> bool" where
  "ends_or_keeps saved pending c c' \<longleftrightarrow>
     saved c' = saved c \<and> (pending c' = pending c \<or> pending c' = [])
     \<or> saved c' = saved c @ pending c \<and> pending c' = []"

definition unchanged :: "('c \<Rightarrow> dbwrite list) \<Rightarrow> ('c \<Rightarrow> dbwrite list) \<Rightarrow> 'c \<Rightarrow> 'c \<Rightarrow> bool" where
  "unchanged saved pending c c' \<longleftrightarrow> saved c' = saved c \<and> pending c' = pending c"

lemma ends_or_keeps_refl [intro, simp]: "ends_or_keeps s p c c"
  by (simp add: ends_or_keeps_def)

lemma ends_or_keeps_trans [trans]:
  "ends_or_keeps s p a b \<Longrightarrow> ends_or_keeps s p b c \<Longrightarrow> ends_or_keeps s p a c"
  by (auto simp: ends_or_keeps_def)

lemma unchanged_ends_or_keeps: "unchanged s p a b \<Longrightarrow> ends_or_keeps s p a b"
  by (simp add: ends_or_keeps_def unchanged_def)

lemma unchanged_refl [intro, simp]: "unchanged s p a a"
  by (simp add: unchanged_def)

lemma unchanged_trans [trans]: "unchanged s p a b \<Longrightarrow> unchanged s p b c \<Longrightarrow> unchanged s p a c"
  by (simp add: unchanged_def)

locale transactional_provider =
  fixes p :: "'c provider"
    and saved :: "'c \<Rightarrow> dbwrite list"
    and pending :: "'c \<Rightarrow> dbwrite list"
  assumes transactional: "pv_transactional p"
    and begin_ok: "pv_begin p c = (None, c') \<Longrightarrow> pv_open p c' \<and> unchanged saved pending c c' \<and> pending c' = []"
    and begin_fails: "pv_begin p c = (Some e, c') \<Longrightarrow> unchanged saved pending c c'"
    and commit_ok: "pv_open p c \<Longrightarrow> pv_commit p c = (None, c')
      \<Longrightarrow> saved c' = saved c @ pending c \<and> pending c' = []"
    and commit_fails: "pv_commit p c = (Some e, c') \<Longrightarrow> ends_or_keeps saved pending c c'"
    and rollback_ok: "pv_rollback p c = (None, c') \<Longrightarrow> saved c' = saved c \<and> pending c' = []"
    and rollback_fails: "pv_rollback p c = (Some e, c')
      \<Longrightarrow> saved c' = saved c \<and> (pending c' = pending c \<or> pending c' = [])"
    and execute_ok: "pv_open p c \<Longrightarrow> pv_execute p sch s c = (Inr n, c')
      \<Longrightarrow> pv_open p c' \<and> saved c' = saved c \<and> pending c' = pending c @ [Stmt s]"
    and execute_fails: "pv_open p c \<Longrightarrow> pv_execute p sch s c = (Inl e, c')
      \<Longrightarrow> pv_open p c' \<and> unchanged saved pending c c'"
    and query_ok: "pv_open p c \<Longrightarrow> pv_query p s c = (Inr n, c')
      \<Longrightarrow> pv_open p c' \<and> saved c' = saved c \<and> pending c' = pending c @ [Stmt s]"
    and query_fails: "pv_open p c \<Longrightarrow> pv_query p s c = (Inl e, c')
      \<Longrightarrow> pv_open p c' \<and> unchanged saved pending c c'"
    and record_ok: "pv_open p c \<Longrightarrow> pv_record p row c = (None, c')
      \<Longrightarrow> pv_open p c' \<and> saved c' = saved c \<and> pending c' = pending c @ [Row (hr_script row) (hr_success row)]"
    and record_fails: "pv_open p c \<Longrightarrow> pv_record p row c = (Some e, c')
      \<Longrightarrow> pv_open p c' \<and> unchanged saved pending c c'"
    and autocommit_ok: "pv_execute_autocommit p sch s c = (Inr n, c')
      \<Longrightarrow> saved c' = saved c @ [Stmt s] \<and> pending c' = []"
    and autocommit_fails: "pv_execute_autocommit p sch s c = (Inl e, c')
      \<Longrightarrow> saved c' = saved c \<and> (pending c' = pending c \<or> pending c' = [])
        \<or> saved c' = saved c @ [Stmt s] \<and> pending c' = []"
    and check_open: "pv_open p c \<Longrightarrow> pv_check p c = (r, c') \<Longrightarrow> pv_open p c' \<and> unchanged saved pending c c'"
    and check_any: "pv_check p c = (r, c') \<Longrightarrow> ends_or_keeps saved pending c c'"
    and set_schema_open: "pv_open p c \<Longrightarrow> pv_set_schema p s c = (r, c')
      \<Longrightarrow> pv_open p c' \<and> unchanged saved pending c c'"
    and set_schema_any: "pv_set_schema p s c = (r, c') \<Longrightarrow> ends_or_keeps saved pending c c'"
    and commit_caller_work_any: "pv_commit_caller_work p c = (r, c') \<Longrightarrow> ends_or_keeps saved pending c c'"
    and reset_cache_any: "unchanged saved pending c (pv_reset_cache p c) \<and> pv_open p (pv_reset_cache p c) = pv_open p c"
    and finish_any: "pv_finish p ss c = (r, c') \<Longrightarrow> unchanged saved pending c c' \<and> pv_open p c' = pv_open p c"
begin

lemma rollback_any: "pv_rollback p c = (r, c') \<Longrightarrow> saved c' = saved c \<and> (pending c' = pending c \<or> pending c' = [])"
  by (cases r) (auto dest: rollback_ok rollback_fails)

lemma rollback_ends: "ends_or_keeps saved pending c (snd (pv_rollback p c))"
  using rollback_any [of c "fst (pv_rollback p c)" "snd (pv_rollback p c)"] by (auto simp: ends_or_keeps_def)

end

end
