(* ===== verification/PythonExecutor.thy ===== *)
theory PythonExecutor
  imports Provider
begin

text \<open>
  Python migrations: the factory that routes a migration to its executor
  (\<open>migration/executors/executor_factory.py\<close>), the executor that loads and calls \<open>migrate(context)\<close>, and
  the \<open>execute\<close> of the context (\<open>migration/executors/python_executor.py\<close>). The user's function is a tree
  of the calls it makes: what it does next depends on what the last call returned or raised.
\<close>

subsection \<open>The context\<close>

lemma length_skip_step:
  assumes "starts_with (lstrip_by P s) (a # b)" "0 < k"
  shows "length (drop k (lstrip_by P s)) < length s"
proof -
  obtain t where "lstrip_by P s = a # t" using assms(1) by (auto simp: starts_with_iff)
  then show ?thesis using assms(2) length_dropWhile_le [of P s] by (simp add: lstrip_by_def)
qed

text \<open>The comments in front of the first keyword; \<open>None\<close> when one of them does not end.\<close>

function skip_comments :: "string \<Rightarrow> string option" where
  "skip_comments s =
     (let t = lstrip_by is_space s
      in if starts_with t ''--''
         then (case find_sub [CHR 0x0A] t of None \<Rightarrow> None | Some n \<Rightarrow> skip_comments (drop (Suc n) t))
         else if starts_with t ''/*''
         then (case find_sub ''*/'' t of None \<Rightarrow> None | Some n \<Rightarrow> skip_comments (drop (n + 2) t))
         else Some t)"
  by pat_completeness auto

termination
  by (relation "measure length") (use length_skip_step in \<open>auto simp del: length_drop\<close>)

declare skip_comments.simps [simp del]

definition QUERY_PREFIXES :: "string list" where
  "QUERY_PREFIXES = [''SELECT'', ''WITH'', ''VALUES'', ''SHOW'', ''EXPLAIN'', ''TABLE'']"

definition is_query_statement :: "(string \<Rightarrow> bool) \<Rightarrow> string \<Rightarrow> bool" where
  "is_query_statement select_into sql =
     (case skip_comments sql of
        None \<Rightarrow> False
      | Some t \<Rightarrow>
          let body = lstrip_by is_space (lstrip_by (\<lambda>c. c = CHR ''('') t); head = str_upper (take 8 body)
          in list_ex (\<lambda>p. starts_with head p) QUERY_PREFIXES \<and> \<not> select_into body)"

text \<open>What the function does: it returns, raises, or executes SQL and goes on with the answer, an
  exception of the call included.\<close>

datatype script =
    ScriptReturns
  | ScriptRaises string string
  | ScriptExecutes string "exc + int \<Rightarrow> script"

definition context_execute :: "'c provider \<Rightarrow> (string \<Rightarrow> bool) \<Rightarrow> string \<Rightarrow> 'c \<Rightarrow> (exc + int) \<times> 'c" where
  "context_execute p select_into sql =
     (if is_query_statement select_into sql then pv_query p sql else pv_execute p None sql)"

primrec run_script_calls :: "'c provider \<Rightarrow> (string \<Rightarrow> bool) \<Rightarrow> script \<Rightarrow> 'c \<Rightarrow> (string \<times> string) option \<times> 'c" where
  "run_script_calls p si ScriptReturns = (\<lambda>c. (None, c))"
| "run_script_calls p si (ScriptRaises kind msg) = (\<lambda>c. (Some (kind, msg), c))"
| "run_script_calls p si (ScriptExecutes sql k) =
     (\<lambda>c. case context_execute p si sql c of (r, c') \<Rightarrow> run_script_calls p si (k r) c')"

subsection \<open>The executor\<close>

record script_result =
  sr_success :: bool
  sr_time :: int
  sr_error :: "string option"

text \<open>What Python makes of a script: whether it compiles, and the outcome of loading it and looking up
  \<open>migrate\<close>.\<close>

record python_env =
  py_syntax :: "string \<Rightarrow> string option"
  py_load :: "migration \<Rightarrow> (string \<times> string) + script"
  py_select_into :: "string \<Rightarrow> bool"

definition validate_migration :: "python_env \<Rightarrow> migration \<Rightarrow> string list" where
  "validate_migration py m =
     (if strip (content m) = [] then [''Python script is empty or not loaded: '' @ script_name m]
      else (if contains (content m) ''def migrate('' then [] else [''Missing 'migrate' function in script '' @ script_name m])
        @ (case py_syntax py (content m) of
             None \<Rightarrow> [] | Some e \<Rightarrow> [''Python syntax error in '' @ script_name m @ '': '' @ e]))"

definition run_python_migration ::
  "python_env \<Rightarrow> 'c provider \<Rightarrow> ('c \<Rightarrow> int) \<Rightarrow> migration \<Rightarrow> 'c \<Rightarrow> script_result \<times> 'c" where
  "run_python_migration py p elapsed m c =
     (let failed = (\<lambda>e c'. (\<lparr>sr_success = False, sr_time = elapsed c', sr_error = Some e\<rparr>, c'))
      in if path m = None
         then failed (''Python script has no file path: '' @ script_name m
                @ ''. Use Migration(script_path=Path('...')) for Python scripts.'') c
         else (case py_load py m of
                 Inl (kind, msg) \<Rightarrow> failed (kind @ '': '' @ msg) c
               | Inr script \<Rightarrow>
                   (case run_script_calls p (py_select_into py) script c of
                      (Some (kind, msg), c') \<Rightarrow> failed (kind @ '': '' @ msg) c'
                    | (None, c') \<Rightarrow> (\<lparr>sr_success = True, sr_time = elapsed c', sr_error = None\<rparr>, c'))))"

subsection \<open>The factory\<close>

definition format_value :: "migration_format \<Rightarrow> string" where
  "format_value f = (case f of
     FSQL \<Rightarrow> ''sql'' | FPYTHON \<Rightarrow> ''python'' | FJAVASCRIPT \<Rightarrow> ''javascript'' | FCYPHER \<Rightarrow> ''cypher''
   | FCQL \<Rightarrow> ''cql'' | FGREMLIN \<Rightarrow> ''gremlin'' | FJSON \<Rightarrow> ''json'' | FYAML \<Rightarrow> ''yaml'' | FUNKNOWN \<Rightarrow> ''unknown'')"

text \<open>\<open>check_format_supported\<close>: a dialect without SQL migrations refuses a SQL script.\<close>

definition check_format_supported :: "bool \<Rightarrow> string \<Rightarrow> migration_format \<Rightarrow> string \<Rightarrow> exc option" where
  "check_format_supported sql_supported dialect f name =
     (if f \<noteq> FSQL \<or> sql_supported then None
      else Some (Failure (''DBLIFT-NOSQL-001: '' @ CHR 0x27 # name @ CHR 0x27 # '' is a SQL migration, but the ''
        @ CHR 0x27 # (if dialect = [] then ''this dialect'' else dialect)
        @ CHR 0x27 # '' dialect does not execute SQL migrations. Rewrite it as a Python migration exposing ''
        @ CHR 0x27 # ''def migrate(context)'' @ CHR 0x27 # '' and drive the vendor SDK through ''
        @ CHR 0x27 # ''context.db'' @ CHR 0x27 # '' / '' @ CHR 0x27 # ''context.raw_client'' @ CHR 0x27
        # ''. See docs/user-guide/nosql-python-migrations.md.'')))"

text \<open>Only Python has an executor; for any other format there is none, which is a \<open>ValueError\<close>.\<close>

definition factory_execute ::
  "python_env \<Rightarrow> 'c provider \<Rightarrow> exc option \<Rightarrow> ('c \<Rightarrow> int) \<Rightarrow> migration \<Rightarrow> 'c \<Rightarrow> (exc + script_result) \<times> 'c" where
  "factory_execute py p unsupported elapsed m c =
     (case unsupported of
        Some e \<Rightarrow> (Inl e, c)
      | None \<Rightarrow>
          if format m \<noteq> FPYTHON
          then (Inl (ValueError (''No executor available for migration '' @ script_name m @ ''. Format: ''
                  @ format_value (format m))), c)
          else if validate_migration py m \<noteq> []
          then (Inr \<lparr>sr_success = False, sr_time = 0,
                  sr_error = Some (''Validation failed: '' @ join ''; '' (validate_migration py m))\<rparr>, c)
          else (case run_python_migration py p elapsed m c of (r, c') \<Rightarrow> (Inr r, c')))"

subsection \<open>A script stays inside the transaction\<close>

context transactional_provider
begin

lemma context_execute_open:
  assumes "pv_open p c" "context_execute p si sql c = (r, c')"
  shows "pv_open p c' \<and> saved c' = saved c \<and> prefix (pending c) (pending c')"
  using assms
  by (cases r)
    (auto simp: context_execute_def unchanged_def split: if_splits
      dest: execute_ok execute_fails query_ok query_fails)

lemma run_script_calls_open:
  assumes "pv_open p c" "run_script_calls p si script c = (r, c')"
  shows "pv_open p c' \<and> saved c' = saved c \<and> prefix (pending c) (pending c')"
  using assms
proof (induction script arbitrary: c)
  case (ScriptExecutes sql k)
  obtain r1 c1 where c1: "context_execute p si sql c = (r1, c1)" by (cases "context_execute p si sql c")
  with ScriptExecutes.prems have "run_script_calls p si (k r1) c1 = (r, c')" by simp
  with ScriptExecutes.IH [of "k r1" c1] context_execute_open [OF ScriptExecutes.prems(1) c1]
  show ?case by (auto intro: prefix_order.trans)
qed auto

lemma factory_execute_open:
  assumes "pv_open p c" "factory_execute py p u elapsed m c = (r, c')"
  shows "pv_open p c' \<and> saved c' = saved c \<and> prefix (pending c) (pending c')"
proof -
  have run: "pv_open p c' \<and> saved c' = saved c \<and> prefix (pending c) (pending c')"
    if r: "run_python_migration py p elapsed m c = (q, c')" for q
  proof (cases "path m = None")
    case False
    show ?thesis
    proof (cases "py_load py m")
      case (Inr script)
      obtain x d where x: "run_script_calls p (py_select_into py) script c = (x, d)" by fastforce
      then have "d = c'" using r False Inr by (auto simp: run_python_migration_def split: option.splits)
      then show ?thesis using run_script_calls_open [OF assms(1) x] by simp
    qed (use r False assms(1) in \<open>auto simp: run_python_migration_def\<close>)
  qed (use r assms(1) in \<open>auto simp: run_python_migration_def\<close>)
  show ?thesis
    using assms run by (auto simp: factory_execute_def split: option.splits if_splits prod.splits)
qed

end

end
