(* ===== verification/TransactionPolicy.thy ===== *)
theory TransactionPolicy
  imports PyString "HOL-Library.Sublist"
begin

text \<open>
  What a script's statements say about transactions before any of them runs: the records of a
  splitter (\<open>core/sql_parser/statement.py\<close>), the classification of a statement and the envelope of a
  script (\<open>migration/sql/execution_statement.py\<close>), and the decision between one transaction and
  autocommit (\<open>migration/executor/transaction_policy.py\<close>). A dialect's patterns and its scanner are
  fields of \<open>quirks\<close>.
\<close>

subsection \<open>The records of a splitter\<close>

datatype statement_kind = KSql | KDirective | KCopyStdin

record statement =
  sm_text :: string
  sm_line :: nat
  sm_terminator :: "string option"
  sm_kind :: statement_kind
  sm_multi :: bool
  sm_repeat :: nat
  sm_analysis :: "string list option"
  sm_start :: nat
  sm_end :: nat
  sm_execution :: "string option"

definition runs :: "statement \<Rightarrow> bool" where
  "runs r \<longleftrightarrow> sm_kind r = KSql \<or> sm_kind r = KCopyStdin"

definition executable_records :: "statement list \<Rightarrow> statement list" where
  "executable_records rs = filter (\<lambda>r. runs r \<and> sm_repeat r > 0) rs"

text \<open>The text sent for a record, if any.\<close>

definition sent_text :: "statement \<Rightarrow> string option" where
  "sent_text r =
     (if runs r then Some (case sm_execution r of None \<Rightarrow> sm_text r | Some t \<Rightarrow> t)
      else if sm_kind r = KDirective then sm_execution r else None)"

definition strings_of_record :: "statement \<Rightarrow> string list" where
  "strings_of_record r = (case sent_text r of None \<Rightarrow> [] | Some t \<Rightarrow> replicate (sm_repeat r) t)"

definition execution_strings :: "statement list \<Rightarrow> string list" where
  "execution_strings rs = concat (map strings_of_record rs)"

definition execution_units :: "statement list \<Rightarrow> string list" where
  "execution_units rs = map sm_text (executable_records rs)"

definition analysis_sql :: "statement list \<Rightarrow> string list" where
  "analysis_sql rs =
     concat (map (\<lambda>r. case sm_analysis r of None \<Rightarrow> [sm_text r] | Some ts \<Rightarrow> ts) (executable_records rs))"

subsection \<open>Comments and white space\<close>

definition is_blank :: "char \<Rightarrow> bool" where
  "is_blank c \<longleftrightarrow> c \<in> {CHR '' '', CHR 0x09, CHR 0x0A, CHR 0x0D}"

lemma length_strip_step: "starts_with (dropWhile P s) (c # d) \<Longrightarrow> length (drop k (drop 2 (dropWhile P s))) < length s"
proof -
  assume "starts_with (dropWhile P s) (c # d)"
  then obtain t where "dropWhile P s = c # t" by (auto simp: starts_with_iff)
  then show ?thesis using length_dropWhile_le [of P s] by simp
qed

function strip_leading_comments :: "string \<Rightarrow> string" where
  "strip_leading_comments s =
     (let t = dropWhile is_blank s
      in if starts_with t ''--''
         then (case find_sub [CHR 0x0A] (drop 2 t) of
                 None \<Rightarrow> [] | Some n \<Rightarrow> strip_leading_comments (drop (Suc n) (drop 2 t)))
         else if starts_with t ''/*''
         then (case find_sub ''*/'' (drop 2 t) of
                 None \<Rightarrow> [] | Some n \<Rightarrow> strip_leading_comments (drop (n + 2) (drop 2 t)))
         else t)"
  by pat_completeness auto

termination
  by (relation "measure length") (use length_strip_step in \<open>auto simp del: length_drop\<close>)

declare strip_leading_comments.simps [simp del]

text \<open>\<open>re.sub("[...]+", " ", s)\<close>.\<close>

fun collapse_by :: "(char \<Rightarrow> bool) \<Rightarrow> string \<Rightarrow> string" where
  "collapse_by P [] = []"
| "collapse_by P (c # s) =
     (if P c then (case s of d # _ \<Rightarrow> if P d then collapse_by P s else CHR '' '' # collapse_by P s | [] \<Rightarrow> '' '')
      else c # collapse_by P s)"

subsection \<open>Classification\<close>

record script_parser =
  sp_analysis :: "string \<Rightarrow> string + string list"
  sp_split :: "string \<Rightarrow> string + statement list"
  sp_blanks :: "char list"
  sp_non_ascii_names :: bool

record quirks =
  qk_non_transactional :: "((string \<Rightarrow> bool) \<times> string) list"
  qk_control :: "((string \<Rightarrow> bool) \<times> string) list"
  qk_blank_comments :: "string \<Rightarrow> string option"
  qk_parser :: "script_parser option"

record execution_statement =
  xs_sql :: string
  xs_in_transaction :: bool
  xs_reason :: "string option"

definition first_match :: "((string \<Rightarrow> bool) \<times> string) list \<Rightarrow> string \<Rightarrow> string option" where
  "first_match patterns text = map_option snd (List.find (\<lambda>(p, k). p text) patterns)"

definition without_comments :: "quirks \<Rightarrow> (char \<Rightarrow> bool) \<Rightarrow> string \<Rightarrow> string" where
  "without_comments q blank s =
     strip_by blank (strip_leading_comments (case qk_blank_comments q s of Some t \<Rightarrow> t | None \<Rightarrow> s))"

definition statements_of :: "quirks \<Rightarrow> string \<Rightarrow> string + string list" where
  "statements_of q sql = (case qk_parser q of None \<Rightarrow> Inr [sql] | Some sp \<Rightarrow> sp_analysis sp sql)"

text \<open>The text a pattern reads. With names beyond ASCII, the characters that Python would call white
  space or a word boundary and the dialect does not are masked first.\<close>

definition normalized_text :: "quirks \<Rightarrow> bool \<Rightarrow> string \<Rightarrow> string" where
  "normalized_text q is_policy s =
     (case qk_parser q of
        Some sp \<Rightarrow>
          if sp_non_ascii_names sp
          then (let blank = (\<lambda>c. c \<in> set (sp_blanks sp));
                    t = (if is_policy then strip_by blank s else without_comments q blank s);
                    masked = map (\<lambda>c. if code_point c \<ge> 128 \<or> is_space c \<and> \<not> blank c then CHR ''_'' else c) t
                in str_upper (collapse_by blank masked))
          else str_upper (collapse_by is_space (if is_policy then strip s else without_comments q is_space s))
      | None \<Rightarrow> str_upper (collapse_by is_space (if is_policy then strip s else without_comments q is_space s)))"

text \<open>The scanner may refuse the statement; that refusal propagates.\<close>

definition classify_execution_statement :: "quirks \<Rightarrow> string \<Rightarrow> string option \<Rightarrow> string + execution_statement" where
  "classify_execution_statement q sql policy =
     (let plain = \<lparr>xs_sql = sql, xs_in_transaction = True, xs_reason = None\<rparr>
      in if qk_non_transactional q = [] then Inr plain
         else rbind (case policy of Some t \<Rightarrow> Inr [t] | None \<Rightarrow> statements_of q sql) (\<lambda>parts.
           Inr (case List.find (\<lambda>r. r \<noteq> None)
                   (map (\<lambda>s. first_match (qk_non_transactional q) (normalized_text q (policy \<noteq> None) s)) parts) of
                  Some (Some reason) \<Rightarrow> \<lparr>xs_sql = sql, xs_in_transaction = False, xs_reason = Some reason\<rparr>
                | _ \<Rightarrow> plain)))"

fun classify_all :: "quirks \<Rightarrow> (string \<times> string option) list \<Rightarrow> string + execution_statement list" where
  "classify_all q [] = Inr []"
| "classify_all q ((s, t) # ss) =
     rbind (classify_execution_statement q s t) (\<lambda>x. rbind (classify_all q ss) (\<lambda>xs. Inr (x # xs)))"

subsection \<open>The decision\<close>

record decision =
  td_transactional :: bool
  td_autocommit_required :: bool
  td_unsupported_mixed :: bool
  td_reason :: string

definition decide :: "bool \<Rightarrow> execution_statement list \<Rightarrow> decision" where
  "decide supports ss =
     (if \<not> supports
      then \<lparr>td_transactional = False, td_autocommit_required = False, td_unsupported_mixed = False,
            td_reason = ''Provider does not support explicit transactions''\<rparr>
      else
        (case filter (\<lambda>s. \<not> xs_in_transaction s) ss of
           [] \<Rightarrow> \<lparr>td_transactional = True, td_autocommit_required = False, td_unsupported_mixed = False,
                  td_reason = []\<rparr>
         | a # as \<Rightarrow>
             if length ss > length (a # as)
             then \<lparr>td_transactional = False, td_autocommit_required = True, td_unsupported_mixed = True,
                   td_reason = (if truthy (xs_reason a) then the (xs_reason a)
                     else ''Migration mixes autocommit-only statements with transactional statements'')\<rparr>
             else \<lparr>td_transactional = False, td_autocommit_required = True, td_unsupported_mixed = False,
                   td_reason = (if truthy (xs_reason a) then the (xs_reason a)
                     else ''Migration requires autocommit execution'')\<rparr>))"

lemma no_autocommit_statement: "filter (\<lambda>s. \<not> xs_in_transaction s) ss = [] \<longleftrightarrow> list_all xs_in_transaction ss"
  by (auto simp: list_all_iff filter_empty_conv)

lemma decide_transactional [simp]:
  "td_transactional (decide supports ss) \<longleftrightarrow> supports \<and> list_all xs_in_transaction ss"
  unfolding no_autocommit_statement [symmetric] by (simp add: decide_def split: list.split)

lemma decide_autocommit [simp]:
  "td_autocommit_required (decide supports ss) \<longleftrightarrow> supports \<and> \<not> list_all xs_in_transaction ss"
  unfolding no_autocommit_statement [symmetric] by (simp add: decide_def split: list.split)

lemma decide_mixed [simp]:
  "td_unsupported_mixed (decide supports ss) \<longleftrightarrow>
     supports \<and> list_ex xs_in_transaction ss \<and> \<not> list_all xs_in_transaction ss"
proof -
  have "length (filter (\<lambda>s. \<not> xs_in_transaction s) ss) < length ss \<longleftrightarrow> list_ex xs_in_transaction ss"
    using length_filter_less [of _ ss "\<lambda>s. \<not> xs_in_transaction s"]
      filter_id_conv [of "\<lambda>s. \<not> xs_in_transaction s" ss]
    by (auto simp: list_ex_iff)
  then show ?thesis
    unfolding no_autocommit_statement [symmetric] by (auto simp: decide_def split: list.split)
qed

subsection \<open>The envelope of a script\<close>

text \<open>\<open>_position\<close>: the line of a string that is sent, when the records account for all of them.\<close>

definition rfind_or_zero :: "string \<Rightarrow> string \<Rightarrow> nat" where
  "rfind_or_zero s p =
     (case find_sub (rev p) (rev s) of None \<Rightarrow> 0 | Some n \<Rightarrow> length s - n - length p)"

definition statement_position :: "quirks \<Rightarrow> string list \<Rightarrow> nat \<Rightarrow> string \<Rightarrow> statement list option \<Rightarrow> string" where
  "statement_position q sent i script records =
     (let rs = (case records of
                  Some rs \<Rightarrow> rs
                | None \<Rightarrow> (case qk_parser q of
                     None \<Rightarrow> [] | Some sp \<Rightarrow> (case sp_split sp script of Inl _ \<Rightarrow> [] | Inr rs \<Rightarrow> rs)));
          owners = concat (map (\<lambda>r. map (\<lambda>t. (r, t)) (strings_of_record r)) rs)
      in if map snd owners = sent
         then (let r = fst (owners ! i);
                   offset = rfind_or_zero (sm_text r) (strip (strip_leading_comments (sm_text r)))
               in ''line '' @ digits_of_nat (sm_line r + length (filter (\<lambda>c. c = CHR 0x0A) (take offset (sm_text r)))))
         else ''statement '' @ digits_of_nat (i + 1))"

text \<open>A statement that is sent, its policy text, its normalised text and what its dialect calls it.\<close>

record script_entry =
  se_index :: nat
  se_sql :: string
  se_policy :: "string option"
  se_text :: string
  se_kind :: "string option"

definition control_text :: "quirks \<Rightarrow> string \<Rightarrow> string option \<Rightarrow> string" where
  "control_text q s policy =
     str_upper (collapse_by is_space (case policy of Some t \<Rightarrow> strip t | None \<Rightarrow> without_comments q is_space s))"

definition control_kind :: "quirks \<Rightarrow> string \<times> string option \<Rightarrow> string option" where
  "control_kind q s = first_match (qk_control q) (control_text q (fst s) (snd s))"

definition script_entry_of :: "quirks \<Rightarrow> nat \<Rightarrow> string \<times> string option \<Rightarrow> script_entry" where
  "script_entry_of q i s = \<lparr>se_index = i, se_sql = fst s, se_policy = snd s,
     se_text = control_text q (fst s) (snd s), se_kind = control_kind q s\<rparr>"

fun script_entries :: "quirks \<Rightarrow> nat \<Rightarrow> (string \<times> string option) list \<Rightarrow> script_entry list" where
  "script_entries q i [] = []"
| "script_entries q i (s # ss) = script_entry_of q i s # script_entries q (Suc i) ss"

definition shown_text :: "string \<Rightarrow> string" where
  "shown_text t = rstrip_by is_space (rstrip_by (\<lambda>c. c = CHR '';'') t)"

definition refusal :: "(nat \<Rightarrow> string) \<Rightarrow> string \<Rightarrow> script_entry \<Rightarrow> string \<Rightarrow> string" where
  "refusal place name e what = name @ '', '' @ place (se_index e) @ '': '' @ shown_text (se_text e) @ '' '' @ what"

text \<open>The statements inside an envelope must all be able to run in a transaction.\<close>

fun check_inside ::
  "quirks \<Rightarrow> (nat \<Rightarrow> string) \<Rightarrow> string \<Rightarrow> script_entry \<Rightarrow> script_entry \<Rightarrow> script_entry list \<Rightarrow> string + unit" where
  "check_inside q place name a z [] = Inr ()"
| "check_inside q place name a z (e # es) =
     rbind (classify_execution_statement q (se_sql e) (se_policy e)) (\<lambda>x.
       if truthy (xs_reason x)
       then Inl (refusal place name e
         (''cannot stay inside the envelope: '' @ the (xs_reason x) @ ''. The ''
          @ rstrip_by (\<lambda>c. c = CHR '';'') (se_text a) @ '' ... '' @ rstrip_by (\<lambda>c. c = CHR '';'') (se_text z)
          @ '' around it cannot be dropped; remove the envelope.''))
       else check_inside q place name a z es)"

definition control_explanation :: "quirks \<Rightarrow> string" where
  "control_explanation q =
     ''manages the transaction, which dblift already opens for each script, so none of its statements were executed. Remove it''
     @ (if list_ex (\<lambda>(p, k). k = ''begin'') (qk_control q) \<and> list_ex (\<lambda>(p, k). k = ''end'') (qk_control q)
        then ''; a script that is only BEGIN ... COMMIT around its whole body is accepted'' else [])
     @ ''.''"

definition begin_other_explanation :: string where
  "begin_other_explanation = ''cannot stand in for dblift's transaction, which it opens itself for each script: only a plain BEGIN [TRANSACTION] can open a script that is closed by COMMIT or END. None of its statements were executed.''"

definition refuse_offender :: "quirks \<Rightarrow> (nat \<Rightarrow> string) \<Rightarrow> string \<Rightarrow> script_entry \<Rightarrow> script_entry list \<Rightarrow> string" where
  "refuse_offender q place name a offenders =
     (let offender = hd offenders
      in if se_kind offender = Some ''begin_other'' \<and> se_index offender = se_index a
         then refusal place name offender begin_other_explanation
         else refusal place name offender (control_explanation q))"

text \<open>A script in a dialect that knows transaction statements.\<close>

definition drop_envelope ::
  "quirks \<Rightarrow> (nat \<Rightarrow> string) \<Rightarrow> string \<Rightarrow> (string \<times> string option) list \<Rightarrow> string + (string \<times> string option) list" where
  "drop_envelope q place name ss =
     (let es = script_entries q 0 ss; marked = filter (\<lambda>e. se_kind e \<noteq> None) es
      in if marked = [] then Inr ss
         else
           let a = hd es; z = last es; others = filter (\<lambda>e. se_index e \<noteq> se_index a \<and> se_index e \<noteq> se_index z) marked
           in if se_kind a = Some ''begin'' \<and> se_kind z = Some ''end'' \<and> se_index a \<noteq> se_index z
              then (if others = []
                    then rbind (check_inside q place name a z (butlast (tl es))) (\<lambda>_. Inr (butlast (tl ss)))
                    else Inl (refuse_offender q place name a others))
              else
                let offenders = filter (\<lambda>e. se_index e \<noteq> se_index a \<or> se_kind e \<noteq> Some ''begin'') marked
                in Inl (refuse_offender q place name a (if offenders = [] then marked else offenders)))"

text \<open>A script in a dialect that knows none: only a unit of several statements can hide one.\<close>

definition manages_transaction :: "string \<Rightarrow> bool" where
  "manages_transaction t \<longleftrightarrow>
     list_ex (\<lambda>w. starts_with t w
        \<and> (case drop (length w) t of [] \<Rightarrow> True | c # _ \<Rightarrow> \<not> (is_alnum c \<or> c = CHR ''_'' \<or> code_point c \<ge> 128)))
       [''BEGIN'', ''START TRANSACTION'', ''COMMIT'', ''ROLLBACK'']"

fun check_units ::
  "quirks \<Rightarrow> (nat \<Rightarrow> string) \<Rightarrow> string \<Rightarrow> nat \<Rightarrow> statement list \<Rightarrow> string + unit" where
  "check_units q place name sent [] = Inr ()"
| "check_units q place name sent (r # rs) =
     (let parts = (case sm_analysis r of Some (p # ps) \<Rightarrow> p # ps | _ \<Rightarrow> [sm_text r]);
          texts = map (\<lambda>p. str_upper (collapse_by is_space (without_comments q is_space p))) parts
      in case (if executable_records [r] \<noteq> [] \<and> sm_multi r \<and> length parts \<ge> 2
               then List.find manages_transaction texts else None) of
           Some t \<Rightarrow> Inl (name @ '', '' @ place sent @ '': '' @ rstrip_by (\<lambda>c. c = CHR '';'') t
             @ '' manages the transaction inside one execution unit, so none of its statements were executed. Remove it from the combined unit.'')
         | None \<Rightarrow> check_units q place name (sent + length (strings_of_record r)) rs)"

text \<open>The policy texts of the strings that are sent, one per record they come from.\<close>

definition policies_of :: "statement list \<Rightarrow> string option list \<Rightarrow> string option list" where
  "policies_of rs ps =
     concat (map (\<lambda>(r, p). if sent_text r = None then [] else replicate (sm_repeat r) p) (zip rs ps))"

definition neutralise_transaction_statements ::
  "quirks \<Rightarrow> string \<Rightarrow> string \<Rightarrow> string list \<Rightarrow> statement list option \<Rightarrow> string option list option
   \<Rightarrow> string + (string \<times> string option) list" where
  "neutralise_transaction_statements q name script sent records policies =
     (case records of
        Some rs \<Rightarrow>
          if execution_strings rs \<noteq> sent
          then Inl (name @ '': execution strings do not match the supplied scanner records; none of its statements were executed'')
          else if (case policies of Some ps \<Rightarrow> length ps \<noteq> length rs | None \<Rightarrow> False)
          then Inl (name @ '': scanner policy views do not match the supplied scanner records; none of its statements were executed'')
          else
            let ss = zip sent (case policies of Some ps \<Rightarrow> policies_of rs ps | None \<Rightarrow> replicate (length sent) None);
                place = (\<lambda>i. statement_position q sent i script records)
            in if qk_control q = [] then rbind (check_units q place name 0 rs) (\<lambda>_. Inr ss)
               else drop_envelope q place name ss
      | None \<Rightarrow>
          let ss = zip sent (replicate (length sent) None); place = (\<lambda>i. statement_position q sent i script None)
          in if qk_control q \<noteq> [] then drop_envelope q place name ss
             else (case qk_parser q of
                     None \<Rightarrow> Inr ss
                   | Some sp \<Rightarrow>
                       if script = [] then Inr ss
                       else rbind (sp_split sp script) (\<lambda>rs.
                         rbind (check_units q (\<lambda>i. statement_position q sent i script (Some rs)) name 0 rs) (\<lambda>_. Inr ss))))"

subsection \<open>What is sent\<close>

lemma length_policies_of: "length ps = length rs \<Longrightarrow> length (policies_of rs ps) = length (execution_strings rs)"
  by (induction rs ps rule: list_induct2')
    (auto simp: policies_of_def execution_strings_def strings_of_record_def split: option.split)

lemma drop_leading:
  "strip_leading_comments s = [] \<or> \<not> is_blank (hd (strip_leading_comments s))
     \<and> \<not> starts_with (strip_leading_comments s) ''--'' \<and> \<not> starts_with (strip_leading_comments s) ''/*''"
proof (induction s rule: strip_leading_comments.induct)
  case (1 s)
  show ?case
    using 1 hd_dropWhile [of is_blank s]
    by (subst (1 2 3 4) strip_leading_comments.simps) (auto simp: Let_def split: option.split)
qed


lemma unmarked_entries: "filter (\<lambda>e. se_kind e \<noteq> None) (script_entries q i ss) = [] \<longleftrightarrow> list_all (\<lambda>s. control_kind q s = None) ss"
  by (induction ss arbitrary: i) (auto simp: script_entry_of_def)

lemma script_entries_append: "script_entries q i (ss @ ts) = script_entries q i ss @ script_entries q (i + length ss) ts"
  by (induction ss arbitrary: i) auto

lemma script_entries_index: "e \<in> set (script_entries q i ss) \<Longrightarrow> i \<le> se_index e \<and> se_index e < i + length ss"
  by (induction ss arbitrary: i) (force simp: script_entry_of_def)+

text \<open>A statement that may stay inside an envelope.\<close>

definition runs_inside :: "quirks \<Rightarrow> string \<times> string option \<Rightarrow> bool" where
  "runs_inside q s \<longleftrightarrow>
     (case classify_execution_statement q (fst s) (snd s) of Inl _ \<Rightarrow> False | Inr x \<Rightarrow> \<not> truthy (xs_reason x))"

lemma check_inside_ok:
  "check_inside q place name a z es = Inr u \<longleftrightarrow> list_all (\<lambda>e. runs_inside q (se_sql e, se_policy e)) es"
  by (induction es) (auto simp: runs_inside_def split: sum.split)

lemma inside_entries: "list_all (\<lambda>e. runs_inside q (se_sql e, se_policy e)) (script_entries q i ss) = list_all (runs_inside q) ss"
  by (induction ss arbitrary: i) (auto simp: script_entry_of_def)

lemma other_entries:
  "filter (\<lambda>e. se_index e \<noteq> 0 \<and> se_index e \<noteq> Suc (length mid))
     (filter (\<lambda>e. se_kind e \<noteq> None) (script_entries q (Suc 0) mid))
     = filter (\<lambda>e. se_kind e \<noteq> None) (script_entries q (Suc 0) mid)"
  unfolding filter_filter by (rule filter_cong) (auto dest: script_entries_index)

text \<open>A script of a dialect with transaction statements is accepted in two cases: none of its
  statements is one, and all are sent; or it is \<open>BEGIN ... COMMIT\<close> around statements of which none is
  one and none refuses to run in a transaction, and exactly the statements inside are sent. Every
  other script is refused before anything runs.\<close>

theorem drop_envelope_iff:
  "drop_envelope q place name ss = Inr kept \<longleftrightarrow>
     (list_all (\<lambda>s. control_kind q s = None) ss \<and> kept = ss)
     \<or> (\<exists>b z. ss = b # kept @ [z] \<and> control_kind q b = Some ''begin'' \<and> control_kind q z = Some ''end''
          \<and> list_all (\<lambda>s. control_kind q s = None \<and> runs_inside q s) kept)"
proof -
  consider "length ss \<le> 1" | b mid z where "ss = b # mid @ [z]"
    by (cases ss; cases "tl ss" rule: rev_cases) auto
  then show ?thesis
  proof cases
    case 1
    then have "ss = [] \<or> (\<exists>s. ss = [s])" by (cases ss) auto
    then show ?thesis
      by (auto simp: drop_envelope_def Let_def script_entry_of_def)
  next
    case (2 b mid z)
    have es: "script_entries q 0 ss = script_entry_of q 0 b # script_entries q (Suc 0) mid
        @ [script_entry_of q (Suc (length mid)) z]"
      by (simp add: 2 script_entries_append)
    let ?m = "filter (\<lambda>e. se_kind e \<noteq> None) (script_entries q (Suc 0) mid)"
    show ?thesis
      using unmarked_entries [of q "Suc 0" mid] other_entries [of mid q] inside_entries [of q "Suc 0" mid]
      unfolding drop_envelope_def es Let_def
      by (cases "?m = []") (auto simp: 2 script_entry_of_def check_inside_ok list_all_iff)
  qed
qed

end
