(* ===== verification/Engine.thy ===== *)
theory Engine
  imports PythonExecutor TransactionPolicy Runner
begin

text \<open>
  The execution engine (\<open>migration/executor/execution_engine.py\<close>) and the service it sends statements
  through (\<open>migration/sql/sql_execution_service.py\<close>): one migration, SQL or Python, or one callback, is
  run on a provider with its transaction, its history row and its failure record. The provider is the
  interface of \<open>Provider\<close>; the scanner, the loading of a Python script, the runtime checks and the
  clock are fields of \<open>engine\<close>. Log output and captured query results are left out.
\<close>

subsection \<open>State\<close>

datatype statement_class = ClassQuery | ClassDdl | ClassDml | ClassUnknown

record 'c engine =
  ee_provider :: "'c provider"
  ee_history :: bool
  ee_service :: bool
  ee_service_schema :: "string option"
  ee_analysis :: "exc option"
  ee_class :: "string \<Rightarrow> statement_class"
  ee_normalize :: "string \<Rightarrow> string"
  ee_objects :: "string \<Rightarrow> (string, string) dict list"
  ee_mask :: "string \<Rightarrow> string"
  ee_time :: "'c \<Rightarrow> int"
  ee_text :: "exc \<Rightarrow> string"
  ee_schema :: "string option"
  ee_quirks :: quirks
  ee_sql_supported :: bool
  ee_pre_check :: "exc option"
  ee_preflight :: "migration \<Rightarrow> string list \<Rightarrow> exc option"
  ee_substitute :: "string \<Rightarrow> string"
  ee_split :: "string \<Rightarrow> string + statement list \<times> string option list"
  ee_sqlplus :: "string \<Rightarrow> bool"
  ee_directive :: "string \<Rightarrow> string option"
  ee_dialect :: string
  ee_python :: python_env
  ee_installed_by :: string

text \<open>The connection, the journal, and the fields of the result that a unit changes.\<close>

record 'c unit_state =
  us_conn :: 'c
  us_kind :: result_kind
  us_journal :: "journal option"
  us_error :: "string option"
  us_rows :: "migration_info list"
  us_warnings :: "string list"
  us_persisted :: "bool option"

type_synonym 'c unit_step = "'c unit_state \<Rightarrow> exc option \<times> 'c unit_state"

text \<open>A provider operation, and the result object's \<open>set_error\<close> as the engine sees it.\<close>

definition on_conn :: "('c \<Rightarrow> 'r \<times> 'c) \<Rightarrow> 'c unit_state \<Rightarrow> 'r \<times> 'c unit_state" where
  "on_conn f st = (case f (us_conn st) of (r, c) \<Rightarrow> (r, st\<lparr>us_conn := c\<rparr>))"

definition fail_with :: "string \<Rightarrow> 'c unit_state \<Rightarrow> 'c unit_state" where
  "fail_with t st = st\<lparr>us_error := Some (case us_kind st of MigrateResult \<Rightarrow> clean_error t | UndoResult \<Rightarrow> t)\<rparr>"

definition note_journal :: "(journal \<Rightarrow> journal) \<Rightarrow> 'c unit_state \<Rightarrow> 'c unit_state" where
  "note_journal f st = st\<lparr>us_journal := map_option f (us_journal st)\<rparr>"

definition ignoring :: "exc option \<times> 'c unit_state \<Rightarrow> 'c unit_state" where
  "ignoring r = snd r"

text \<open>\<open>bind\<close> of steps that may raise.\<close>

definition then_do :: "exc option \<times> 'c unit_state \<Rightarrow> 'c unit_step \<Rightarrow> exc option \<times> 'c unit_state" where
  "then_do r f = (case r of (None, st) \<Rightarrow> f st | (Some e, st) \<Rightarrow> (Some e, st))"

definition if_transactional :: "'c engine \<Rightarrow> ('c provider \<Rightarrow> 'c op) \<Rightarrow> 'c unit_step" where
  "if_transactional eng f st =
     (if pv_transactional (ee_provider eng) then on_conn (f (ee_provider eng)) st else (None, st))"

subsection \<open>Schema and transaction of a unit\<close>

definition reset_schema_cache :: "'c engine \<Rightarrow> 'c unit_state \<Rightarrow> 'c unit_state" where
  "reset_schema_cache eng st = st\<lparr>us_conn := pv_reset_cache (ee_provider eng) (us_conn st)\<rparr>"

definition apply_configured_schema :: "'c engine \<Rightarrow> 'c unit_step" where
  "apply_configured_schema eng st =
     (if truthy (ee_schema eng) then on_conn (pv_set_schema (ee_provider eng) (the (ee_schema eng))) st
      else (None, st))"

text \<open>The rollback of a transaction that is open when a migration starts: best effort.\<close>

definition roll_back_leftover :: "'c engine \<Rightarrow> 'c unit_state \<Rightarrow> 'c unit_state" where
  "roll_back_leftover eng st =
     (let p = ee_provider eng in
      if \<not> pv_connected p (us_conn st) then st
      else (case pv_autocommitting p (us_conn st) of
              Inl _ \<Rightarrow> st
            | Inr True \<Rightarrow> st
            | Inr False \<Rightarrow>
                let had_open = pv_open p (us_conn st)
                in (case on_conn (pv_rollback p) st of
                      (None, st1) \<Rightarrow> if had_open then reset_schema_cache eng st1 else st1
                    | (Some _, st1) \<Rightarrow> st1)))"

definition prepare_transaction :: "'c engine \<Rightarrow> 'c unit_state \<Rightarrow> bool \<times> 'c unit_state" where
  "prepare_transaction eng st =
     (let p = ee_provider eng in
      if \<not> pv_transactional p then (False, st)
      else (case (if pv_caller_owned p then on_conn (pv_commit_caller_work p) st else (None, st)) of
              (Some _, st1) \<Rightarrow> (False, st1)
            | (None, st1) \<Rightarrow>
                (case on_conn (pv_begin p) (roll_back_leftover eng st1) of
                   (Some _, st2) \<Rightarrow> (False, st2)
                 | (None, st2) \<Rightarrow>
                     (case apply_configured_schema eng st2 of
                        (None, st3) \<Rightarrow> (True, st3)
                      | (Some _, st3) \<Rightarrow> (False, snd (on_conn (pv_rollback p) st3))))))"

subsection \<open>Statements\<close>

text \<open>\<open>_provider_execute\<close> and the branches of \<open>execute_statement\<close> by class.\<close>

definition provider_execute :: "'c engine \<Rightarrow> bool \<Rightarrow> string option \<Rightarrow> string \<Rightarrow> 'c \<Rightarrow> (exc + int) \<times> 'c" where
  "provider_execute eng autocommit sch s c =
     (let p = ee_provider eng in
      if autocommit \<and> pv_transactional p then pv_execute_autocommit p sch s c else pv_execute p sch s c)"

text \<open>The statement a call sends: DDL is normalised first.\<close>

definition sent_form :: "'c engine \<Rightarrow> string \<Rightarrow> string" where
  "sent_form eng s = (if ee_class eng s = ClassDdl then ee_normalize eng s else s)"

definition int_text :: "int \<Rightarrow> string" where
  "int_text n = (if n < 0 then ''-'' @ digits_of_nat (nat (- n)) else digits_of_nat (nat n))"

definition record_complete :: "'c engine \<Rightarrow> string \<Rightarrow> nat \<Rightarrow> int \<Rightarrow> 'c unit_state \<Rightarrow> 'c unit_state" where
  "record_complete eng s i n st =
     (let t = sent_form eng s;
          st1 = note_journal (record_statement_complete t i (ee_time eng (us_conn st))
                  [(''rows_affected'', DText (Some (int_text n)))]) st;
          objects = ee_objects eng t
      in if (ee_class eng s = ClassDdl \<or> ee_class eng s = ClassDml) \<and> objects \<noteq> []
         then note_journal (record_object_changes t i objects) st1 else st1)"

definition service_execute :: "'c engine \<Rightarrow> string \<Rightarrow> nat \<Rightarrow> bool \<Rightarrow> 'c unit_step" where
  "service_execute eng s i autocommit st =
     (case ee_analysis eng of
        Some e \<Rightarrow> (Some e, st)
      | None \<Rightarrow>
          let st1 = note_journal (record_statement_start s i) st
          in (case on_conn (if ee_class eng s = ClassQuery then pv_query (ee_provider eng) s
                            else provider_execute eng autocommit (ee_service_schema eng) (sent_form eng s)) st1 of
                (Inr n, st2) \<Rightarrow> (None, record_complete eng s i n st2)
              | (Inl e, st2) \<Rightarrow>
                  (Some e, note_journal (record_statement_failed (ee_mask eng (sent_form eng s)) i (ee_text eng e)
                             (ee_time eng (us_conn st2))) st2)))"

definition direct_execute :: "'c engine \<Rightarrow> string \<Rightarrow> bool \<Rightarrow> 'c unit_step" where
  "direct_execute eng s autocommit st =
     (case on_conn (provider_execute eng autocommit None s) st of (Inr n, st1) \<Rightarrow> (None, st1) | (Inl e, st1) \<Rightarrow> (Some e, st1))"

definition aborted_before :: "nat \<Rightarrow> exc \<Rightarrow> exc" where
  "aborted_before i e =
     (case e of
        AbortedTransaction t \<Rightarrow>
          AbortedTransaction (''Transaction is aborted before executing statement '' @ digits_of_nat (i + 1) @ '': '' @ t)
      | _ \<Rightarrow> e)"

definition check_state :: "'c engine \<Rightarrow> nat \<Rightarrow> 'c unit_step" where
  "check_state eng i st =
     (case if_transactional eng pv_check st of
        (None, st1) \<Rightarrow> (None, st1) | (Some e, st1) \<Rightarrow> (Some (aborted_before i e), st1))"

definition execute_one :: "'c engine \<Rightarrow> string \<Rightarrow> nat \<Rightarrow> bool \<Rightarrow> 'c unit_step" where
  "execute_one eng s i autocommit st =
     then_do (check_state eng i st)
       (if ee_service eng then service_execute eng s i autocommit else direct_execute eng s autocommit)"

text \<open>\<open>WHENEVER SQLERROR CONTINUE\<close> skips an error of the database, not one of the connection.\<close>

definition skippable :: "exc \<Rightarrow> bool" where
  "skippable e = (case e of AbortedTransaction _ \<Rightarrow> False | ConnectionFailure _ \<Rightarrow> False | _ \<Rightarrow> True)"

fun run_statements ::
  "'c engine \<Rightarrow> bool \<Rightarrow> bool \<Rightarrow> string \<Rightarrow> nat \<Rightarrow> string list \<Rightarrow> 'c unit_state
   \<Rightarrow> (nat \<times> exc) option \<times> 'c unit_state" where
  "run_statements eng sqlplus autocommit policy i [] st = (None, st)"
| "run_statements eng sqlplus autocommit policy i (s # ss) st =
     (case (if sqlplus then ee_directive eng s else None) of
        Some policy' \<Rightarrow> run_statements eng sqlplus autocommit policy' (Suc i) ss st
      | None \<Rightarrow>
          (case execute_one eng s i autocommit st of
             (None, st1) \<Rightarrow> run_statements eng sqlplus autocommit policy (Suc i) ss st1
           | (Some e, st1) \<Rightarrow>
               if sqlplus \<and> policy = ''continue'' \<and> skippable e
               then run_statements eng sqlplus autocommit policy (Suc i) ss st1
               else (Some (i, e), st1)))"

definition verdict_index :: "exc \<Rightarrow> nat \<Rightarrow> nat" where
  "verdict_index e k = (case e of StatementVerdict t n \<Rightarrow> n | _ \<Rightarrow> k)"

text \<open>The statements and the provider's verdict; an error carries the statement it belongs to.\<close>

definition execute_statements ::
  "'c engine \<Rightarrow> bool \<Rightarrow> bool \<Rightarrow> string list \<Rightarrow> 'c unit_state \<Rightarrow> (nat \<times> exc) option \<times> 'c unit_state" where
  "execute_statements eng sqlplus autocommit ss st =
     (case run_statements eng sqlplus autocommit ''exit'' 0 ss st of
        (Some r, st1) \<Rightarrow> (Some r, st1)
      | (None, st1) \<Rightarrow>
          (case on_conn (pv_finish (ee_provider eng) ss) st1 of
             (None, st2) \<Rightarrow> (None, st2)
           | (Some e, st2) \<Rightarrow> (Some (verdict_index e (length ss - 1), e), st2)))"

subsection \<open>History\<close>

definition new_history_row :: "string \<Rightarrow> migration \<Rightarrow> bool \<Rightarrow> int \<Rightarrow> history_row" where
  "new_history_row user m ok time =
     \<lparr>hr_script = script_name m, hr_version = version m, hr_description = description m,
      hr_type = type_name (mtype m), hr_checksum = checksum m, hr_success = ok, hr_time = time,
      hr_installed_by = user\<rparr>"

definition record_migration :: "'c engine \<Rightarrow> migration \<Rightarrow> bool \<Rightarrow> int \<Rightarrow> 'c unit_step" where
  "record_migration eng m ok time = on_conn (pv_record (ee_provider eng) (new_history_row (ee_installed_by eng) m ok time))"

text \<open>A failure is recorded in a transaction of its own, after the rollback; losing the row is
  preferred to masking the error.\<close>

definition record_failure :: "'c engine \<Rightarrow> migration \<Rightarrow> int \<Rightarrow> 'c unit_state \<Rightarrow> 'c unit_state" where
  "record_failure eng m time st =
     (if \<not> ee_history eng then st
      else
        (case then_do (then_do (if_transactional eng pv_begin st) (record_migration eng m False time))
                (if_transactional eng pv_commit) of
           (None, st1) \<Rightarrow> st1\<lparr>us_persisted := Some True\<rparr>
         | (Some e, st1) \<Rightarrow>
             snd (if_transactional eng pv_rollback
               (st1\<lparr>us_persisted := Some False,
                    us_warnings := us_warnings st1 @ [''Failed migration was not persisted to history: '' @ exc_text e]\<rparr>))))"

definition failed_info :: "migration \<Rightarrow> string \<Rightarrow> int \<Rightarrow> int option \<Rightarrow> migration_info" where
  "failed_info m kind time cks =
     \<lparr>mi_script = script_name m, mi_version = version m, mi_description = description m,
      mi_type = kind, mi_status = ''FAILED'', mi_time = time, mi_checksum = cks\<rparr>"

definition ddl_warning :: string where
  "ddl_warning = ''This database does not support transactional DDL. DDL statements (CREATE, ALTER, DROP) from this migration may have been partially applied and cannot be rolled back automatically. Review the database state and use 'repair' before retrying.''"

definition handle_statement_failure :: "'c engine \<Rightarrow> migration \<Rightarrow> nat \<times> exc \<Rightarrow> 'c unit_state \<Rightarrow> 'c unit_state" where
  "handle_statement_failure eng m r st =
     (let p = ee_provider eng; time = ee_time eng (us_conn st);
          st1 = fail_with (''Failed to execute statement '' @ digits_of_nat (fst r + 1) @ '' in '' @ script_name m
                  @ '': '' @ ee_text eng (snd r)) st;
          st2 = st1\<lparr>us_rows := us_rows st1 @ [failed_info m (type_name (mtype m)) time (checksum m)]\<rparr>;
          st3 = ignoring (if_transactional eng pv_rollback st2);
          st4 = (if pv_transactional p \<and> \<not> pv_transactional_ddl p
                 then st3\<lparr>us_warnings := us_warnings st3 @ [ddl_warning]\<rparr> else st3)
      in record_failure eng m time st4)"

definition record_migration_history :: "'c engine \<Rightarrow> migration \<Rightarrow> int \<Rightarrow> 'c unit_step" where
  "record_migration_history eng m time st =
     (if \<not> ee_history eng then (None, st)
      else (case record_migration eng m True time st of
              (None, st1) \<Rightarrow> (None, st1)
            | (Some e, st1) \<Rightarrow> (Some e, ignoring (if_transactional eng pv_rollback st1))))"

definition record_autocommit_history :: "'c engine \<Rightarrow> migration \<Rightarrow> int \<Rightarrow> 'c unit_step" where
  "record_autocommit_history eng m time st =
     (if \<not> ee_history eng then (None, st)
      else (case if_transactional eng pv_begin st of
              (Some e, st1) \<Rightarrow> (Some e, st1)
            | (None, st1) \<Rightarrow>
                (case then_do (record_migration eng m True time st1) (if_transactional eng pv_commit) of
                   (None, st2) \<Rightarrow> (None, st2)
                 | (Some e, st2) \<Rightarrow> (Some e, ignoring (if_transactional eng pv_rollback st2)))))"

subsection \<open>One migration\<close>

text \<open>\<open>_prepare_sql_statements\<close>: the placeholders are substituted before the scanner reads the script;
  the flag says that the error names the script itself.\<close>

definition prepare_sql_statements :: "'c engine \<Rightarrow> migration \<Rightarrow> (bool \<times> string) + (string \<times> string option) list" where
  "prepare_sql_statements eng m =
     (let script = ee_substitute eng (content m)
      in if script = [] then Inr []
         else (case ee_split eng script of
                 Inl e \<Rightarrow> Inl (False, e)
               | Inr (rs, ps) \<Rightarrow>
                   (case neutralise_transaction_statements (ee_quirks eng) (script_name m) script
                           (execution_strings rs) (Some rs) (Some ps) of
                      Inl e \<Rightarrow> Inl (True, e)
                    | Inr ss \<Rightarrow> Inr ss)))"

definition parse_sql_statements ::
  "'c engine \<Rightarrow> migration \<Rightarrow> 'c unit_state \<Rightarrow> (string \<times> string option) list option \<times> 'c unit_state" where
  "parse_sql_statements eng m st =
     (case prepare_sql_statements eng m of
        Inr ss \<Rightarrow> (Some ss, st)
      | Inl (named, e) \<Rightarrow>
          (None, fail_with (if named then e else ''Failed to parse SQL for '' @ script_name m @ '': '' @ e) st))"

definition plan_sql_execution :: "'c engine \<Rightarrow> (string \<times> string option) list \<Rightarrow> string + decision" where
  "plan_sql_execution eng ss =
     rbind (classify_all (ee_quirks eng) ss) (\<lambda>xs. Inr (decide (pv_transactional (ee_provider eng)) xs))"

definition mixed_error :: "migration \<Rightarrow> decision \<Rightarrow> string" where
  "mixed_error m d = ''Migration '' @ script_name m
     @ '' mixes transactional and autocommit-only statements: '' @ td_reason d"

text \<open>The block under \<open>try\<close> of \<open>execute_migration\<close>.\<close>

definition run_sql_unit :: "'c engine \<Rightarrow> migration \<Rightarrow> decision \<Rightarrow> string list \<Rightarrow> 'c unit_step" where
  "run_sql_unit eng m d ss st =
     (case execute_statements eng (ee_sqlplus eng (ee_substitute eng (content m))) (td_autocommit_required d) ss st of
        (Some r, st1) \<Rightarrow> (None, handle_statement_failure eng m r st1)
      | (None, st1) \<Rightarrow>
          let time = ee_time eng (us_conn st1)
          in if td_transactional d
             then then_do (record_migration_history eng m time st1) (if_transactional eng pv_commit)
             else record_autocommit_history eng m time st1)"

definition begin_failed :: "migration \<Rightarrow> string" where
  "begin_failed m = ''Could not begin transaction for '' @ script_name m @ '', aborting execution''"

text \<open>Any exception rolls the transaction back and goes on.\<close>

definition run_planned :: "'c engine \<Rightarrow> migration \<Rightarrow> decision \<Rightarrow> string list \<Rightarrow> 'c unit_step" where
  "run_planned eng m d ss st =
     (if td_transactional d
      then (case prepare_transaction eng st of
              (False, st1) \<Rightarrow> (None, fail_with (begin_failed m) st1)
            | (True, st1) \<Rightarrow>
                (case run_sql_unit eng m d ss st1 of
                   (None, st2) \<Rightarrow> (None, st2)
                 | (Some e, st2) \<Rightarrow> (Some e, ignoring (if_transactional eng pv_rollback st2))))
      else run_sql_unit eng m d ss st)"

definition execute_sql :: "'c engine \<Rightarrow> migration \<Rightarrow> 'c unit_step" where
  "execute_sql eng m st =
     (case check_format_supported (ee_sql_supported eng) (ee_dialect eng) FSQL (script_name m) of
        Some e \<Rightarrow> (Some e, st)
      | None \<Rightarrow>
        (case parse_sql_statements eng m st of
           (None, st1) \<Rightarrow> (None, st1)
         | (Some ss, st1) \<Rightarrow>
             (case ee_preflight eng m (map fst ss) of
                Some e \<Rightarrow> (Some e, st1)
              | None \<Rightarrow>
                  (case plan_sql_execution eng ss of
                     Inl e \<Rightarrow> (Some (Failure e), st1)
                   | Inr d \<Rightarrow>
                       if td_unsupported_mixed d then (None, fail_with (mixed_error m d) st1)
                       else run_planned eng m d (map fst ss) st1))))"

subsection \<open>A Python migration\<close>

definition format_label :: "migration \<Rightarrow> string" where
  "format_label m = str_upper (format_value (format m))"

definition roll_back_started :: "'c engine \<Rightarrow> 'c unit_state \<Rightarrow> 'c unit_state" where
  "roll_back_started eng st = ignoring (if_transactional eng pv_rollback st)"

definition script_succeeded :: "'c engine \<Rightarrow> migration \<Rightarrow> int \<Rightarrow> 'c unit_state \<Rightarrow> 'c unit_state" where
  "script_succeeded eng m time st =
     (case (if ee_history eng then record_migration eng m True time st else (None, st)) of
        (Some e, st1) \<Rightarrow>
          roll_back_started eng (fail_with (''Failed to record migration history: '' @ ee_text eng e) st1)
      | (None, st1) \<Rightarrow>
          (case if_transactional eng pv_commit st1 of
             (Some e, st2) \<Rightarrow>
               roll_back_started eng (fail_with (''Failed to commit transaction: '' @ ee_text eng e) st2)
           | (None, st2) \<Rightarrow> st2))"

definition script_failed :: "'c engine \<Rightarrow> migration \<Rightarrow> script_result \<Rightarrow> 'c unit_state \<Rightarrow> 'c unit_state" where
  "script_failed eng m r st =
     (let msg = (if truthy (sr_error r) then the (sr_error r)
                 else ''Script execution failed for type '' @ format_label m);
          st1 = roll_back_started eng (fail_with msg st);
          st2 = st1\<lparr>us_rows := us_rows st1 @ [failed_info m (format_label m) (sr_time r) None]\<rparr>
      in record_failure eng m (sr_time r) st2)"

definition script_raised :: "'c engine \<Rightarrow> migration \<Rightarrow> exc \<Rightarrow> 'c unit_state \<Rightarrow> 'c unit_state" where
  "script_raised eng m e st =
     roll_back_started eng (fail_with
       (case e of
          ValueError t \<Rightarrow> ''No executor found for format '' @ format_value (format m) @ '': '' @ t
        | _ \<Rightarrow> ''Unexpected error during non-SQL execution: '' @ exc_text e) st)"

definition execute_via_factory :: "'c engine \<Rightarrow> migration \<Rightarrow> 'c unit_state \<Rightarrow> 'c unit_state" where
  "execute_via_factory eng m st =
     (case (if pv_transactional (ee_provider eng) then prepare_transaction eng st else (True, st)) of
        (False, st1) \<Rightarrow> fail_with (begin_failed m) st1
      | (True, st1) \<Rightarrow>
          (case on_conn (factory_execute (ee_python eng) (ee_provider eng)
                   (check_format_supported (ee_sql_supported eng) (ee_dialect eng) (format m) (script_name m))
                   (ee_time eng) m) st1 of
             (Inl e, st2) \<Rightarrow> script_raised eng m e st2
           | (Inr r, st2) \<Rightarrow>
               if sr_success r then script_succeeded eng m (sr_time r) st2 else script_failed eng m r st2))"

definition execute_unit :: "'c engine \<Rightarrow> migration \<Rightarrow> 'c unit_step" where
  "execute_unit eng m st =
     (case ee_pre_check eng of
        Some e \<Rightarrow> (Some e, st)
      | None \<Rightarrow>
          then_do (apply_configured_schema eng (reset_schema_cache eng st))
            (if format m \<noteq> FSQL then (\<lambda>st1. (None, execute_via_factory eng m st1)) else execute_sql eng m))"

subsection \<open>The statements of a migration\<close>

text \<open>\<open>get_executable_sql_statements\<close>: what a run would send; an error is left in the result.\<close>

definition get_executable_sql_statements ::
  "'c engine \<Rightarrow> migration \<Rightarrow> 'c unit_state \<Rightarrow> (exc + string list) \<times> 'c unit_state" where
  "get_executable_sql_statements eng m st =
     (if format m \<noteq> FSQL then (Inr [], st)
      else
        (case parse_sql_statements eng m st of
           (None, st1) \<Rightarrow> (Inr [], st1)
         | (Some ss, st1) \<Rightarrow>
             let sqlplus = ee_sqlplus eng (ee_substitute eng (content m));
                 kept = filter (\<lambda>(s, t). \<not> (sqlplus \<and> ee_directive eng s \<noteq> None)) ss
             in (case plan_sql_execution eng kept of
                   Inl e \<Rightarrow> (Inl (Failure e), st1)
                 | Inr d \<Rightarrow>
                     if td_unsupported_mixed d then (Inr [], fail_with (mixed_error m d) st1)
                     else (Inr (map fst kept), st1))))"

subsection \<open>A callback\<close>

text \<open>One statement of a callback; what its journal entries hold is left out.\<close>

definition callback_statement :: "'c engine \<Rightarrow> bool \<Rightarrow> string \<Rightarrow> 'c unit_step" where
  "callback_statement eng autocommit s st =
     (case (if ee_service eng then ee_analysis eng else None) of
        Some e \<Rightarrow> (Some e, st)
      | None \<Rightarrow>
          (case on_conn (if ee_class eng s = ClassQuery then pv_query (ee_provider eng) s
                         else provider_execute eng autocommit (if ee_service eng then ee_service_schema eng else None)
                           (if ee_service eng then sent_form eng s else s)) st of
             (Inr n, st1) \<Rightarrow> (None, st1)
           | (Inl e, st1) \<Rightarrow> (Some e, st1)))"

fun callback_statements :: "'c engine \<Rightarrow> bool \<Rightarrow> bool \<Rightarrow> string list \<Rightarrow> 'c unit_state \<Rightarrow> exc option \<times> 'c unit_state" where
  "callback_statements eng sqlplus autocommit [] st = (None, st)"
| "callback_statements eng sqlplus autocommit (s # ss) st =
     (if sqlplus \<and> ee_directive eng s \<noteq> None then callback_statements eng sqlplus autocommit ss st
      else then_do (callback_statement eng autocommit s st) (callback_statements eng sqlplus autocommit ss))"

text \<open>A callback that cannot begin a transaction runs in the caller's, which is noted; one that cannot
  commit goes on.\<close>

definition begin_callback :: "'c engine \<Rightarrow> 'c unit_state \<Rightarrow> bool \<times> 'c unit_state" where
  "begin_callback eng st =
     (case if_transactional eng pv_begin st of
        (None, st1) \<Rightarrow> (True, st1)
      | (Some _, st1) \<Rightarrow>
          (False, if pv_caller_owned (ee_provider eng)
                  then st1\<lparr>us_conn := pv_note_caller_work (ee_provider eng) (us_conn st1)\<rparr> else st1))"

definition run_callback_sql :: "'c engine \<Rightarrow> migration \<Rightarrow> decision \<Rightarrow> string list \<Rightarrow> 'c unit_step" where
  "run_callback_sql eng m d ss st =
     (case (if td_transactional d then begin_callback eng st else (False, st)) of
        (begun, st1) \<Rightarrow>
          (case then_do (callback_statements eng (ee_sqlplus eng (ee_substitute eng (content m)))
                           (td_autocommit_required d) ss st1)
                  (on_conn (pv_finish (ee_provider eng) ss)) of
             (None, st2) \<Rightarrow> (None, if begun then ignoring (if_transactional eng pv_commit st2) else st2)
           | (Some e, st2) \<Rightarrow> (Some e, if begun then ignoring (if_transactional eng pv_rollback st2) else st2)))"

definition callback_mixed :: "migration \<Rightarrow> decision \<Rightarrow> exc" where
  "callback_mixed m d = Failure (''Callback '' @ script_name m
     @ '' mixes transactional and autocommit-only statements: '' @ td_reason d)"

definition execute_callback :: "'c engine \<Rightarrow> bool \<Rightarrow> migration \<Rightarrow> 'c unit_step" where
  "execute_callback eng check m st =
     then_do (apply_configured_schema eng (reset_schema_cache eng st)) (\<lambda>st1.
       if format m \<noteq> FSQL
       then (case on_conn (factory_execute (ee_python eng) (ee_provider eng)
                      (check_format_supported (ee_sql_supported eng) (ee_dialect eng) (format m) (script_name m))
                      (ee_time eng) m) st1 of
               (Inl e, st2) \<Rightarrow> (Some e, st2)
             | (Inr r, st2) \<Rightarrow>
                 (if sr_success r then None
                  else Some (Failure (''Python callback '' @ script_name m @ '' failed: ''
                    @ (case sr_error r of None \<Rightarrow> ''None'' | Some t \<Rightarrow> t))), st2))
       else
         (case check_format_supported (ee_sql_supported eng) (ee_dialect eng) FSQL (script_name m) of
            Some e \<Rightarrow> (Some e, st1)
          | None \<Rightarrow>
              (case prepare_sql_statements eng m of
                 Inl (named, e) \<Rightarrow> (Some (Failure e), st1)
               | Inr ss \<Rightarrow>
                   (case (if check then ee_preflight eng m (map fst ss) else None) of
                      Some e \<Rightarrow> (Some e, st1)
                    | None \<Rightarrow>
                        (case plan_sql_execution eng ss of
                           Inl e \<Rightarrow> (Some (Failure e), st1)
                         | Inr d \<Rightarrow>
                             if td_unsupported_mixed d then (Some (callback_mixed m d), st1)
                             else run_callback_sql eng m d (map fst ss) st1)))))"

end
