(* ===== verification/UnitOutcome.thy ===== *)
theory UnitOutcome
  imports Engine
begin

text \<open>
  What the database has gained once the engine has run a unit, over any provider that keeps the
  contract of \<open>transactional_provider\<close>: all or nothing with the row that says so in a transaction, a
  prefix of the statements and a row that does not claim more outside one.
\<close>

subsection \<open>All or nothing\<close>

lemma on_conn_eq: "on_conn f st = (fst (f (us_conn st)), st\<lparr>us_conn := snd (f (us_conn st))\<rparr>)"
  by (simp add: on_conn_def split: prod.split)

lemma on_conn_iff: "on_conn f st = (r, st') \<longleftrightarrow> (\<exists>c. f (us_conn st) = (r, c) \<and> st' = st\<lparr>us_conn := c\<rparr>)"
  by (auto simp: on_conn_eq prod_eq_iff)

text \<open>A step that leaves the outcome fields of the result alone.\<close>

definition keeps_result :: "'c unit_state \<Rightarrow> 'c unit_state \<Rightarrow> bool" where
  "keeps_result st st' \<longleftrightarrow> us_error st' = us_error st \<and> us_persisted st' = us_persisted st"

lemma keeps_result_refl [simp, intro]: "keeps_result st st"
  by (simp add: keeps_result_def)

lemma keeps_result_trans [trans]: "keeps_result a b \<Longrightarrow> keeps_result b c \<Longrightarrow> keeps_result a c"
  by (simp add: keeps_result_def)

lemma keeps_result_conn [simp]: "keeps_result st (st\<lparr>us_conn := c\<rparr>)" "keeps_result st (snd (on_conn f st))"
  by (simp_all add: keeps_result_def on_conn_eq)

definition settles :: "('c \<Rightarrow> dbwrite list) \<Rightarrow> ('c \<Rightarrow> dbwrite list) \<Rightarrow> 'c unit_state \<Rightarrow> 'c unit_state \<Rightarrow> bool" where
  "settles saved pending st st' \<longleftrightarrow> keeps_result st st' \<and> ends_or_keeps saved pending (us_conn st) (us_conn st')"

lemma settles_refl [simp, intro]: "settles s p a a"
  by (simp add: settles_def)

lemma settles_trans [trans]: "settles s p a b \<Longrightarrow> settles s p b c \<Longrightarrow> settles s p a c"
  unfolding settles_def by (blast intro: keeps_result_trans ends_or_keeps_trans)

lemma settles_conn: "ends_or_keeps s p (us_conn st) c \<Longrightarrow> settles s p st (st\<lparr>us_conn := c\<rparr>)"
  by (simp add: settles_def)

text \<open>What a script's statements send, in order, and the text sent for one.\<close>

definition sent_by :: "'c engine \<Rightarrow> string \<Rightarrow> string" where
  "sent_by eng s = (if ee_service eng then sent_form eng s else s)"

definition sendable :: "'c engine \<Rightarrow> bool \<Rightarrow> string list \<Rightarrow> string list" where
  "sendable eng sqlplus ss = map (sent_by eng) (filter (\<lambda>s. sqlplus \<longrightarrow> ee_directive eng s = None) ss)"

text \<open>What the database has gained: first the transaction in progress, all or none of it, then \<open>ws\<close>.\<close>

definition gains :: "('c \<Rightarrow> dbwrite list) \<Rightarrow> ('c \<Rightarrow> dbwrite list) \<Rightarrow> dbwrite list \<Rightarrow> 'c \<Rightarrow> 'c \<Rightarrow> bool" where
  "gains saved pending ws c c' \<longleftrightarrow>
     (saved c' = saved c @ ws \<or> saved c' = saved c @ pending c @ ws)
     \<and> (pending c' = [] \<or> ws = [] \<and> saved c' = saved c \<and> pending c' = pending c)"

lemma gains_trans:
  "gains saved pending ws a b \<Longrightarrow> gains saved pending vs b c \<Longrightarrow> gains saved pending (ws @ vs) a c"
  by (auto simp: gains_def)

lemma gains_Nil: "ends_or_keeps saved pending a b \<Longrightarrow> gains saved pending [] a b"
  by (auto simp: gains_def ends_or_keeps_def)

lemma then_do_iff: "then_do x f = (r, st') \<longleftrightarrow> (case x of (None, st) \<Rightarrow> f st = (r, st') | (Some e, st) \<Rightarrow> r = Some e \<and> st' = st)"
  by (auto simp: then_do_def split: prod.split option.split)

lemma note_journal_simps [simp]:
  "us_conn (note_journal f st) = us_conn st" "us_error (note_journal f st) = us_error st"
  "us_persisted (note_journal f st) = us_persisted st"
  by (simp_all add: note_journal_def)

lemma record_complete_simps [simp]:
  "us_conn (record_complete eng s i n st) = us_conn st" "us_error (record_complete eng s i n st) = us_error st"
  "us_persisted (record_complete eng s i n st) = us_persisted st"
  by (simp_all add: record_complete_def Let_def)

text \<open>The provider call behind a statement.\<close>

definition statement_call :: "'c engine \<Rightarrow> bool \<Rightarrow> string \<Rightarrow> 'c \<Rightarrow> (exc + int) \<times> 'c" where
  "statement_call eng autocommit s =
     (if ee_service eng \<and> ee_class eng s = ClassQuery then pv_query (ee_provider eng) s
      else provider_execute eng autocommit (if ee_service eng then ee_service_schema eng else None) (sent_by eng s))"

lemma execute_one_cases:
  assumes "execute_one eng s i autocommit st = (r, st')"
  obtains (refused) st1 e where "check_state eng i st = (r, st1)" "r = Some e" "us_conn st' = us_conn st1"
      "keeps_result st1 st'"
    | (unprepared) st1 e where "check_state eng i st = (None, st1)" "r = Some e" "us_conn st' = us_conn st1"
      "keeps_result st1 st'"
    | (sent) st1 n where "check_state eng i st = (None, st1)" "r = None"
      "statement_call eng autocommit s (us_conn st1) = (Inr n, us_conn st')" "keeps_result st1 st'"
    | (failed) st1 e where "check_state eng i st = (None, st1)" "r = Some e"
      "statement_call eng autocommit s (us_conn st1) = (Inl e, us_conn st')" "keeps_result st1 st'"
proof -
  obtain r1 st1 where c: "check_state eng i st = (r1, st1)" by fastforce
  show thesis
  proof (cases r1)
    case (Some e)
    then show thesis using refused c assms by (auto simp: execute_one_def then_do_iff)
  next
    case None
    with c assms have x: "(if ee_service eng then service_execute eng s i autocommit else direct_execute eng s autocommit) st1 = (r, st')"
      by (auto simp: execute_one_def then_do_iff)
    show thesis
    proof (cases "ee_service eng \<and> ee_analysis eng \<noteq> None")
      case True
      then obtain e where "ee_analysis eng = Some e" by auto
      then show thesis using unprepared [of st1 e] c None x True by (auto simp: service_execute_def)
    next
      case False
      obtain q d where q: "statement_call eng autocommit s (us_conn st1) = (q, d)" by fastforce
      show thesis
        using x c None False q
        by (cases q) (auto simp: statement_call_def sent_by_def service_execute_def direct_execute_def Let_def
            sent_form_def on_conn_eq keeps_result_def split: if_splits intro: sent failed)
    qed
  qed
qed

text \<open>What a unit may leave behind, over what was saved before it: nothing, everything, or the row of
  its failure. Without an error everything is there; a persisted failure is the only thing there.\<close>

definition all_or_nothing ::
  "('c \<Rightarrow> dbwrite list) \<Rightarrow> migration \<Rightarrow> dbwrite list \<Rightarrow> dbwrite list \<Rightarrow> exc option \<Rightarrow> 'c unit_state \<Rightarrow> bool" where
  "all_or_nothing saved m full X r st \<longleftrightarrow>
     (if r = None \<and> us_error st = None then saved (us_conn st) = X @ full \<and> us_persisted st = None
      else if us_persisted st = Some True then saved (us_conn st) = X @ [Row (script_name m) False]
      else saved (us_conn st) \<in> {X, X @ full, X @ [Row (script_name m) False]})"

definition history_rows :: "'c engine \<Rightarrow> migration \<Rightarrow> dbwrite list" where
  "history_rows eng m = (if ee_history eng then [Row (script_name m) True] else [])"

definition uses_sqlplus :: "'c engine \<Rightarrow> migration \<Rightarrow> bool" where
  "uses_sqlplus eng m = ee_sqlplus eng (ee_substitute eng (content m))"

text \<open>The statements a SQL script sends: all of them, or with \<open>WHENEVER SQLERROR CONTINUE\<close> those that
  did not fail.\<close>

definition script_writes :: "'c engine \<Rightarrow> migration \<Rightarrow> string list \<Rightarrow> dbwrite list \<Rightarrow> bool" where
  "script_writes eng m ss ws \<longleftrightarrow>
     (\<exists>done. ws = map Stmt done
        \<and> (if uses_sqlplus eng m then subseq done (sendable eng True ss) else done = map (sent_by eng) ss))"

lemma sendable_plain: "sendable eng False ss = map (sent_by eng) ss"
  by (simp add: sendable_def)

lemma script_writes_exist: "\<exists>ws. script_writes eng m ss ws"
  by (auto simp: script_writes_def)

text \<open>Whether a unit is run outside a transaction, and what it writes.\<close>

definition unit_plan :: "'c engine \<Rightarrow> migration \<Rightarrow> (decision \<times> string list) option" where
  "unit_plan eng m =
     (case prepare_sql_statements eng m of
        Inl _ \<Rightarrow> None
      | Inr ss \<Rightarrow> (case plan_sql_execution eng ss of Inl _ \<Rightarrow> None | Inr d \<Rightarrow> Some (d, map fst ss)))"

definition runs_autocommit :: "'c engine \<Rightarrow> migration \<Rightarrow> bool" where
  "runs_autocommit eng m \<longleftrightarrow> format m = FSQL
     \<and> (case unit_plan eng m of Some (d, ss) \<Rightarrow> td_autocommit_required d \<and> \<not> td_unsupported_mixed d | None \<Rightarrow> False)"

definition unit_writes :: "'c engine \<Rightarrow> migration \<Rightarrow> dbwrite list \<Rightarrow> bool" where
  "unit_writes eng m ws \<longleftrightarrow>
     (if format m \<noteq> FSQL then True
      else (case unit_plan eng m of Some (d, ss) \<Rightarrow> script_writes eng m ss ws | None \<Rightarrow> True))"

lemma unit_writes_exist: "\<exists>ws. unit_writes eng m ws"
  using script_writes_exist by (cases "unit_plan eng m") (auto simp: unit_writes_def split: prod.split)

lemma planned_transactional:
  assumes "unit_plan eng m = Some (d, ss)" "pv_transactional (ee_provider eng)" "\<not> td_unsupported_mixed d"
  shows "td_transactional d \<longleftrightarrow> \<not> td_autocommit_required d"
  using assms by (auto simp: unit_plan_def plan_sql_execution_def rbind_Inl_iff split: sum.splits)

text \<open>What a unit outside a transaction leaves behind: statements it sent, in order, and one row that
  tells the truth about them.\<close>

definition in_order_with_row ::
  "('c \<Rightarrow> dbwrite list) \<Rightarrow> 'c engine \<Rightarrow> migration \<Rightarrow> string list \<Rightarrow> dbwrite list \<Rightarrow> exc option \<Rightarrow> 'c unit_state \<Rightarrow> bool" where
  "in_order_with_row saved eng m ss X r st \<longleftrightarrow>
     (\<exists>done rows. saved (us_conn st) = X @ map Stmt done @ rows
        \<and> subseq done (sendable eng (uses_sqlplus eng m) ss)
        \<and> (if uses_sqlplus eng m then True else prefix done (map (sent_by eng) ss))
        \<and> (if r = None \<and> us_error st = None
           then rows = history_rows eng m \<and> (if uses_sqlplus eng m then True else done = map (sent_by eng) ss)
           else if r = None then rows \<in> {[], [Row (script_name m) False]}
           else rows = [] \<or> rows = history_rows eng m \<and> (if uses_sqlplus eng m then True else done = map (sent_by eng) ss)))"

text \<open>No statement is read as a query, which the service would send without autocommit.\<close>

definition no_queries :: "'c engine \<Rightarrow> string list \<Rightarrow> bool" where
  "no_queries eng ss \<longleftrightarrow> list_all (\<lambda>s. \<not> (ee_service eng \<and> ee_class eng s = ClassQuery)) ss"

locale engine_on_provider = transactional_provider p saved pending
  for p :: "'c provider" and saved :: "'c \<Rightarrow> dbwrite list" and pending :: "'c \<Rightarrow> dbwrite list" +
  fixes eng :: "'c engine"
  assumes runs_on: "ee_provider eng = p"
begin

lemma if_transactional_on: "if_transactional eng f st = on_conn (f p) st"
  by (simp add: if_transactional_def runs_on transactional)

lemma apply_configured_schema_settles:
  assumes "apply_configured_schema eng st = (r, st')"
  shows "settles saved pending st st'"
  using assms set_schema_any
  by (auto simp: apply_configured_schema_def runs_on on_conn_iff intro!: settles_conn split: if_splits)

lemma apply_configured_schema_open:
  assumes "apply_configured_schema eng st = (r, st')" "pv_open p (us_conn st)"
  shows "pv_open p (us_conn st') \<and> unchanged saved pending (us_conn st) (us_conn st')"
  using assms set_schema_open by (auto simp: apply_configured_schema_def runs_on on_conn_iff split: if_splits)

lemma rollback_settles:
  "settles saved pending st (snd (if_transactional eng pv_rollback st))"
  "saved (us_conn (snd (if_transactional eng pv_rollback st))) = saved (us_conn st)"
  using rollback_any [of "us_conn st" "fst (pv_rollback p (us_conn st))" "snd (pv_rollback p (us_conn st))"]
    rollback_ends [of "us_conn st"]
  by (auto simp: if_transactional_on on_conn_eq intro!: settles_conn)

lemma roll_back_leftover_settles: "settles saved pending st (roll_back_leftover eng st)"
proof -
  obtain r c where rb: "pv_rollback p (us_conn st) = (r, c)" by fastforce
  then have c: "ends_or_keeps saved pending (us_conn st) c" using rollback_ends [of "us_conn st"] by simp
  moreover have "unchanged saved pending c (pv_reset_cache p c)" using reset_cache_any by blast
  ultimately have "ends_or_keeps saved pending (us_conn st) (pv_reset_cache p c)"
    by (rule ends_or_keeps_trans [OF _ unchanged_ends_or_keeps])
  then show ?thesis
    using rb c by (auto simp: roll_back_leftover_def Let_def runs_on on_conn_eq reset_schema_cache_def
        intro!: settles_conn split: sum.split bool.split option.split)
qed

lemma begin_settles:
  assumes "if_transactional eng pv_begin st = (r, st')"
  shows "settles saved pending st st'" "saved (us_conn st') = saved (us_conn st)"
    "r = None \<Longrightarrow> pv_open p (us_conn st') \<and> pending (us_conn st') = []"
proof -
  obtain c where c: "pv_begin p (us_conn st) = (r, c)" "st' = st\<lparr>us_conn := c\<rparr>"
    using assms by (auto simp: if_transactional_on on_conn_iff)
  have "unchanged saved pending (us_conn st) c" "r = None \<Longrightarrow> pv_open p c \<and> pending c = []"
    using c(1) begin_ok begin_fails by (cases r; blast)+
  then show "settles saved pending st st'" "saved (us_conn st') = saved (us_conn st)"
    "r = None \<Longrightarrow> pv_open p (us_conn st') \<and> pending (us_conn st') = []"
    using c(2) by (simp_all add: settles_conn unchanged_ends_or_keeps unchanged_def)
qed

lemma prepare_transaction_settles:
  assumes "prepare_transaction eng st = (ok, st')"
  shows "settles saved pending st st' \<and> (ok \<longrightarrow> pv_open p (us_conn st') \<and> pending (us_conn st') = [])"
proof -
  obtain r1 st1 where s1: "(if pv_caller_owned p then on_conn (pv_commit_caller_work p) st else (None, st)) = (r1, st1)"
    by fastforce
  then have st1: "settles saved pending st st1"
    using commit_caller_work_any by (auto simp: on_conn_iff intro!: settles_conn split: if_splits)
  obtain r3 st3 where s3: "if_transactional eng pv_begin (roll_back_leftover eng st1) = (r3, st3)" by fastforce
  obtain r4 st4 where s4: "apply_configured_schema eng st3 = (r4, st4)" by fastforce
  have st3: "settles saved pending st st3"
    by (rule settles_trans [OF settles_trans [OF st1 roll_back_leftover_settles] begin_settles(1) [OF s3]])
  have st4: "settles saved pending st st4"
    by (rule settles_trans [OF st3 apply_configured_schema_settles [OF s4]])
  note unfold = assms [unfolded prepare_transaction_def runs_on Let_def if_not_P [OF not_not [THEN iffD2, OF transactional]]]
  consider e where "r1 = Some e" | e where "r1 = None" "r3 = Some e" | e where "r1 = None" "r3 = None" "r4 = Some e"
    | "r1 = None" "r3 = None" "r4 = None" by (cases r1; cases r3; cases r4) auto
  then show ?thesis
  proof cases
    case 1
    then show ?thesis using unfold s1 st1 by auto
  next
    case 2
    then show ?thesis using unfold s1 s3 st3 by (auto simp: if_transactional_on)
  next
    case 3
    then have "ok = False" "st' = snd (if_transactional eng pv_rollback st4)"
      using unfold s1 s3 s4 by (auto simp: if_transactional_on)
    then show ?thesis using settles_trans [OF st4 rollback_settles(1)] by simp
  next
    case 4
    then have "ok = True" "st' = st4" using unfold s1 s3 s4 by (auto simp: if_transactional_on)
    then show ?thesis
      using st4 begin_settles(3) [OF s3] apply_configured_schema_open [OF s4] 4 by (auto simp: unchanged_def)
  qed
qed

lemma check_state_settles:
  assumes "check_state eng i st = (r, st')"
  shows "settles saved pending st st'"
    "pv_open p (us_conn st) \<Longrightarrow> pv_open p (us_conn st') \<and> unchanged saved pending (us_conn st) (us_conn st')"
proof -
  obtain q d where q: "pv_check p (us_conn st) = (q, d)" by fastforce
  then have "st' = st\<lparr>us_conn := d\<rparr>"
    using assms by (auto simp: check_state_def if_transactional_on on_conn_eq split: option.splits)
  then show "settles saved pending st st'"
    "pv_open p (us_conn st) \<Longrightarrow> pv_open p (us_conn st') \<and> unchanged saved pending (us_conn st) (us_conn st')"
    using check_any [OF q] check_open [OF _ q] by (simp_all add: settles_conn)
qed

lemma statement_call_open:
  assumes "pv_open p c" "statement_call eng False s c = (q, c')"
  shows "pv_open p c' \<and> saved c' = saved c
    \<and> pending c' = pending c @ (case q of Inr n \<Rightarrow> [Stmt (sent_by eng s)] | Inl e \<Rightarrow> [])"
  using assms
  by (cases q) (auto simp: statement_call_def runs_on provider_execute_def sent_by_def sent_form_def unchanged_def
      split: if_splits dest: execute_ok execute_fails query_ok query_fails)

lemma execute_one_open:
  assumes "execute_one eng s i False st = (r, st')" "pv_open p (us_conn st)"
  shows "keeps_result st st' \<and> pv_open p (us_conn st') \<and> saved (us_conn st') = saved (us_conn st)
    \<and> pending (us_conn st') = pending (us_conn st) @ (if r = None then [Stmt (sent_by eng s)] else [])"
  using assms(1)
proof (cases rule: execute_one_cases)
  case (refused st1 e)
  then show ?thesis
    using check_state_settles [OF refused(1)] assms(2) by (auto simp: settles_def unchanged_def intro: keeps_result_trans)
next
  case (unprepared st1 e)
  then show ?thesis
    using check_state_settles [OF unprepared(1)] assms(2) by (auto simp: settles_def unchanged_def intro: keeps_result_trans)
next
  case (sent st1 n)
  then show ?thesis
    using check_state_settles [OF sent(1)] assms(2) statement_call_open [of "us_conn st1" s "Inr n" "us_conn st'"]
    by (auto simp: settles_def unchanged_def intro: keeps_result_trans)
next
  case (failed st1 e)
  then show ?thesis
    using check_state_settles [OF failed(1)] assms(2) statement_call_open [of "us_conn st1" s "Inl e" "us_conn st'"]
    by (auto simp: settles_def unchanged_def intro: keeps_result_trans)
qed

lemma run_statements_open:
  assumes "run_statements eng sqlplus False policy i ss st = (r, st')" "pv_open p (us_conn st)"
  shows "keeps_result st st' \<and> pv_open p (us_conn st') \<and> saved (us_conn st') = saved (us_conn st)
    \<and> (\<exists>done. pending (us_conn st') = pending (us_conn st) @ map Stmt done \<and> subseq done (sendable eng sqlplus ss)
        \<and> (if sqlplus then True else prefix done (sendable eng sqlplus ss) \<and> (r = None \<longrightarrow> done = sendable eng sqlplus ss)))"
  using assms
proof (induction ss arbitrary: st i policy)
  case Nil
  then show ?case by (auto simp: sendable_def)
next
  case (Cons s ss)
  show ?case
  proof (cases "if sqlplus then ee_directive eng s else None")
    case (Some policy')
    then have "sendable eng sqlplus (s # ss) = sendable eng sqlplus ss" "sqlplus"
      by (auto simp: sendable_def split: if_splits)
    then show ?thesis using Cons.IH [of policy' "Suc i" st] Cons.prems Some by simp
  next
    case None
    then have sendable: "sendable eng sqlplus (s # ss) = sent_by eng s # sendable eng sqlplus ss"
      by (auto simp: sendable_def)
    obtain r1 st1 where one: "execute_one eng s i False st = (r1, st1)" by fastforce
    note s1 = execute_one_open [OF one Cons.prems(2)]
    show ?thesis
    proof (cases "case r1 of None \<Rightarrow> True | Some e \<Rightarrow> sqlplus \<and> policy = ''continue'' \<and> skippable e")
      case True
      then have "run_statements eng sqlplus False policy (Suc i) ss st1 = (r, st')"
        using Cons.prems(1) None one by (auto split: option.splits)
      from Cons.IH [OF this] s1 obtain "done" where d: "keeps_result st st'" "pv_open p (us_conn st')"
        "saved (us_conn st') = saved (us_conn st)" "subseq done (sendable eng sqlplus ss)"
        "pending (us_conn st') = pending (us_conn st1) @ map Stmt done"
        "if sqlplus then True else prefix done (sendable eng sqlplus ss) \<and> (r = None \<longrightarrow> done = sendable eng sqlplus ss)"
        by (auto intro: keeps_result_trans)
      show ?thesis
      proof (cases r1)
        case None
        then show ?thesis using d s1 sendable by (intro conjI exI [of _ "sent_by eng s # done"]) auto
      next
        case (Some e)
        then show ?thesis using d s1 sendable True by (intro conjI exI [of _ "done"]) auto
      qed
    next
      case False
      then obtain e where "r1 = Some e" "r = Some (i, e)" "st' = st1"
        using Cons.prems(1) None one by (auto split: option.splits)
      then show ?thesis using s1 sendable by (intro conjI exI [of _ "[]"]) auto
    qed
  qed
qed

lemma finish_settles:
  assumes "on_conn (pv_finish p ss) st = (r, st')"
  shows "settles saved pending st st'" "unchanged saved pending (us_conn st) (us_conn st')"
    "pv_open p (us_conn st') = pv_open p (us_conn st)"
  using assms finish_any by (auto simp: on_conn_iff intro!: settles_conn unchanged_ends_or_keeps)

lemma execute_statements_open:
  assumes "execute_statements eng sqlplus False ss st = (r, st')" "pv_open p (us_conn st)"
  shows "keeps_result st st' \<and> pv_open p (us_conn st') \<and> saved (us_conn st') = saved (us_conn st)
    \<and> (\<exists>done. pending (us_conn st') = pending (us_conn st) @ map Stmt done \<and> subseq done (sendable eng sqlplus ss)
        \<and> (if sqlplus then True else prefix done (sendable eng sqlplus ss) \<and> (r = None \<longrightarrow> done = sendable eng sqlplus ss)))"
proof -
  obtain r1 st1 where run: "run_statements eng sqlplus False ''exit'' 0 ss st = (r1, st1)" by fastforce
  note s1 = run_statements_open [OF run assms(2)]
  show ?thesis
  proof (cases r1)
    case (Some x)
    then show ?thesis using assms(1) run s1 by (auto simp: execute_statements_def)
  next
    case None
    obtain r2 st2 where fin: "on_conn (pv_finish p ss) st1 = (r2, st2)" by fastforce
    then have "st' = st2" using assms(1) run None by (auto simp: execute_statements_def runs_on split: option.splits)
    then show ?thesis
      using s1 None finish_settles [OF fin] by (auto simp: settles_def unchanged_def intro: keeps_result_trans)
  qed
qed

lemma record_step_open:
  assumes "record_migration eng m ok time st = (r, st')" "pv_open p (us_conn st)"
  shows "keeps_result st st' \<and> pv_open p (us_conn st') \<and> saved (us_conn st') = saved (us_conn st)
    \<and> pending (us_conn st') = pending (us_conn st) @ (if r = None then [Row (script_name m) ok] else [])"
proof -
  obtain c where c: "pv_record p (new_history_row (ee_installed_by eng) m ok time) (us_conn st) = (r, c)" "st' = st\<lparr>us_conn := c\<rparr>"
    using assms(1) by (auto simp: record_migration_def runs_on on_conn_iff)
  then show ?thesis
    using assms(2)
    by (cases r) (auto simp: new_history_row_def unchanged_def dest: record_ok record_fails)
qed

lemma commit_step:
  assumes "if_transactional eng pv_commit st = (r, st')" "pv_open p (us_conn st)"
  shows "settles saved pending st st'"
    "r = None \<Longrightarrow> saved (us_conn st') = saved (us_conn st) @ pending (us_conn st) \<and> pending (us_conn st') = []"
proof -
  obtain c where c: "pv_commit p (us_conn st) = (r, c)" "st' = st\<lparr>us_conn := c\<rparr>"
    using assms(1) by (auto simp: if_transactional_on on_conn_iff)
  have "ends_or_keeps saved pending (us_conn st) c"
    using c(1) commit_ok [OF assms(2)] commit_fails by (cases r) (auto simp: ends_or_keeps_def)
  then show "settles saved pending st st'" using c(2) by (simp add: settles_conn)
  show "r = None \<Longrightarrow> saved (us_conn st') = saved (us_conn st) @ pending (us_conn st) \<and> pending (us_conn st') = []"
    using c commit_ok [OF assms(2)] by simp
qed

text \<open>A failure leaves at most its own row.\<close>

lemma record_failure_row:
  "us_error (record_failure eng m time st) = us_error st
   \<and> (saved (us_conn (record_failure eng m time st)) = saved (us_conn st) \<and> us_persisted (record_failure eng m time st) \<in> {us_persisted st, Some False}
      \<or> saved (us_conn (record_failure eng m time st)) = saved (us_conn st) @ [Row (script_name m) False])"
proof (cases "ee_history eng")
  case True
  obtain r1 st1 where s1: "if_transactional eng pv_begin st = (r1, st1)" by fastforce
  note b = begin_settles [OF s1]
  obtain r2 st2 where s2: "record_migration eng m False time st1 = (r2, st2)" by fastforce
  note rec = record_step_open [OF s2]
  obtain r3 st3 where s3: "if_transactional eng pv_commit st2 = (r3, st3)" by fastforce
  note com = commit_step [OF s3]
  obtain r x where x: "then_do (then_do (if_transactional eng pv_begin st) (record_migration eng m False time))
      (if_transactional eng pv_commit) = (r, x)" by fastforce
  have gained: "us_error x = us_error st \<and> us_persisted x = us_persisted st \<and> (saved (us_conn x) = saved (us_conn st) \<and> r \<noteq> None
      \<or> saved (us_conn x) = saved (us_conn st) @ [Row (script_name m) False])"
  proof (cases r1)
    case (Some e)
    then show ?thesis using x s1 b by (auto simp: then_do_def settles_def keeps_result_def)
  next
    case begun: None
    then have open1: "pv_open p (us_conn st1)" "pending (us_conn st1) = []" using b(3) by auto
    note rec = rec [OF open1(1)]
    show ?thesis
    proof (cases r2)
      case (Some e)
      then show ?thesis using x s1 s2 begun b rec by (auto simp: then_do_def settles_def keeps_result_def)
    next
      case None
      note com = com [OF rec [THEN conjunct2, THEN conjunct1]]
      have "r = r3" "x = st3" using x s1 s2 s3 begun None by (auto simp: then_do_def)
      then show ?thesis
        using com rec b open1 None by (cases r3) (auto simp: settles_def keeps_result_def ends_or_keeps_def)
    qed
  qed
  show ?thesis
  proof (cases r)
    case None
    then show ?thesis using gained x True by (auto simp: record_failure_def)
  next
    case (Some e)
    let ?y = "x\<lparr>us_persisted := Some False,
      us_warnings := us_warnings x @ [''Failed migration was not persisted to history: '' @ exc_text e]\<rparr>"
    have "record_failure eng m time st = snd (if_transactional eng pv_rollback ?y)"
      using Some x True by (simp add: record_failure_def)
    then show ?thesis using gained rollback_settles [of ?y] by (auto simp: settles_def keeps_result_def)
  qed
qed (simp add: record_failure_def)

lemma handle_statement_failure_row:
  assumes "handle_statement_failure eng m x st = st'" "us_persisted st = None" "saved (us_conn st) = X"
  shows "all_or_nothing saved m full X None st'"
proof -
  define st2 where "st2 = (fail_with (''Failed to execute statement '' @ digits_of_nat (fst x + 1) @ '' in '' @ script_name m
    @ '': '' @ ee_text eng (snd x)) st)\<lparr>us_rows := us_rows st @ [failed_info m (type_name (mtype m)) (ee_time eng (us_conn st)) (checksum m)]\<rparr>"
  define st3 where "st3 = snd (if_transactional eng pv_rollback st2)"
  define st4 where "st4 = (if pv_transactional p \<and> \<not> pv_transactional_ddl p
    then st3\<lparr>us_warnings := us_warnings st3 @ [ddl_warning]\<rparr> else st3)"
  have st': "st' = record_failure eng m (ee_time eng (us_conn st)) st4"
    using assms(1) by (auto simp: handle_statement_failure_def Let_def fail_with_def ignoring_def runs_on st2_def st3_def st4_def)
  have "saved (us_conn st4) = X" "us_error st4 \<noteq> None" "us_persisted st4 = None"
    using rollback_settles [of st2] assms(2,3)
    by (auto simp: st4_def st3_def st2_def fail_with_def settles_def keeps_result_def)
  then show ?thesis
    using record_failure_row [of m "ee_time eng (us_conn st)" st4] by (auto simp: st' all_or_nothing_def)
qed

lemma handle_statement_failure_error:
  assumes "handle_statement_failure eng m x st = st'"
  shows "us_error st' \<noteq> None"
proof -
  have "us_error (record_failure eng m t s) = us_error s" for t s using record_failure_row by blast
  moreover have "us_error (snd (if_transactional eng pv_rollback s)) = us_error s" for s
    using rollback_settles(1) [of s] by (auto simp: settles_def keeps_result_def)
  ultimately show ?thesis
    using assms by (auto simp: handle_statement_failure_def Let_def fail_with_def ignoring_def)
qed

lemma run_sql_unit_open:
  assumes run: "run_sql_unit eng m d ss st = (r, st')" and d: "td_transactional d" "\<not> td_autocommit_required d"
    and open_st: "pv_open p (us_conn st)" "pending (us_conn st) = []" "us_error st = None" "us_persisted st = None"
  shows "\<exists>ws. script_writes eng m ss ws \<and> all_or_nothing saved m (ws @ history_rows eng m) (saved (us_conn st)) r st'"
proof -
  let ?X = "saved (us_conn st)"
  obtain r1 st1 where ex: "execute_statements eng (uses_sqlplus eng m) False ss st = (r1, st1)" by fastforce
  from execute_statements_open [OF ex open_st(1)] open_st(2) obtain "done" where s1: "keeps_result st st1"
    "pv_open p (us_conn st1)" "saved (us_conn st1) = ?X" "pending (us_conn st1) = [] @ map Stmt done"
    "subseq done (sendable eng (uses_sqlplus eng m) ss)"
    "if uses_sqlplus eng m then True else prefix done (sendable eng (uses_sqlplus eng m) ss)
       \<and> (r1 = None \<longrightarrow> done = sendable eng (uses_sqlplus eng m) ss)"
    by metis
  show ?thesis
  proof (cases r1)
    case (Some x)
    then have r: "r = None" "st' = handle_statement_failure eng m x st1"
      using run ex d by (auto simp: run_sql_unit_def uses_sqlplus_def)
    obtain ws where "script_writes eng m ss ws" using script_writes_exist by blast
    then show ?thesis
      using handle_statement_failure_row [OF r(2) [symmetric], of ?X "ws @ history_rows eng m"] s1 open_st r
      by (auto simp: keeps_result_def)
  next
    case None
    have writes: "script_writes eng m ss (map Stmt done)" using s1 None by (auto simp: script_writes_def sendable_plain split: if_splits)
    have rest: "then_do (record_migration_history eng m (ee_time eng (us_conn st1)) st1) (if_transactional eng pv_commit) = (r, st')"
      using run ex d None by (simp add: run_sql_unit_def uses_sqlplus_def Let_def)
    obtain r2 st2 where rec: "record_migration eng m True (ee_time eng (us_conn st1)) st1 = (r2, st2)" by fastforce
    note s2 = record_step_open [OF rec s1(2)]
    consider (lost) e where "ee_history eng" "r2 = Some e" "r = Some e" "st' = snd (if_transactional eng pv_rollback st2)"
      | (kept) st3 where "pv_open p (us_conn st3)" "keeps_result st st3" "saved (us_conn st3) = ?X"
          "pending (us_conn st3) = map Stmt done @ history_rows eng m" "if_transactional eng pv_commit st3 = (r, st')"
      using rest rec s1 s2
      by (cases "ee_history eng"; cases r2)
        (auto simp: record_migration_history_def then_do_def ignoring_def history_rows_def intro: keeps_result_trans)
    then show ?thesis
    proof cases
      case lost
      then have "saved (us_conn st') = ?X" "us_persisted st' = None"
        using rollback_settles [of st2] s2 s1 open_st by (auto simp: settles_def keeps_result_def)
      then show ?thesis using writes lost by (auto simp: all_or_nothing_def)
    next
      case kept
      note c = commit_step [OF kept(5,1)]
      have "us_error st' = None" "us_persisted st' = None"
        using c(1) kept(2) open_st by (auto simp: settles_def keeps_result_def)
      then show ?thesis
        using writes c kept(3,4)
        by (cases r) (auto simp: all_or_nothing_def settles_def ends_or_keeps_def intro!: exI [of _ "map Stmt done"])
    qed
  qed
qed

lemma all_or_nothing_keeps:
  assumes "all_or_nothing saved m full X (Some e) st" "saved (us_conn st') = saved (us_conn st)" "keeps_result st st'"
  shows "all_or_nothing saved m full X (Some e) st'"
  using assms by (auto simp: all_or_nothing_def keeps_result_def)

lemma settles_base: "settles saved pending st st' \<Longrightarrow>
  saved (us_conn st') = saved (us_conn st) \<or> saved (us_conn st') = saved (us_conn st) @ pending (us_conn st)"
  by (auto simp: settles_def ends_or_keeps_def)

lemma nothing_done:
  assumes "settles saved pending st st1" "us_error st = None" "us_persisted st = None"
    "saved (us_conn st') = saved (us_conn st1)" "us_persisted st' = None" "r = None \<Longrightarrow> us_error st' \<noteq> None"
  shows "\<exists>X. (X = saved (us_conn st) \<or> X = saved (us_conn st) @ pending (us_conn st)) \<and> all_or_nothing saved m full X r st'"
  using assms settles_base [OF assms(1)] by (intro exI [of _ "saved (us_conn st1)"]) (auto simp: all_or_nothing_def)

lemma run_planned_transactional:
  assumes run: "run_planned eng m d ss st = (r, st')" and d: "td_transactional d" "\<not> td_autocommit_required d"
    and fresh: "us_error st = None" "us_persisted st = None"
  shows "\<exists>ws X. script_writes eng m ss ws \<and> (X = saved (us_conn st) \<or> X = saved (us_conn st) @ pending (us_conn st))
    \<and> all_or_nothing saved m (ws @ history_rows eng m) X r st'"
proof -
  obtain ok st1 where prep: "prepare_transaction eng st = (ok, st1)" by fastforce
  note s1 = prepare_transaction_settles [OF prep]
  have f1: "us_error st1 = None" "us_persisted st1 = None" using s1 fresh by (auto simp: settles_def keeps_result_def)
  show ?thesis
  proof (cases ok)
    case False
    then have "r = None" "st' = fail_with (begin_failed m) st1" using run prep d by (auto simp: run_planned_def)
    then show ?thesis
      using script_writes_exist [of eng m ss] nothing_done [of st st1 st' r m] s1 fresh f1
      by (fastforce simp: fail_with_def)
  next
    case True
    obtain r2 st2 where unit: "run_sql_unit eng m d ss st1 = (r2, st2)" by fastforce
    from run_sql_unit_open [OF unit d] s1 True f1 obtain ws where
      ws: "script_writes eng m ss ws" "all_or_nothing saved m (ws @ history_rows eng m) (saved (us_conn st1)) r2 st2" by auto
    have "all_or_nothing saved m (ws @ history_rows eng m) (saved (us_conn st1)) r st'"
    proof (cases r2)
      case None
      then show ?thesis using ws run prep unit d True by (auto simp: run_planned_def)
    next
      case (Some e)
      then have "r = Some e" "st' = snd (if_transactional eng pv_rollback st2)"
        using run prep unit d True by (auto simp: run_planned_def ignoring_def)
      then show ?thesis
        using all_or_nothing_keeps [of m _ _ e st2] ws Some rollback_settles [of st2] by (auto simp: settles_def)
    qed
    then show ?thesis using ws(1) settles_base [of st st1] s1 by blast
  qed
qed

lemma roll_back_started_eq: "roll_back_started eng st = snd (if_transactional eng pv_rollback st)"
  by (simp add: roll_back_started_def ignoring_def)

lemma failed_and_rolled_back:
  assumes "saved (us_conn st) \<in> {X, X @ full}" "us_persisted st = None"
  shows "all_or_nothing saved m full X None (roll_back_started eng (fail_with t st))"
  using assms rollback_settles [of "fail_with t st"]
  by (auto simp: all_or_nothing_def roll_back_started_eq settles_def keeps_result_def fail_with_def)

lemma script_succeeded_outcome:
  assumes "pv_open p (us_conn st)" "us_error st = None" "us_persisted st = None"
    "saved (us_conn st) = X" "pending (us_conn st) = ws"
  shows "all_or_nothing saved m (ws @ history_rows eng m) X None (script_succeeded eng m time st)"
proof -
  obtain r1 st1 where s1: "(if ee_history eng then record_migration eng m True time st else (None, st)) = (r1, st1)" by fastforce
  have keep1: "keeps_result st st1 \<and> pv_open p (us_conn st1) \<and> saved (us_conn st1) = X"
    "r1 = None \<Longrightarrow> pending (us_conn st1) = ws @ history_rows eng m"
    using s1 record_step_open [of m True time st r1 st1] assms by (auto simp: history_rows_def split: if_splits)
  obtain r2 st2 where s2: "if_transactional eng pv_commit st1 = (r2, st2)" by fastforce
  note c = commit_step [OF s2]
  have p1: "us_persisted st1 = None" "us_error st1 = None" using keep1 assms by (auto simp: keeps_result_def)
  show ?thesis
  proof (cases r1)
    case (Some e)
    then show ?thesis
      using s1 keep1 p1 failed_and_rolled_back [of st1 X] by (auto simp: script_succeeded_def)
  next
    case None
    then have c: "settles saved pending st1 st2"
      "r2 = None \<Longrightarrow> saved (us_conn st2) = saved (us_conn st1) @ pending (us_conn st1)" using c keep1 by auto
    show ?thesis
    proof (cases r2)
      case (Some e)
      then show ?thesis
        using s1 s2 None c keep1 p1 failed_and_rolled_back [of st2 X "ws @ history_rows eng m"]
        by (auto simp: script_succeeded_def settles_def keeps_result_def ends_or_keeps_def)
    next
      case committed: None
      then show ?thesis
        using s1 s2 None c keep1 p1
        by (auto simp: script_succeeded_def settles_def keeps_result_def all_or_nothing_def)
    qed
  qed
qed

lemma execute_via_factory_outcome:
  assumes run: "execute_via_factory eng m st = st'" and fresh: "us_error st = None" "us_persisted st = None"
  shows "\<exists>ws X. (X = saved (us_conn st) \<or> X = saved (us_conn st) @ pending (us_conn st))
    \<and> all_or_nothing saved m (ws @ history_rows eng m) X None st'"
proof -
  obtain ok st1 where prep: "prepare_transaction eng st = (ok, st1)" by fastforce
  note s1 = prepare_transaction_settles [OF prep]
  have f1: "us_error st1 = None" "us_persisted st1 = None" using s1 fresh by (auto simp: settles_def keeps_result_def)
  show ?thesis
  proof (cases ok)
    case False
    then have "st' = fail_with (begin_failed m) st1"
      using run prep by (auto simp: execute_via_factory_def runs_on transactional)
    then have "saved (us_conn st') = saved (us_conn st1)" "us_persisted st' = None" "us_error st' \<noteq> None"
      using f1 by (auto simp: fail_with_def)
    then show ?thesis using nothing_done [OF _ fresh, of st1 st' None m "[] @ history_rows eng m"] s1 by blast
  next
    case True
    let ?run = "factory_execute (ee_python eng) p
      (check_format_supported (ee_sql_supported eng) (ee_dialect eng) (format m) (script_name m)) (ee_time eng) m"
    obtain q c where q: "?run (us_conn st1) = (q, c)" by fastforce
    let ?st2 = "st1\<lparr>us_conn := c\<rparr>"
    let ?X = "saved (us_conn st1)"
    have o: "pv_open p c" "saved c = ?X" using factory_execute_open [OF _ q] s1 True by auto
    have "st' = (case q of Inl e \<Rightarrow> script_raised eng m e ?st2
        | Inr r \<Rightarrow> if sr_success r then script_succeeded eng m (sr_time r) ?st2 else script_failed eng m r ?st2)"
      using run prep True q by (auto simp: execute_via_factory_def runs_on transactional on_conn_eq split: sum.split)
    moreover have "all_or_nothing saved m (pending c @ history_rows eng m) ?X None (script_succeeded eng m t ?st2)" for t
      using script_succeeded_outcome [of ?st2] o f1 by simp
    moreover have "all_or_nothing saved m full ?X None (script_raised eng m e ?st2)" for e full
      using failed_and_rolled_back [of ?st2 ?X full] o f1 by (simp add: script_raised_def)
    moreover have "all_or_nothing saved m full ?X None (script_failed eng m r ?st2)" for r full
    proof -
      let ?y = "roll_back_started eng (fail_with (if truthy (sr_error r) then the (sr_error r)
        else ''Script execution failed for type '' @ format_label m) ?st2)"
      let ?z = "?y\<lparr>us_rows := us_rows ?y @ [failed_info m (format_label m) (sr_time r) None]\<rparr>"
      have "saved (us_conn ?z) = ?X" "us_error ?z \<noteq> None" "us_persisted ?z = None"
        using rollback_settles [of "fail_with (if truthy (sr_error r) then the (sr_error r)
          else ''Script execution failed for type '' @ format_label m) ?st2"] o f1
        by (auto simp: roll_back_started_eq settles_def keeps_result_def fail_with_def)
      then show ?thesis
        using record_failure_row [of m "sr_time r" ?z] by (auto simp: script_failed_def Let_def all_or_nothing_def)
    qed
    ultimately have "all_or_nothing saved m (pending c @ history_rows eng m) ?X None st'"
      by (cases q) (auto split: if_splits)
    then show ?thesis using settles_base [of st st1] s1 by blast
  qed
qed

lemma execute_unit_cases:
  assumes run: "execute_unit eng m st = (r, st')" and fresh: "us_error st = None" "us_persisted st = None"
  obtains (stopped) st1 where "settles saved pending st st1" "saved (us_conn st') = saved (us_conn st1)"
      "us_persisted st' = None" "r = None \<Longrightarrow> us_error st' \<noteq> None"
    | (planned) st1 d ss where "settles saved pending st st1" "format m = FSQL" "unit_plan eng m = Some (d, ss)"
      "\<not> td_unsupported_mixed d" "run_planned eng m d ss st1 = (r, st')"
    | (script) st1 where "settles saved pending st st1" "format m \<noteq> FSQL" "r = None" "execute_via_factory eng m st1 = st'"
proof -
  let ?s0 = "reset_schema_cache eng st"
  obtain r1 st1 where s1: "apply_configured_schema eng ?s0 = (r1, st1)" by fastforce
  have "settles saved pending st ?s0"
    using reset_cache_any [of "us_conn st"] by (auto simp: reset_schema_cache_def runs_on intro!: settles_conn unchanged_ends_or_keeps)
  then have st1: "settles saved pending st st1"
    using apply_configured_schema_settles [OF s1] by (rule settles_trans)
  then have f1: "us_error st1 = None" "us_persisted st1 = None" using fresh by (auto simp: settles_def keeps_result_def)
  consider e where "ee_pre_check eng = Some e" | e where "ee_pre_check eng = None" "r1 = Some e"
    | "ee_pre_check eng = None" "r1 = None" "format m \<noteq> FSQL" | "ee_pre_check eng = None" "r1 = None" "format m = FSQL"
    by (cases "ee_pre_check eng"; cases r1) auto
  then show thesis
  proof cases
    case 1
    then have "r = Some e" "st' = st" using run by (auto simp: execute_unit_def)
    then show thesis using fresh by (intro stopped [of st]) auto
  next
    case 2
    then have "r = Some e" "st' = st1" using run s1 by (auto simp: execute_unit_def then_do_def)
    then show thesis using st1 f1 by (intro stopped [of st1]) auto
  next
    case 3
    then show thesis using run s1 st1 script [of st1] by (auto simp: execute_unit_def then_do_def)
  next
    case 4
    then have sql: "execute_sql eng m st1 = (r, st')" using run s1 by (auto simp: execute_unit_def then_do_def)
    show thesis
    proof (cases "\<exists>d ss. unit_plan eng m = Some (d, ss) \<and> \<not> td_unsupported_mixed d \<and> run_planned eng m d ss st1 = (r, st')")
      case True
      then show thesis using planned [OF st1 4(3)] by blast
    next
      case False
      then show thesis
        using sql f1 by (intro stopped [OF st1])
          (auto simp: execute_sql_def parse_sql_statements_def unit_plan_def fail_with_def split: option.splits sum.splits if_splits prod.splits)
    qed
  qed
qed

lemma base_through:
  assumes "settles saved pending st st1" "X = saved (us_conn st1) \<or> X = saved (us_conn st1) @ pending (us_conn st1)"
  shows "X = saved (us_conn st) \<or> X = saved (us_conn st) @ pending (us_conn st)"
  using assms by (auto simp: settles_def ends_or_keeps_def)

lemma execute_unit_all_or_nothing:
  assumes run: "execute_unit eng m st = (r, st')" and fresh: "us_error st = None" "us_persisted st = None"
    and trans: "\<not> runs_autocommit eng m"
  shows "\<exists>ws X. unit_writes eng m ws \<and> (X = saved (us_conn st) \<or> X = saved (us_conn st) @ pending (us_conn st))
    \<and> all_or_nothing saved m (ws @ history_rows eng m) X r st'"
  using run fresh
proof (cases rule: execute_unit_cases)
  case (stopped st1)
  then show ?thesis
    using nothing_done [OF stopped(1) fresh stopped(2-4), where m = m] unit_writes_exist [of eng m] by metis
next
  case (planned st1 d ss)
  then have d: "td_transactional d" "\<not> td_autocommit_required d" "us_error st1 = None" "us_persisted st1 = None"
    using trans fresh planned_transactional [of eng m d ss]
    by (auto simp: runs_autocommit_def runs_on transactional settles_def keeps_result_def)
  have "script_writes eng m ss vs \<Longrightarrow> unit_writes eng m vs" for vs
    using planned(2,3) by (simp add: unit_writes_def)
  then show ?thesis using run_planned_transactional [OF planned(5) d] base_through [OF planned(1)] by blast
next
  case (script st1)
  then have f1: "us_error st1 = None" "us_persisted st1 = None" using fresh by (auto simp: settles_def keeps_result_def)
  have "unit_writes eng m vs" for vs using script(2) by (simp add: unit_writes_def)
  then show ?thesis
    using execute_via_factory_outcome [OF script(4) f1] base_through [OF script(1)] script(3) by blast
qed

lemma statement_call_auto:
  assumes "\<not> (ee_service eng \<and> ee_class eng s = ClassQuery)" "statement_call eng True s c = (q, c')"
  shows "gains saved pending [Stmt (sent_by eng s)] c c' \<or> (\<exists>e. q = Inl e) \<and> gains saved pending [] c c'"
proof -
  have "pv_execute_autocommit p (if ee_service eng then ee_service_schema eng else None) (sent_by eng s) c = (q, c')"
    using assms by (auto simp: statement_call_def provider_execute_def runs_on transactional)
  then show ?thesis
    by (cases q) (auto simp: gains_def dest: autocommit_ok autocommit_fails)
qed

lemma execute_one_auto:
  assumes "execute_one eng s i True st = (r, st')" "\<not> (ee_service eng \<and> ee_class eng s = ClassQuery)"
  shows "keeps_result st st' \<and> (gains saved pending [Stmt (sent_by eng s)] (us_conn st) (us_conn st')
    \<or> r \<noteq> None \<and> gains saved pending [] (us_conn st) (us_conn st'))"
proof -
  have checked: "settles saved pending st st1 \<and> gains saved pending [] (us_conn st) (us_conn st1)"
    if "check_state eng i st = (x, st1)" for x st1
    using check_state_settles(1) [OF that] by (auto simp: settles_def gains_Nil)
  show ?thesis
    using assms(1)
  proof (cases rule: execute_one_cases)
    case (refused st1 e)
    then show ?thesis using checked [OF refused(1)] by (auto simp: settles_def intro: keeps_result_trans)
  next
    case (unprepared st1 e)
    then show ?thesis using checked [OF unprepared(1)] by (auto simp: settles_def intro: keeps_result_trans)
  next
    case (sent st1 n)
    then show ?thesis
      using checked [OF sent(1)] statement_call_auto [OF assms(2) sent(3)]
        gains_trans [of saved pending "[]" "us_conn st" "us_conn st1" "[Stmt (sent_by eng s)]" "us_conn st'"]
      by (auto simp: settles_def intro: keeps_result_trans)
  next
    case (failed st1 e)
    then show ?thesis
      using checked [OF failed(1)] statement_call_auto [OF assms(2) failed(3)]
        gains_trans [of saved pending "[]" "us_conn st" "us_conn st1" _ "us_conn st'"]
      by (auto simp: settles_def intro: keeps_result_trans)
  qed
qed

lemma run_statements_auto:
  assumes "run_statements eng sqlplus True policy i ss st = (r, st')" "no_queries eng ss"
  shows "keeps_result st st' \<and> (\<exists>done. gains saved pending (map Stmt done) (us_conn st) (us_conn st')
        \<and> subseq done (sendable eng sqlplus ss)
        \<and> (if sqlplus then True else prefix done (sendable eng sqlplus ss) \<and> (r = None \<longrightarrow> done = sendable eng sqlplus ss)))"
  using assms
proof (induction ss arbitrary: st i policy)
  case Nil
  then show ?case by (auto simp: sendable_def gains_Nil intro!: exI [of _ "[]"])
next
  case (Cons s ss)
  have nq: "no_queries eng ss" "\<not> (ee_service eng \<and> ee_class eng s = ClassQuery)"
    using Cons.prems(2) by (auto simp: no_queries_def)
  show ?case
  proof (cases "if sqlplus then ee_directive eng s else None")
    case (Some policy')
    then have "sendable eng sqlplus (s # ss) = sendable eng sqlplus ss" "sqlplus"
      by (auto simp: sendable_def split: if_splits)
    then show ?thesis using Cons.IH [of policy' "Suc i" st] Cons.prems Some nq by simp
  next
    case None
    then have sendable: "sendable eng sqlplus (s # ss) = sent_by eng s # sendable eng sqlplus ss"
      by (auto simp: sendable_def)
    obtain r1 st1 where one: "execute_one eng s i True st = (r1, st1)" by fastforce
    note s1 = execute_one_auto [OF one nq(2)]
    then obtain ds where ds: "gains saved pending (map Stmt ds) (us_conn st) (us_conn st1)"
      "ds = [sent_by eng s] \<or> ds = [] \<and> r1 \<noteq> None" by (metis list.simps(8,9))
    show ?thesis
    proof (cases "case r1 of None \<Rightarrow> True | Some e \<Rightarrow> sqlplus \<and> policy = ''continue'' \<and> skippable e")
      case True
      then have "run_statements eng sqlplus True policy (Suc i) ss st1 = (r, st')"
        using Cons.prems(1) None one by (auto split: option.splits)
      from Cons.IH [OF this nq(1)] obtain "done" where d: "keeps_result st1 st'"
        "gains saved pending (map Stmt done) (us_conn st1) (us_conn st')" "subseq done (sendable eng sqlplus ss)"
        "if sqlplus then True else prefix done (sendable eng sqlplus ss) \<and> (r = None \<longrightarrow> done = sendable eng sqlplus ss)"
        by metis
      have g: "gains saved pending (map Stmt (ds @ done)) (us_conn st) (us_conn st')"
        using gains_trans [OF ds(1) d(2)] by simp
      have "keeps_result st st'" using s1 d(1) by (blast intro: keeps_result_trans)
      then show ?thesis
        using g d(3,4) ds(2) sendable True by (intro conjI exI [of _ "ds @ done"]) (auto split: option.splits)
    next
      case False
      then obtain e where "r1 = Some e" "r = Some (i, e)" "st' = st1"
        using Cons.prems(1) None one by (auto split: option.splits)
      then show ?thesis using s1 ds sendable by (intro conjI exI [of _ ds]) auto
    qed
  qed
qed

lemma execute_statements_auto:
  assumes "execute_statements eng sqlplus True ss st = (r, st')" "no_queries eng ss"
  shows "keeps_result st st' \<and> (\<exists>done. gains saved pending (map Stmt done) (us_conn st) (us_conn st')
        \<and> subseq done (sendable eng sqlplus ss)
        \<and> (if sqlplus then True else prefix done (sendable eng sqlplus ss) \<and> (r = None \<longrightarrow> done = sendable eng sqlplus ss)))"
proof -
  obtain r1 st1 where run: "run_statements eng sqlplus True ''exit'' 0 ss st = (r1, st1)" by fastforce
  note s1 = run_statements_auto [OF run assms(2)]
  show ?thesis
  proof (cases r1)
    case (Some x)
    then show ?thesis using assms(1) run s1 by (auto simp: execute_statements_def)
  next
    case None
    obtain r2 st2 where fin: "on_conn (pv_finish p ss) st1 = (r2, st2)" by fastforce
    then have "st' = st2" using assms(1) run None by (auto simp: execute_statements_def runs_on split: option.splits)
    moreover have "gains saved pending ws (us_conn st) (us_conn st1) \<Longrightarrow> gains saved pending ws (us_conn st) (us_conn st2)" for ws
      using finish_settles(2) [OF fin] by (auto simp: gains_def unchanged_def)
    ultimately show ?thesis
      using s1 None finish_settles(1) [OF fin] unfolding settles_def by (metis keeps_result_trans)
  qed
qed

lemma record_autocommit_history_row:
  assumes "record_autocommit_history eng m time st = (r, st')"
  shows "keeps_result st st' \<and> (saved (us_conn st') = saved (us_conn st) @ history_rows eng m
    \<or> r \<noteq> None \<and> saved (us_conn st') = saved (us_conn st))"
proof (cases "ee_history eng")
  case False
  then show ?thesis using assms by (auto simp: record_autocommit_history_def history_rows_def)
next
  case True
  obtain r1 st1 where s1: "if_transactional eng pv_begin st = (r1, st1)" by fastforce
  note b = begin_settles [OF s1]
  show ?thesis
  proof (cases r1)
    case (Some e)
    then show ?thesis using assms True s1 b by (auto simp: record_autocommit_history_def settles_def)
  next
    case None
    obtain r2 st2 where s2: "record_migration eng m True time st1 = (r2, st2)" by fastforce
    note c = record_step_open [OF s2]
    obtain r3 st3 where s3: "if_transactional eng pv_commit st2 = (r3, st3)" by fastforce
    note d = commit_step [OF s3]
    have o: "pv_open p (us_conn st1)" "pending (us_conn st1) = []" using b(3) None by auto
    obtain r4 st4 where s4: "then_do (record_migration eng m True time st1) (if_transactional eng pv_commit) = (r4, st4)" by fastforce
    have "keeps_result st st4 \<and> (saved (us_conn st4) = saved (us_conn st) @ history_rows eng m
        \<or> r4 \<noteq> None \<and> saved (us_conn st4) = saved (us_conn st))"
      using s2 s3 s4 b(1,2) c [OF o(1)] d o(2) True
      by (cases r2; cases r3) (auto simp: then_do_def settles_def history_rows_def ends_or_keeps_def intro: keeps_result_trans)
    moreover have "r = r4 \<and> st' = (if r4 = None then st4 else snd (if_transactional eng pv_rollback st4))"
      using assms True s1 s4 None by (auto simp: record_autocommit_history_def ignoring_def split: option.splits)
    ultimately show ?thesis
      using rollback_settles [of st4] by (auto simp: settles_def intro: keeps_result_trans)
  qed
qed

lemma run_sql_unit_auto:
  assumes run: "run_sql_unit eng m d ss st = (r, st')" and d: "\<not> td_transactional d" "td_autocommit_required d"
    and fresh: "us_error st = None" "us_persisted st = None" and nq: "no_queries eng ss"
  shows "\<exists>X. (X = saved (us_conn st) \<or> X = saved (us_conn st) @ pending (us_conn st)) \<and> in_order_with_row saved eng m ss X r st'"
proof -
  obtain r1 st1 where ex: "execute_statements eng (uses_sqlplus eng m) True ss st = (r1, st1)" by fastforce
  from execute_statements_auto [OF ex nq] obtain "done" where s1: "keeps_result st st1"
    "gains saved pending (map Stmt done) (us_conn st) (us_conn st1)" "subseq done (sendable eng (uses_sqlplus eng m) ss)"
    "if uses_sqlplus eng m then True else prefix done (sendable eng (uses_sqlplus eng m) ss)
       \<and> (r1 = None \<longrightarrow> done = sendable eng (uses_sqlplus eng m) ss)" by metis
  then obtain X where X: "X = saved (us_conn st) \<or> X = saved (us_conn st) @ pending (us_conn st)"
    "saved (us_conn st1) = X @ map Stmt done" by (auto simp: gains_def)
  have f1: "us_error st1 = None" "us_persisted st1 = None" using s1(1) fresh by (auto simp: keeps_result_def)
  have "in_order_with_row saved eng m ss X r st'"
  proof (cases r1)
    case (Some x)
    then have r: "r = None" "handle_statement_failure eng m x st1 = st'"
      using run ex d by (auto simp: run_sql_unit_def uses_sqlplus_def)
    have f: "us_error st' \<noteq> None" "saved (us_conn st') = saved (us_conn st1) \<or> saved (us_conn st') = saved (us_conn st1) @ [Row (script_name m) False]"
      using handle_statement_failure_row [OF r(2) f1(2) refl, of "[Row (script_name m) False]"]
        handle_statement_failure_error [OF r(2)]
      by (auto simp: all_or_nothing_def split: if_splits)
    then obtain rows where rows: "saved (us_conn st') = X @ map Stmt done @ rows" "rows \<in> {[], [Row (script_name m) False]}"
      using X(2) by auto
    show ?thesis
      unfolding in_order_with_row_def
      by (intro exI [of _ "done"] exI [of _ rows] conjI) (use rows f r s1 in \<open>auto simp: sendable_plain split: if_splits\<close>)
  next
    case None
    then have "record_autocommit_history eng m (ee_time eng (us_conn st1)) st1 = (r, st')"
      using run ex d by (simp add: run_sql_unit_def uses_sqlplus_def Let_def)
    note h = record_autocommit_history_row [OF this]
    then obtain rows where rows: "saved (us_conn st') = X @ map Stmt done @ rows"
      "rows = history_rows eng m \<or> r \<noteq> None \<and> rows = []" using X(2) by auto
    have "us_error st' = None" using h f1 by (auto simp: keeps_result_def)
    then show ?thesis
      unfolding in_order_with_row_def
      by (intro exI [of _ "done"] exI [of _ rows] conjI) (use rows s1 None in \<open>auto simp: sendable_plain split: if_splits\<close>)
  qed
  then show ?thesis using X(1) by blast
qed

lemma execute_unit_in_order:
  assumes run: "execute_unit eng m st = (r, st')" and fresh: "us_error st = None" "us_persisted st = None"
    and auto: "runs_autocommit eng m" and plan: "unit_plan eng m = Some (d, ss)" and nq: "no_queries eng ss"
  shows "\<exists>X. (X = saved (us_conn st) \<or> X = saved (us_conn st) @ pending (us_conn st)) \<and> in_order_with_row saved eng m ss X r st'"
  using run fresh
proof (cases rule: execute_unit_cases)
  case (stopped st1)
  then have "in_order_with_row saved eng m ss (saved (us_conn st1)) r st'"
    by (auto simp: in_order_with_row_def intro!: exI [of _ "[]"])
  then show ?thesis using settles_base [OF stopped(1)] by auto
next
  case (planned st1 d' ss')
  then have d: "\<not> td_transactional d" "td_autocommit_required d" "us_error st1 = None" "us_persisted st1 = None" "d' = d" "ss' = ss"
    using auto plan fresh planned_transactional [of eng m d ss]
    by (auto simp: runs_autocommit_def runs_on transactional settles_def keeps_result_def)
  then have "run_sql_unit eng m d ss st1 = (r, st')" using planned(5) by (simp add: run_planned_def)
  from run_sql_unit_auto [OF this d(1-4) nq] show ?thesis using base_through [OF planned(1)] by blast
next
  case (script st1)
  then show ?thesis using auto by (simp add: runs_autocommit_def)
qed

end

end
