(* ===== verification/Postgres.thy ===== *)
theory Postgres
  imports UnitOutcome
begin

text \<open>
  The provider the engine runs on: the transactions and statements of \<open>SqlAlchemyProvider\<close>
  (\<open>db/sqlalchemy_provider.py\<close>) with what \<open>PostgreSqlProvider\<close> adds (\<open>db/plugins/postgresql/provider.py\<close>).
  SQLAlchemy's connection is a parameter: every call on it is recorded with whether it raised, and what
  it answers is a function of the calls so far. What those calls save in the database is the
  specification \<open>view_of\<close>. The connection is open; closing it and reconnecting are left out.
\<close>

subsection \<open>The connection\<close>

text \<open>What a call sends: a statement of the user, a history row, or something that writes nothing
  (a probe, a catalog query, \<open>SET search_path\<close>, the creation of a schema or of the history table).\<close>

datatype sql_text = UserSql string | HistoryRow string bool | Housekeeping string

text \<open>\<open>CExec\<close> carries whether the connection is in autocommit isolation.\<close>

datatype conn_call =
    CBegin | CCommit | CRollback | CTxCommit | CTxRollback | CExec bool sql_text
  | CSavepoint | CReleaseSavepoint | CRollbackSavepoint | CAutocommitLevel | CRestoreLevel

type_synonym calls = "(conn_call \<times> bool) list"

record conn_world =
  cw_answer :: "calls \<Rightarrow> conn_call \<Rightarrow> exc option"
  cw_transaction :: "calls \<Rightarrow> nat option"
  cw_exists :: "calls \<Rightarrow> bool"
  cw_rowcount :: "calls \<Rightarrow> int"
  cw_caller_owned :: bool
  cw_dbapi_autocommit :: bool
  cw_savepoints :: bool
  cw_copy_in :: "string \<Rightarrow> bool"
  cw_copy_out :: "string \<Rightarrow> bool"

record pg_state =
  pg_calls :: calls
  pg_tx :: bool
  pg_caller_tx :: "nat option"
  pg_schema :: "string option"

type_synonym pg_op = "pg_state \<Rightarrow> exc option \<times> pg_state"

definition conn :: "conn_world \<Rightarrow> conn_call \<Rightarrow> pg_op" where
  "conn w k c = (let e = cw_answer w (pg_calls c) k in (e, c\<lparr>pg_calls := pg_calls c @ [(k, e = None)]\<rparr>))"

text \<open>One step after another, and a step whose exception is looked at.\<close>

definition seq :: "pg_op \<Rightarrow> pg_op \<Rightarrow> pg_op" where
  "seq f g c = (case f c of (None, c1) \<Rightarrow> g c1 | (Some e, c1) \<Rightarrow> (Some e, c1))"

definition in_transaction :: "conn_world \<Rightarrow> pg_state \<Rightarrow> bool" where
  "in_transaction w c \<longleftrightarrow> cw_transaction w (pg_calls c) \<noteq> None"

definition skip :: pg_op where
  "skip c = (None, c)"

subsection \<open>Transactions\<close>

definition begin_transaction :: "conn_world \<Rightarrow> pg_op" where
  "begin_transaction w c =
     (case conn w CBegin c of (None, c1) \<Rightarrow> (None, c1\<lparr>pg_tx := True\<rparr>) | (Some e, c1) \<Rightarrow> (Some e, c1))"

definition commit_transaction :: "conn_world \<Rightarrow> pg_op" where
  "commit_transaction w c =
     (let c0 = c\<lparr>pg_caller_tx := None\<rparr> in
      if pg_tx c
      then (case conn w CTxCommit c0 of (None, c1) \<Rightarrow> (None, c1\<lparr>pg_tx := False\<rparr>) | (Some e, c1) \<Rightarrow> (Some e, c1))
      else (None, c0))"

definition sa_rollback_transaction :: "conn_world \<Rightarrow> pg_op" where
  "sa_rollback_transaction w c =
     (let c0 = c\<lparr>pg_caller_tx := None\<rparr> in
      if pg_tx c
      then (case conn w CTxRollback c0 of (None, c1) \<Rightarrow> (None, c1\<lparr>pg_tx := False\<rparr>) | (Some e, c1) \<Rightarrow> (Some e, c1))
      else conn w CRollback c0)"

definition sa_end_open_transaction :: "conn_world \<Rightarrow> pg_op" where
  "sa_end_open_transaction w =
     seq (\<lambda>c. if pg_tx c
              then (case conn w CTxRollback c of (None, c1) \<Rightarrow> (None, c1\<lparr>pg_tx := False\<rparr>) | (Some e, c1) \<Rightarrow> (Some e, c1))
              else (None, c))
         (\<lambda>c. if in_transaction w c then conn w CRollback c else (None, c))"

text \<open>A rollback undoes the \<open>SET search_path\<close> of its transaction, so the cached schema goes with it.\<close>

definition forgetting_schema :: "conn_world \<Rightarrow> pg_op \<Rightarrow> pg_op" where
  "forgetting_schema w f c =
     (let undoes = in_transaction w c in
      case f c of
        (None, c1) \<Rightarrow> (None, if undoes then c1\<lparr>pg_schema := None\<rparr> else c1)
      | (Some e, c1) \<Rightarrow> (Some e, c1))"

definition rollback_transaction :: "conn_world \<Rightarrow> pg_op" where
  "rollback_transaction w = forgetting_schema w (sa_rollback_transaction w)"

definition end_open_transaction :: "conn_world \<Rightarrow> pg_op" where
  "end_open_transaction w = forgetting_schema w (sa_end_open_transaction w)"

definition note_caller_work :: "conn_world \<Rightarrow> pg_state \<Rightarrow> pg_state" where
  "note_caller_work w c = c\<lparr>pg_caller_tx := cw_transaction w (pg_calls c)\<rparr>"

definition commit_caller_work :: "conn_world \<Rightarrow> pg_op" where
  "commit_caller_work w c =
     (let tx = pg_caller_tx c; c0 = c\<lparr>pg_caller_tx := None\<rparr> in
      if tx \<noteq> None \<and> cw_transaction w (pg_calls c) = tx then conn w CCommit c0 else (None, c0))"

subsection \<open>Statements\<close>

text \<open>Outside a transaction of the provider, a statement is committed at once unless the caller owns the
  connection.\<close>

definition sa_execute :: "conn_world \<Rightarrow> bool \<Rightarrow> sql_text \<Rightarrow> pg_op" where
  "sa_execute w auto t =
     seq (conn w (CExec auto t))
         (\<lambda>c. if \<not> pg_tx c \<and> \<not> cw_caller_owned w then conn w CCommit c else (None, c))"

text \<open>A read in the caller's transaction runs in a savepoint, or rolls back when it fails.\<close>

definition in_read_scope :: "conn_world \<Rightarrow> pg_op \<Rightarrow> pg_op" where
  "in_read_scope w f =
     (if cw_dbapi_autocommit w then f
      else if cw_savepoints w
      then seq (conn w CSavepoint)
             (\<lambda>c. case f c of
                    (None, c1) \<Rightarrow> conn w CReleaseSavepoint c1
                  | (Some e, c1) \<Rightarrow>
                      (case conn w CRollbackSavepoint c1 of (None, c2) \<Rightarrow> (Some e, c2) | (Some e', c2) \<Rightarrow> (Some e', c2)))
      else (\<lambda>c. case f c of
                  (None, c1) \<Rightarrow> (None, c1)
                | (Some e, c1) \<Rightarrow>
                    (case conn w CRollback c1 of
                       (None, c2) \<Rightarrow> (Some e, c2\<lparr>pg_caller_tx := None\<rparr>) | (Some e', c2) \<Rightarrow> (Some e', c2))))"

definition sa_query :: "conn_world \<Rightarrow> bool \<Rightarrow> sql_text \<Rightarrow> pg_op" where
  "sa_query w auto t =
     seq (\<lambda>c. if cw_caller_owned w \<and> \<not> pg_tx c then in_read_scope w (conn w (CExec auto t)) c
              else conn w (CExec auto t) c)
         (\<lambda>c. if \<not> pg_tx c \<and> \<not> cw_caller_owned w then conn w CCommit c else (None, c))"

definition check_transaction_state :: "conn_world \<Rightarrow> pg_op" where
  "check_transaction_state w c =
     (case sa_query w False (Housekeeping ''SELECT 1'') c of
        (Some e, c1) \<Rightarrow>
          (Some (if contains (str_lower (exc_text e)) ''transaction is aborted'' then AbortedTransaction (exc_text e) else e), c1)
      | r \<Rightarrow> r)"

text \<open>The schema is created when it is missing; losing a race for it counts as success.\<close>

definition create_schema_if_not_exists :: "conn_world \<Rightarrow> bool \<Rightarrow> string \<Rightarrow> pg_op" where
  "create_schema_if_not_exists w auto schema =
     seq (sa_query w auto (Housekeeping ''SELECT EXISTS''))
         (\<lambda>c. if cw_exists w (pg_calls c) then (None, c)
              else (case sa_execute w auto (Housekeeping (''CREATE SCHEMA IF NOT EXISTS '' @ schema)) c of
                      (None, c1) \<Rightarrow> (None, c1)
                    | (Some e, c1) \<Rightarrow>
                        (case end_open_transaction w c1 of
                           (Some _, c2) \<Rightarrow> (Some (Failure ''Could not rollback failed schema create''), c2)
                         | (None, c2) \<Rightarrow>
                             (if contains (str_lower (exc_text e)) ''already exists'' then None else Some e, c2))))"

definition set_current_schema :: "conn_world \<Rightarrow> bool \<Rightarrow> string \<Rightarrow> pg_op" where
  "set_current_schema w auto schema c =
     (if pg_schema c = Some schema then (None, c)
      else (case sa_execute w auto (Housekeeping (''SET search_path TO '' @ schema)) c of
              (None, c1) \<Rightarrow> (None, c1\<lparr>pg_schema := Some schema\<rparr>)
            | (Some e, c1) \<Rightarrow> (Some e, c1)))"

definition copy_from_stdin :: "conn_world \<Rightarrow> bool \<Rightarrow> string \<Rightarrow> pg_op" where
  "copy_from_stdin w auto s =
     seq (\<lambda>c. if in_transaction w c then (None, c) else conn w CBegin c)
         (seq (conn w (CExec auto (UserSql s)))
              (\<lambda>c. if \<not> pg_tx c then conn w CCommit c else (None, c)))"

definition execute_statement :: "conn_world \<Rightarrow> bool \<Rightarrow> string option \<Rightarrow> string \<Rightarrow> pg_op" where
  "execute_statement w auto schema s =
     (if cw_copy_out w s
      then (\<lambda>c. (Some (Failure ''COPY ... TO STDOUT is not supported in a migration: dblift has nowhere to send the rows. Use COPY ... TO a server file instead.''), c))
      else
        seq (if truthy schema
             then seq (create_schema_if_not_exists w auto (the schema)) (set_current_schema w auto (the schema))
             else skip)
            (if cw_copy_in w s then copy_from_stdin w auto s else sa_execute w auto (UserSql s)))"

definition counted :: "conn_world \<Rightarrow> pg_op \<Rightarrow> pg_state \<Rightarrow> (exc + int) \<times> pg_state" where
  "counted w f c = (case f c of (None, c1) \<Rightarrow> (Inr (cw_rowcount w (pg_calls c1)), c1) | (Some e, c1) \<Rightarrow> (Inl e, c1))"

text \<open>Autocommit isolation for one statement. What \<open>finally\<close> raises replaces the error of the statement.\<close>

definition execute_autocommit :: "conn_world \<Rightarrow> string option \<Rightarrow> string \<Rightarrow> pg_op" where
  "execute_autocommit w schema s =
     seq (end_open_transaction w)
       (seq (conn w CAutocommitLevel)
         (\<lambda>c. case execute_statement w True schema s c of
                (r, c1) \<Rightarrow>
                  (case seq (end_open_transaction w) (conn w CRestoreLevel) c1 of
                     (None, c2) \<Rightarrow> (r, c2) | (Some e, c2) \<Rightarrow> (Some e, c2))))"

text \<open>The history row is inserted after a look at the table and at its rank column.\<close>

definition record_row :: "conn_world \<Rightarrow> history_row \<Rightarrow> pg_op" where
  "record_row w row =
     seq (seq (sa_query w False (Housekeeping ''SELECT EXISTS''))
              (\<lambda>c. if cw_exists w (pg_calls c) then (None, c)
                   else sa_execute w False (Housekeeping ''CREATE TABLE dblift_schema_history'') c))
         (seq (sa_query w False (Housekeeping ''SELECT has_rank_default''))
              (sa_execute w False (HistoryRow (hr_script row) (hr_success row))))"

definition pg_provider :: "conn_world \<Rightarrow> pg_state provider" where
  "pg_provider w =
     \<lparr>pv_transactional = True, pv_transactional_ddl = True, pv_caller_owned = cw_caller_owned w,
      pv_connected = (\<lambda>c. True), pv_autocommitting = (\<lambda>c. Inr False), pv_open = pg_tx,
      pv_check = check_transaction_state w, pv_begin = begin_transaction w, pv_commit = commit_transaction w,
      pv_rollback = rollback_transaction w,
      pv_execute = (\<lambda>schema s. counted w (execute_statement w False schema s)),
      pv_query = (\<lambda>s. counted w (sa_query w False (UserSql s))),
      pv_execute_autocommit = (\<lambda>schema s. counted w (execute_autocommit w schema s)),
      pv_record = record_row w, pv_set_schema = set_current_schema w False,
      pv_reset_cache = (\<lambda>c. c\<lparr>pg_schema := None\<rparr>), pv_note_caller_work = note_caller_work w,
      pv_commit_caller_work = commit_caller_work w, pv_finish = (\<lambda>ss. skip)\<rparr>"

subsection \<open>What the database keeps\<close>

text \<open>The meaning of the calls: SQLAlchemy begins a transaction with the first statement, a commit saves
  what it holds and a rollback drops it, and in autocommit isolation a statement is saved at once. A call
  that raises changes nothing but that a statement has begun the transaction.\<close>

record view =
  vw_saved :: "dbwrite list"
  vw_pending :: "dbwrite list"
  vw_in_tx :: bool

fun writes_of :: "sql_text \<Rightarrow> dbwrite list" where
  "writes_of (UserSql s) = [Stmt s]"
| "writes_of (HistoryRow n ok) = [Row n ok]"
| "writes_of (Housekeeping s) = []"

fun view_step :: "conn_call \<times> bool \<Rightarrow> view \<Rightarrow> view" where
  "view_step (CBegin, True) v = v\<lparr>vw_in_tx := True\<rparr>"
| "view_step (CCommit, True) v = \<lparr>vw_saved = vw_saved v @ vw_pending v, vw_pending = [], vw_in_tx = False\<rparr>"
| "view_step (CTxCommit, True) v = \<lparr>vw_saved = vw_saved v @ vw_pending v, vw_pending = [], vw_in_tx = False\<rparr>"
| "view_step (CRollback, True) v = v\<lparr>vw_pending := [], vw_in_tx := False\<rparr>"
| "view_step (CTxRollback, True) v = v\<lparr>vw_pending := [], vw_in_tx := False\<rparr>"
| "view_step (CExec True t, True) v = v\<lparr>vw_saved := vw_saved v @ writes_of t, vw_in_tx := True\<rparr>"
| "view_step (CExec False t, True) v = v\<lparr>vw_pending := vw_pending v @ writes_of t, vw_in_tx := True\<rparr>"
| "view_step (CExec auto t, False) v = v\<lparr>vw_in_tx := True\<rparr>"
| "view_step (k, ok) v = v"

definition view_of :: "calls \<Rightarrow> view" where
  "view_of ks = foldl (\<lambda>v k. view_step k v) \<lparr>vw_saved = [], vw_pending = [], vw_in_tx = False\<rparr> ks"

definition pg_saved :: "pg_state \<Rightarrow> dbwrite list" where
  "pg_saved c = vw_saved (view_of (pg_calls c))"

definition pg_pending :: "pg_state \<Rightarrow> dbwrite list" where
  "pg_pending c = vw_pending (view_of (pg_calls c))"

lemma view_of_simps [simp]:
  "view_of [] = \<lparr>vw_saved = [], vw_pending = [], vw_in_tx = False\<rparr>"
  "view_of (ks @ [k]) = view_step k (view_of ks)"
  by (simp_all add: view_of_def)

lemma view_step_idle:
  "(vw_in_tx v \<or> vw_pending v = []) \<Longrightarrow> vw_in_tx (view_step k v) \<or> vw_pending (view_step k v) = []"
  by (induction k v rule: view_step.induct) auto

lemma nothing_pending: "\<not> vw_in_tx (view_of ks) \<Longrightarrow> vw_pending (view_of ks) = []"
  using view_step_idle by (induction ks rule: rev_induct) fastforce+

text \<open>The calls one by one.\<close>

lemma conn_view:
  assumes "conn w k c = (r, c')"
  shows "view_of (pg_calls c') = view_step (k, r = None) (view_of (pg_calls c))" "pg_tx c' = pg_tx c"
  using assms by (auto simp: conn_def Let_def)

lemmas pg_views = pg_saved_def pg_pending_def unchanged_def ends_or_keeps_def

lemma exec_call:
  assumes "conn w (CExec auto t) c = (r, c')"
  shows "pg_tx c' = pg_tx c
    \<and> (if r \<noteq> None then unchanged pg_saved pg_pending c c'
       else if auto then pg_saved c' = pg_saved c @ writes_of t \<and> pg_pending c' = pg_pending c
       else pg_saved c' = pg_saved c \<and> pg_pending c' = pg_pending c @ writes_of t)"
  using conn_view [OF assms] by (cases r; cases auto) (simp_all add: pg_views)

lemma commit_call:
  assumes "conn w k c = (r, c')" "k = CCommit \<or> k = CTxCommit"
  shows "pg_tx c' = pg_tx c
    \<and> (if r = None then pg_saved c' = pg_saved c @ pg_pending c \<and> pg_pending c' = [] else unchanged pg_saved pg_pending c c')"
  using conn_view [OF assms(1)] assms(2) by (cases r) (auto simp: pg_views)

lemma rollback_call:
  assumes "conn w k c = (r, c')" "k = CRollback \<or> k = CTxRollback"
  shows "pg_tx c' = pg_tx c \<and> pg_saved c' = pg_saved c \<and> pg_pending c' = (if r = None then [] else pg_pending c)"
  using conn_view [OF assms(1)] assms(2) by (cases r) (auto simp: pg_views)

lemma quiet_call:
  assumes "conn w k c = (r, c')" "k \<in> {CBegin, CSavepoint, CReleaseSavepoint, CRollbackSavepoint, CAutocommitLevel, CRestoreLevel}"
  shows "pg_tx c' = pg_tx c \<and> unchanged pg_saved pg_pending c c'"
  using conn_view [OF assms(1)] assms(2) by (cases r) (auto simp: pg_views)

lemma views_update [simp]:
  "pg_saved (c\<lparr>pg_tx := b\<rparr>) = pg_saved c" "pg_pending (c\<lparr>pg_tx := b\<rparr>) = pg_pending c"
  "pg_saved (c\<lparr>pg_schema := x\<rparr>) = pg_saved c" "pg_pending (c\<lparr>pg_schema := x\<rparr>) = pg_pending c"
  "pg_saved (c\<lparr>pg_caller_tx := y\<rparr>) = pg_saved c" "pg_pending (c\<lparr>pg_caller_tx := y\<rparr>) = pg_pending c"
  by (simp_all add: pg_saved_def pg_pending_def)

lemma seq_cases:
  assumes "seq f g c = (r, c')"
  obtains (raised) e where "f c = (Some e, c')" "r = Some e" | (went_on) c1 where "f c = (None, c1)" "g c1 = (r, c')"
  using assms by (auto simp: seq_def split: prod.splits option.splits)

text \<open>Inside a transaction of the provider.\<close>

definition adds :: "sql_text \<Rightarrow> exc option \<Rightarrow> pg_state \<Rightarrow> pg_state \<Rightarrow> bool" where
  "adds t r c c' \<longleftrightarrow> pg_tx c' \<and> pg_saved c' = pg_saved c
     \<and> pg_pending c' = pg_pending c @ (if r = None then writes_of t else [])"

lemma sa_execute_open:
  assumes "sa_execute w False t c = (r, c')" "pg_tx c"
  shows "adds t r c c'"
  using assms(1) unfolding sa_execute_def
proof (cases rule: seq_cases)
  case (raised e)
  then show ?thesis using exec_call [OF raised(1)] raised(2) assms(2) by (auto simp: adds_def unchanged_def)
next
  case (went_on c1)
  then show ?thesis using exec_call [OF went_on(1)] assms(2) by (auto simp: adds_def)
qed

lemma sa_query_open:
  assumes "sa_query w False t c = (r, c')" "pg_tx c"
  shows "adds t r c c'"
  using assms(1) unfolding sa_query_def
proof (cases rule: seq_cases)
  case (raised e)
  then have "conn w (CExec False t) c = (Some e, c')" using assms(2) by simp
  from exec_call [OF this] show ?thesis using raised assms(2) by (auto simp: adds_def unchanged_def)
next
  case (went_on c1)
  then have "conn w (CExec False t) c = (None, c1)" using assms(2) by simp
  from exec_call [OF this] show ?thesis using went_on assms(2) by (auto simp: adds_def)
qed

subsection \<open>The contract\<close>

text \<open>What is known of the connection and the database: \<open>begin\<close> is refused while a transaction is in
  progress, \<open>get_transaction\<close> tells whether one is, and the schema and the history table exist, as a
  command makes sure before it runs a script.\<close>

locale pg_world =
  fixes w :: conn_world
  assumes begin_refused: "vw_in_tx (view_of ks) \<Longrightarrow> cw_answer w ks CBegin \<noteq> None"
    and transaction_told: "cw_transaction w ks \<noteq> None \<longleftrightarrow> vw_in_tx (view_of ks)"
    and tables_exist: "cw_exists w ks"
begin

lemma begin_transaction_result:
  assumes "begin_transaction w c = (r, c')"
  shows "unchanged pg_saved pg_pending c c' \<and> (r = None \<longrightarrow> pg_tx c' \<and> pg_pending c' = [])"
proof -
  obtain r1 c1 where k: "conn w CBegin c = (r1, c1)" by fastforce
  have q: "unchanged pg_saved pg_pending c c1" using quiet_call [OF k] by simp
  have "r1 = None \<Longrightarrow> pg_pending c = []"
    using k begin_refused [of "pg_calls c"] nothing_pending [of "pg_calls c"] by (auto simp: conn_def pg_pending_def Let_def)
  then show ?thesis
    using assms k q by (auto simp: begin_transaction_def unchanged_def split: option.splits)
qed

lemma commit_transaction_result:
  assumes "commit_transaction w c = (r, c')"
  shows "if pg_tx c \<and> r = None then pg_saved c' = pg_saved c @ pg_pending c \<and> pg_pending c' = []
    else unchanged pg_saved pg_pending c c'"
proof -
  obtain r1 c1 where k: "conn w CTxCommit (c\<lparr>pg_caller_tx := None\<rparr>) = (r1, c1)" by fastforce
  show ?thesis
    using assms k commit_call [OF k]
    by (auto simp: commit_transaction_def Let_def unchanged_def split: option.splits if_splits)
qed

lemma ends_with_rollback:
  assumes "sa_rollback_transaction w c = (r, c')"
  shows "pg_saved c' = pg_saved c \<and> pg_pending c' = (if r = None then [] else pg_pending c)"
proof -
  let ?c = "c\<lparr>pg_caller_tx := None\<rparr>"
  obtain r1 c1 where k: "conn w CTxRollback ?c = (r1, c1)" by fastforce
  obtain r2 c2 where k': "conn w CRollback ?c = (r2, c2)" by fastforce
  show ?thesis
    using assms k k' rollback_call [OF k] rollback_call [OF k']
    by (auto simp: sa_rollback_transaction_def Let_def split: option.splits if_splits)
qed

lemma forgetting_schema_result:
  assumes "forgetting_schema w f c = (r, c')"
  obtains c1 where "f c = (r, c1)" "pg_saved c' = pg_saved c1" "pg_pending c' = pg_pending c1" "pg_tx c' = pg_tx c1"
  using assms by (auto simp: forgetting_schema_def Let_def split: prod.splits option.splits if_splits)

lemma rollback_transaction_result:
  assumes "rollback_transaction w c = (r, c')"
  shows "pg_saved c' = pg_saved c \<and> pg_pending c' = (if r = None then [] else pg_pending c)"
  using assms unfolding rollback_transaction_def
  by (elim forgetting_schema_result) (use ends_with_rollback in auto)

lemma end_open_transaction_result:
  assumes "end_open_transaction w c = (r, c')"
  shows "pg_saved c' = pg_saved c \<and> (pg_pending c' = pg_pending c \<or> pg_pending c' = [])
    \<and> (r = None \<longrightarrow> pg_pending c' = [] \<and> \<not> pg_tx c')"
proof -
  obtain c1 where c1: "sa_end_open_transaction w c = (r, c1)" "pg_saved c' = pg_saved c1"
    "pg_pending c' = pg_pending c1" "pg_tx c' = pg_tx c1"
    using assms unfolding end_open_transaction_def by (elim forgetting_schema_result) auto
  obtain r2 c2 where k2: "conn w CTxRollback c = (r2, c2)" by fastforce
  note t = rollback_call [OF k2]
  have idle: "pg_pending d = []" if "\<not> in_transaction w d" for d
    using that transaction_told [of "pg_calls d"] nothing_pending [of "pg_calls d"]
    by (auto simp: in_transaction_def pg_pending_def)
  show ?thesis
    using c1(1) unfolding sa_end_open_transaction_def
  proof (cases rule: seq_cases)
    case (raised e)
    then show ?thesis using k2 t c1 by (auto split: option.splits if_splits)
  next
    case (went_on d)
    then have d: "pg_saved d = pg_saved c" "pg_pending d = pg_pending c \<or> pg_pending d = []" "\<not> pg_tx d"
      using k2 t by (auto split: option.splits if_splits)
    obtain r3 c3 where k3: "conn w CRollback d = (r3, c3)" by fastforce
    show ?thesis
      using went_on(2) d k3 rollback_call [OF k3] idle [of d] c1 by (auto split: if_splits)
  qed
qed

lemma adds_nothing: "adds (Housekeeping x) r c c' \<longleftrightarrow> pg_tx c' \<and> unchanged pg_saved pg_pending c c'"
  by (auto simp: adds_def unchanged_def)

lemma sa_query_quiet_open:
  assumes "sa_query w False (Housekeeping x) c = (r, c')" "pg_tx c"
  shows "pg_tx c' \<and> unchanged pg_saved pg_pending c c'"
  using sa_query_open [OF assms] by (simp add: adds_nothing)

lemma create_schema_looks:
  assumes "create_schema_if_not_exists w auto x c = (r, c')"
  shows "sa_query w auto (Housekeeping ''SELECT EXISTS'') c = (r, c')"
  using assms unfolding create_schema_if_not_exists_def
  by (cases rule: seq_cases) (simp_all add: tables_exist)

lemma create_schema_open:
  assumes "create_schema_if_not_exists w False x c = (r, c')" "pg_tx c"
  shows "pg_tx c' \<and> unchanged pg_saved pg_pending c c'"
  by (rule sa_query_quiet_open [OF create_schema_looks [OF assms(1)] assms(2)])

lemma set_current_schema_open:
  assumes "set_current_schema w False x c = (r, c')" "pg_tx c"
  shows "pg_tx c' \<and> unchanged pg_saved pg_pending c c'"
proof -
  obtain r1 c1 where e: "sa_execute w False (Housekeeping (''SET search_path TO '' @ x)) c = (r1, c1)" by fastforce
  show ?thesis
    using assms e sa_execute_open [OF e assms(2)]
    by (auto simp: set_current_schema_def adds_nothing unchanged_def split: option.splits if_splits)
qed

lemma copy_from_stdin_open:
  assumes "copy_from_stdin w False s c = (r, c')" "pg_tx c"
  shows "adds (UserSql s) r c c'"
  using assms(1) unfolding copy_from_stdin_def
proof (cases rule: seq_cases)
  case (raised e)
  then have "conn w CBegin c = (Some e, c')" by (auto split: if_splits)
  from quiet_call [OF this] show ?thesis using raised assms(2) by (auto simp: adds_def unchanged_def)
next
  case (went_on c1)
  have c1: "pg_tx c1 \<and> unchanged pg_saved pg_pending c c1"
    using went_on(1) quiet_call [of w CBegin c None c1] assms(2) by (auto split: if_splits)
  from went_on(2) show ?thesis
  proof (cases rule: seq_cases)
    case (raised e)
    then show ?thesis using exec_call [OF raised(1)] c1 by (auto simp: adds_def unchanged_def)
  next
    case (went_on c2)
    then show ?thesis using exec_call [OF went_on(1)] c1 by (auto simp: adds_def unchanged_def)
  qed
qed

lemma execute_statement_open:
  assumes "execute_statement w False x s c = (r, c')" "pg_tx c"
  shows "adds (UserSql s) r c c'"
proof (cases "cw_copy_out w s")
  case True
  then show ?thesis using assms by (auto simp: execute_statement_def adds_def)
next
  case False
  let ?prep = "if truthy x then seq (create_schema_if_not_exists w False (the x)) (set_current_schema w False (the x)) else skip"
  have prep: "pg_tx d \<and> unchanged pg_saved pg_pending c d" if "?prep c = (r1, d)" for r1 d
  proof (cases "truthy x")
    case True
    then have "seq (create_schema_if_not_exists w False (the x)) (set_current_schema w False (the x)) c = (r1, d)" using that by simp
    then show ?thesis
    proof (cases rule: seq_cases)
      case (raised e)
      show ?thesis by (rule create_schema_open [OF raised(1) assms(2)])
    next
      case (went_on c1)
      note c1 = create_schema_open [OF went_on(1) assms(2)]
      show ?thesis
        using set_current_schema_open [OF went_on(2)] c1 by (auto intro: unchanged_trans)
    qed
  qed (use that assms(2) in \<open>auto simp: skip_def\<close>)
  have "seq ?prep (if cw_copy_in w s then copy_from_stdin w False s else sa_execute w False (UserSql s)) c = (r, c')"
    using assms(1) False by (simp add: execute_statement_def)
  then show ?thesis
  proof (cases rule: seq_cases)
    case (raised e)
    then show ?thesis using prep [OF raised(1)] by (auto simp: adds_def unchanged_def)
  next
    case (went_on c1)
    then have "adds (UserSql s) r c1 c'"
      using prep [OF went_on(1)] copy_from_stdin_open sa_execute_open by (auto split: if_splits)
    then show ?thesis using prep [OF went_on(1)] by (auto simp: adds_def unchanged_def)
  qed
qed

lemma table_check_open:
  assumes "seq (sa_query w False (Housekeeping ''SELECT EXISTS''))
      (\<lambda>c. if cw_exists w (pg_calls c) then (None, c) else f c) c = (r, c')" "pg_tx c"
  shows "pg_tx c' \<and> unchanged pg_saved pg_pending c c'"
  using assms(1)
proof (cases rule: seq_cases)
  case (raised e)
  show ?thesis by (rule sa_query_quiet_open [OF raised(1) assms(2)])
next
  case (went_on c1)
  then have "c1 = c'" by (simp add: tables_exist)
  then show ?thesis using sa_query_quiet_open [OF went_on(1) assms(2)] by simp
qed

lemma record_row_open:
  assumes "record_row w row c = (r, c')" "pg_tx c"
  shows "adds (HistoryRow (hr_script row) (hr_success row)) r c c'"
  using assms(1) unfolding record_row_def
proof (cases rule: seq_cases)
  case (raised e)
  then show ?thesis using table_check_open [OF raised(1) assms(2)] by (auto simp: adds_def unchanged_def)
next
  case (went_on c1)
  note c1 = table_check_open [OF went_on(1) assms(2)]
  from went_on(2) show ?thesis
  proof (cases rule: seq_cases)
    case (raised e)
    then show ?thesis using sa_query_open [OF raised(1)] c1 by (auto simp: adds_def unchanged_def)
  next
    case (went_on c2)
    then show ?thesis
      using sa_query_open [OF went_on(1)] sa_execute_open [OF went_on(2)] c1 by (auto simp: adds_def unchanged_def)
  qed
qed

text \<open>Outside of one: what writes nothing may commit what is pending, and with nothing pending it
  changes nothing.\<close>

lemma housekeeping_call:
  assumes "conn w k c = (r, c')" "k = CExec auto (Housekeeping x) \<or> k \<in> {CCommit, CRollback, CSavepoint, CReleaseSavepoint, CRollbackSavepoint}"
  shows "pg_tx c' = pg_tx c \<and> ends_or_keeps pg_saved pg_pending c c'"
  using conn_view [OF assms(1)] assms(2) by (cases r; cases auto) (auto simp: pg_views)

lemma sa_execute_housekeeping:
  assumes "sa_execute w auto (Housekeeping x) c = (r, c')"
  shows "pg_tx c' = pg_tx c \<and> ends_or_keeps pg_saved pg_pending c c'"
  using assms unfolding sa_execute_def
proof (cases rule: seq_cases)
  case (raised e)
  then show ?thesis using housekeeping_call [OF raised(1)] by simp
next
  case (went_on c1)
  have "pg_tx c' = pg_tx c1 \<and> ends_or_keeps pg_saved pg_pending c1 c'"
    using went_on(2) housekeeping_call [of CCommit c1 r c'] by (auto split: if_splits)
  then show ?thesis using housekeeping_call [OF went_on(1)] by (auto intro: ends_or_keeps_trans)
qed

lemma read_scope_housekeeping:
  assumes "in_read_scope w (conn w (CExec auto (Housekeeping x))) c = (r, c')"
  shows "pg_tx c' = pg_tx c \<and> ends_or_keeps pg_saved pg_pending c c'"
proof -
  let ?f = "conn w (CExec auto (Housekeeping x))"
  note h = housekeeping_call [where auto = auto and x = x]
  consider "?f c = (r, c')" | "seq (conn w CSavepoint) (\<lambda>c. case ?f c of
        (None, c1) \<Rightarrow> conn w CReleaseSavepoint c1
      | (Some e, c1) \<Rightarrow> (case conn w CRollbackSavepoint c1 of (None, c2) \<Rightarrow> (Some e, c2) | (Some e', c2) \<Rightarrow> (Some e', c2))) c = (r, c')"
    | e e' c1 c2 where "?f c = (Some e, c1)" "conn w CRollback c1 = (e', c2)" "c' = c2 \<or> c' = c2\<lparr>pg_caller_tx := None\<rparr>"
    using assms by (auto simp: in_read_scope_def split: if_splits prod.splits option.splits)
  then show ?thesis
  proof cases
    case 1
    then show ?thesis by (auto dest: h)
  next
    case 2
    then show ?thesis
    proof (cases rule: seq_cases)
      case (raised e)
      then show ?thesis by (auto dest: h)
    next
      case (went_on c1)
      obtain r2 c2 where e: "?f c1 = (r2, c2)" by fastforce
      obtain r3 c3 where b: "conn w CReleaseSavepoint c2 = (r3, c3)" by fastforce
      obtain r4 c4 where d: "conn w CRollbackSavepoint c2 = (r4, c4)" by fastforce
      have "c' = c3 \<or> c' = c4"
        using went_on(2) e b d by (auto split: option.splits)
      then have "pg_tx c' = pg_tx c2 \<and> ends_or_keeps pg_saved pg_pending c2 c'"
        using h [OF b] h [OF d] by auto
      moreover have "pg_tx c2 = pg_tx c \<and> ends_or_keeps pg_saved pg_pending c c2"
        using h [OF went_on(1)] h [OF e] by (auto intro: ends_or_keeps_trans)
      ultimately show ?thesis by (auto intro: ends_or_keeps_trans)
    qed
  next
    case (3 e e' c1 c2)
    then have "pg_tx c2 = pg_tx c \<and> ends_or_keeps pg_saved pg_pending c c2"
      using h [OF 3(1)] h [OF 3(2)] by (auto intro: ends_or_keeps_trans)
    then show ?thesis using 3(3) by (auto simp: ends_or_keeps_def)
  qed
qed

lemma sa_query_housekeeping:
  assumes "sa_query w auto (Housekeeping x) c = (r, c')"
  shows "pg_tx c' = pg_tx c \<and> ends_or_keeps pg_saved pg_pending c c'"
  using assms unfolding sa_query_def
proof (cases rule: seq_cases)
  case (raised e)
  then show ?thesis
    by (auto split: if_splits dest: read_scope_housekeeping housekeeping_call)
next
  case (went_on c1)
  have "pg_tx c1 = pg_tx c \<and> ends_or_keeps pg_saved pg_pending c c1"
    using went_on(1) by (auto split: if_splits dest: read_scope_housekeeping housekeeping_call)
  moreover have "pg_tx c' = pg_tx c1 \<and> ends_or_keeps pg_saved pg_pending c1 c'"
    using went_on(2) housekeeping_call [of CCommit c1 r c'] by (auto split: if_splits)
  ultimately show ?thesis by (auto intro: ends_or_keeps_trans)
qed

lemma set_current_schema_any:
  assumes "set_current_schema w auto x c = (r, c')"
  shows "pg_tx c' = pg_tx c \<and> ends_or_keeps pg_saved pg_pending c c'"
proof -
  obtain r1 c1 where e: "sa_execute w auto (Housekeeping (''SET search_path TO '' @ x)) c = (r1, c1)" by fastforce
  show ?thesis
    using assms e sa_execute_housekeeping [OF e]
    by (auto simp: set_current_schema_def ends_or_keeps_def split: option.splits if_splits)
qed

lemma commit_caller_work_result:
  assumes "commit_caller_work w c = (r, c')"
  shows "ends_or_keeps pg_saved pg_pending c c'"
proof -
  obtain r1 c1 where k: "conn w CCommit (c\<lparr>pg_caller_tx := None\<rparr>) = (r1, c1)" by fastforce
  show ?thesis
    using assms k housekeeping_call [OF k]
    by (auto simp: commit_caller_work_def Let_def ends_or_keeps_def split: if_splits)
qed

text \<open>A statement in autocommit isolation: nothing is pending, and it is saved as soon as it has run,
  whether or not what follows it raises.\<close>

definition idle :: "pg_state \<Rightarrow> bool" where
  "idle c \<longleftrightarrow> \<not> pg_tx c \<and> pg_pending c = []"

lemma idle_kept: "idle c \<Longrightarrow> pg_tx c' = pg_tx c \<and> ends_or_keeps pg_saved pg_pending c c' \<Longrightarrow> idle c' \<and> pg_saved c' = pg_saved c"
  by (auto simp: idle_def ends_or_keeps_def)

definition saves :: "string \<Rightarrow> exc option \<Rightarrow> pg_state \<Rightarrow> pg_state \<Rightarrow> bool" where
  "saves s r c c' \<longleftrightarrow> idle c' \<and> (pg_saved c' = pg_saved c @ [Stmt s] \<or> r \<noteq> None \<and> pg_saved c' = pg_saved c)"

lemma committed_at_once:
  assumes "seq (conn w (CExec True (UserSql s))) (\<lambda>c. if b c then conn w CCommit c else (None, c)) c = (r, c')" "idle c"
  shows "saves s r c c'"
  using assms(1)
proof (cases rule: seq_cases)
  case (raised e)
  then show ?thesis using exec_call [OF raised(1)] assms(2) by (auto simp: saves_def idle_def unchanged_def)
next
  case (went_on c1)
  have c1: "idle c1 \<and> pg_saved c1 = pg_saved c @ [Stmt s]"
    using exec_call [OF went_on(1)] assms(2) by (auto simp: idle_def)
  have "pg_tx c' = pg_tx c1 \<and> ends_or_keeps pg_saved pg_pending c1 c'"
    using went_on(2) housekeeping_call [of CCommit c1 r c'] by (auto split: if_splits)
  from idle_kept [OF conjunct1 [OF c1] this] show ?thesis using c1 by (simp add: saves_def)
qed

lemma copy_from_stdin_idle:
  assumes "copy_from_stdin w True s c = (r, c')" "idle c"
  shows "saves s r c c'"
  using assms(1) unfolding copy_from_stdin_def
proof (cases rule: seq_cases)
  case (raised e)
  then have "conn w CBegin c = (Some e, c')" by (auto split: if_splits)
  from quiet_call [OF this] show ?thesis using raised assms(2) by (auto simp: saves_def idle_def unchanged_def)
next
  case (went_on c1)
  have c1: "idle c1 \<and> pg_saved c1 = pg_saved c"
    using went_on(1) quiet_call [of w CBegin c None c1] assms(2) by (auto simp: idle_def unchanged_def split: if_splits)
  from committed_at_once [OF went_on(2)] c1 show ?thesis by (simp add: saves_def)
qed

lemma prepared_idle:
  assumes "(if truthy x then seq (create_schema_if_not_exists w auto (the x)) (set_current_schema w auto (the x)) else skip) c = (r, c')" "idle c"
  shows "idle c' \<and> pg_saved c' = pg_saved c"
proof (cases "truthy x")
  case True
  then have "seq (create_schema_if_not_exists w auto (the x)) (set_current_schema w auto (the x)) c = (r, c')" using assms(1) by simp
  then show ?thesis
  proof (cases rule: seq_cases)
    case (raised e)
    show ?thesis by (rule idle_kept [OF assms(2) sa_query_housekeeping [OF create_schema_looks [OF raised(1)]]])
  next
    case (went_on c1)
    note c1 = idle_kept [OF assms(2) sa_query_housekeeping [OF create_schema_looks [OF went_on(1)]]]
    show ?thesis using idle_kept [OF conjunct1 [OF c1] set_current_schema_any [OF went_on(2)]] c1 by simp
  qed
qed (use assms in \<open>simp add: skip_def\<close>)

lemma execute_statement_idle:
  assumes "execute_statement w True x s c = (r, c')" "idle c"
  shows "saves s r c c'"
proof (cases "cw_copy_out w s")
  case True
  then show ?thesis using assms by (auto simp: execute_statement_def saves_def)
next
  case False
  with assms(1) have "seq (if truthy x then seq (create_schema_if_not_exists w True (the x)) (set_current_schema w True (the x)) else skip)
      (if cw_copy_in w s then copy_from_stdin w True s else sa_execute w True (UserSql s)) c = (r, c')"
    by (simp add: execute_statement_def)
  then show ?thesis
  proof (cases rule: seq_cases)
    case (raised e)
    then show ?thesis using prepared_idle [OF raised(1) assms(2)] by (simp add: saves_def)
  next
    case (went_on c1)
    note c1 = prepared_idle [OF went_on(1) assms(2)]
    from went_on(2) have "saves s r c1 c'"
      using copy_from_stdin_idle committed_at_once c1 by (auto simp: sa_execute_def split: if_splits)
    then show ?thesis using c1 by (simp add: saves_def)
  qed
qed

lemma back_to_idle:
  assumes "seq (end_open_transaction w) (conn w k) c = (r, c')" "idle c" "k = CRestoreLevel \<or> k = CAutocommitLevel"
  shows "pg_pending c' = [] \<and> pg_saved c' = pg_saved c"
  using assms(1)
proof (cases rule: seq_cases)
  case (raised e)
  then show ?thesis using end_open_transaction_result [OF raised(1)] assms(2) by (auto simp: idle_def)
next
  case (went_on c1)
  then show ?thesis
    using end_open_transaction_result [OF went_on(1)] quiet_call [OF went_on(2)] assms(2,3) by (auto simp: idle_def unchanged_def)
qed

lemma execute_autocommit_result:
  assumes "execute_autocommit w x s c = (r, c')"
  shows "pg_saved c' = pg_saved c @ [Stmt s] \<and> pg_pending c' = []
    \<or> r \<noteq> None \<and> pg_saved c' = pg_saved c \<and> (pg_pending c' = pg_pending c \<or> pg_pending c' = [])"
  using assms unfolding execute_autocommit_def
proof (cases rule: seq_cases)
  case (raised e)
  then show ?thesis using end_open_transaction_result [OF raised(1)] by auto
next
  case (went_on c1)
  note c1 = end_open_transaction_result [OF went_on(1)]
  from went_on(2) show ?thesis
  proof (cases rule: seq_cases)
    case (raised e)
    then show ?thesis using c1 quiet_call [OF raised(1)] by (simp add: unchanged_def)
  next
    case (went_on c2)
    then have c2: "idle c2" "pg_saved c2 = pg_saved c"
      using c1 quiet_call [OF went_on(1)] by (simp_all add: idle_def unchanged_def)
    obtain r3 c3 where e: "execute_statement w True x s c2 = (r3, c3)" by fastforce
    obtain r4 c4 where f: "seq (end_open_transaction w) (conn w CRestoreLevel) c3 = (r4, c4)" by fastforce
    note c3 = execute_statement_idle [OF e c2(1)]
    have c4: "c4 = c'" "r4 = None \<Longrightarrow> r = r3" "r4 \<noteq> None \<Longrightarrow> r \<noteq> None"
      using went_on(2) e f by (auto split: option.splits)
    have "pg_pending c' = [] \<and> pg_saved c' = pg_saved c3"
      using back_to_idle [OF f] c3 c4(1) by (simp add: saves_def)
    then show ?thesis using c3 c2(2) c4 by (cases "r4 = None") (auto simp: saves_def)
  qed
qed

lemma check_result:
  assumes "check_transaction_state w c = (r, c')"
  shows "ends_or_keeps pg_saved pg_pending c c' \<and> (pg_tx c \<longrightarrow> pg_tx c' \<and> unchanged pg_saved pg_pending c c')"
proof -
  obtain r1 c1 where q: "sa_query w False (Housekeeping ''SELECT 1'') c = (r1, c1)" by fastforce
  have "c1 = c'" using assms q by (auto simp: check_transaction_state_def split: option.splits)
  then show ?thesis using sa_query_housekeeping [OF q] sa_query_quiet_open [OF q] by simp
qed

lemma counted_eq:
  "counted w f c = (Inr n, c') \<Longrightarrow> f c = (None, c')" "counted w f c = (Inl e, c') \<Longrightarrow> f c = (Some e, c')"
  by (auto simp: counted_def split: prod.splits option.splits)

end

sublocale pg_world \<subseteq> transactional_provider "pg_provider w" pg_saved pg_pending
proof (unfold_locales, unfold pg_provider_def provider.simps, goal_cases)
  case (2 c c') then show ?case using begin_transaction_result by blast
next case (3 c e c') then show ?case using begin_transaction_result by blast
next case (4 c c') then show ?case using commit_transaction_result [OF 4(2)] by simp
next case (5 c e c') then show ?case using commit_transaction_result [OF 5] by (simp add: unchanged_ends_or_keeps)
next case (6 c c') then show ?case using rollback_transaction_result [OF 6] by simp
next case (7 c e c') then show ?case using rollback_transaction_result [OF 7] by simp
next case (8 c sch s n c') then show ?case using execute_statement_open [OF counted_eq(1) [OF 8(2)] 8(1)] by (simp add: adds_def)
next case (9 c sch s e c') then show ?case using execute_statement_open [OF counted_eq(2) [OF 9(2)] 9(1)] by (simp add: adds_def unchanged_def)
next case (10 c s n c') then show ?case using sa_query_open [OF counted_eq(1) [OF 10(2)] 10(1)] by (simp add: adds_def)
next case (11 c s e c') then show ?case using sa_query_open [OF counted_eq(2) [OF 11(2)] 11(1)] by (simp add: adds_def unchanged_def)
next case (12 c row c') then show ?case using record_row_open [OF 12(2,1)] by (simp add: adds_def)
next case (13 c row e c') then show ?case using record_row_open [OF 13(2,1)] by (simp add: adds_def unchanged_def)
next case (14 sch s c n c') then show ?case using execute_autocommit_result [OF counted_eq(1) [OF 14]] by simp
next case (15 sch s c e c') then show ?case using execute_autocommit_result [OF counted_eq(2) [OF 15]] by auto
next case (16 c r c') then show ?case using check_result [OF 16(2)] by simp
next case (17 c r c') then show ?case using check_result [OF 17] by simp
next case (18 c s r c') then show ?case using set_current_schema_open [OF 18(2,1)] by simp
next case (19 s c r c') then show ?case using set_current_schema_any [OF 19] by simp
next case (20 c r c') then show ?case by (rule commit_caller_work_result)
qed (simp_all add: skip_def unchanged_def)

subsection \<open>A unit on PostgreSQL\<close>

text \<open>A connection on which every call succeeds but a second \<open>begin\<close>, to a database that has its schema
  and its history table. The identity of a transaction is the number of calls that ended one.\<close>

definition willing_world :: conn_world where
  "willing_world =
     \<lparr>cw_answer = (\<lambda>ks k. if k = CBegin \<and> vw_in_tx (view_of ks)
        then Some (Failure ''This connection has already initialized a SQLAlchemy Transaction()'') else None),
      cw_transaction = (\<lambda>ks. if vw_in_tx (view_of ks)
        then Some (length (filter (\<lambda>(k, ok). k \<in> {CCommit, CRollback, CTxCommit, CTxRollback}) ks)) else None),
      cw_exists = (\<lambda>ks. True), cw_rowcount = (\<lambda>ks. 1), cw_caller_owned = False,
      cw_dbapi_autocommit = False, cw_savepoints = True,
      cw_copy_in = (\<lambda>s. False), cw_copy_out = (\<lambda>s. False)\<rparr>"

text \<open>An engine on a provider: a script is one statement a line, and \<open>VACUUM\<close> refuses a transaction.\<close>

definition line_engine :: "conn_world \<Rightarrow> pg_state engine" where
  "line_engine w =
     \<lparr>ee_provider = pg_provider w, ee_history = True, ee_service = True, ee_service_schema = Some ''app'',
      ee_analysis = None, ee_class = (\<lambda>s. if starts_with s ''INSERT'' then ClassDml else ClassDdl), ee_normalize = (\<lambda>s. s),
      ee_objects = (\<lambda>s. []), ee_mask = (\<lambda>s. s), ee_time = (\<lambda>c. int (length (pg_calls c))), ee_text = exc_text,
      ee_schema = Some ''app'',
      ee_quirks = \<lparr>qk_non_transactional = [(\<lambda>t. starts_with t ''VACUUM'', ''VACUUM'')], qk_control = [],
        qk_blank_comments = (\<lambda>s. None), qk_parser = None\<rparr>,
      ee_sql_supported = True, ee_pre_check = None, ee_preflight = (\<lambda>m ss. None), ee_substitute = (\<lambda>s. s),
      ee_split = (\<lambda>s. let ls = splitlines s in
        Inr (map (\<lambda>l. \<lparr>sm_text = l, sm_line = 1, sm_terminator = None, sm_kind = KSql, sm_multi = False, sm_repeat = 1,
                       sm_analysis = None, sm_start = 0, sm_end = length l, sm_execution = None\<rparr>) ls, map (\<lambda>l. None) ls)),
      ee_sqlplus = (\<lambda>s. False), ee_directive = (\<lambda>s. None), ee_dialect = ''postgresql'',
      ee_python = \<lparr>py_syntax = (\<lambda>s. None), py_load = (\<lambda>m. Inr ScriptReturns), py_select_into = (\<lambda>s. False)\<rparr>, ee_installed_by = ''dblift''\<rparr>"

interpretation willing: pg_world willing_world
  by unfold_locales (simp_all add: willing_world_def)

interpretation on_willing: engine_on_provider "pg_provider willing_world" pg_saved pg_pending "line_engine willing_world"
  by unfold_locales (simp add: line_engine_def)

definition opened :: pg_state where
  "opened = \<lparr>pg_calls = [], pg_tx = False, pg_caller_tx = None, pg_schema = None\<rparr>"

definition fresh_unit :: "pg_state \<Rightarrow> pg_state unit_state" where
  "fresh_unit c = \<lparr>us_conn = c, us_kind = MigrateResult, us_journal = None, us_error = None, us_rows = [],
     us_warnings = [], us_persisted = None\<rparr>"

definition script_of :: "string \<Rightarrow> string \<Rightarrow> migration" where
  "script_of name body =
     \<lparr>script_name = name, version = Some ''1'', description = ''x'', mtype = SQL, tags = [], checksum = None,
      content = body, path = None, format = FSQL, success = VNone, status = ''PENDING'', execution_time = None,
      installed_on = None, installed_by = None, installed_rank = None, error_message = None, resolved = True\<rparr>"

context pg_world
begin

lemma provides: "transactional_provider (pg_provider w) pg_saved pg_pending"
  by unfold_locales

end

lemma postgres_engine:
  "pg_world w \<Longrightarrow> ee_provider eng = pg_provider w \<Longrightarrow> engine_on_provider (pg_provider w) pg_saved pg_pending eng"
  by (intro engine_on_provider.intro engine_on_provider_axioms.intro pg_world.provides)


definition two_statements :: migration where
  "two_statements = script_of ''V1__t.sql'' (''CREATE TABLE t (a int)'' @ CHR 0x0A # ''INSERT INTO t VALUES (1)'')"


text \<open>C29. A migration that must run outside a transaction on PostgreSQL leaves statements of its script in
  order, no statement twice, and one row that tells the truth: a success row only after all of them, at
  most a failure row after an error.\<close>

theorem postgres_unit_in_order:
  assumes "pg_world w" and "ee_provider eng = pg_provider w"
    and "execute_unit eng m st = (r, st')" and "us_error st = None" and "us_persisted st = None"
    and "runs_autocommit eng m" and "unit_plan eng m = Some (d, ss)" and "no_queries eng ss"
  shows "\<exists>X. (X = pg_saved (us_conn st) \<or> X = pg_saved (us_conn st) @ pg_pending (us_conn st))
    \<and> in_order_with_row pg_saved eng m ss X r st'"
  by (rule engine_on_provider.execute_unit_in_order [OF postgres_engine [OF assms(1,2)] assms(3-)])

definition vacuum_script :: migration where
  "vacuum_script = script_of ''V2__v.sql'' (''VACUUM t'' @ CHR 0x0A # ''VACUUM u'')"

theorem postgres_unit_in_order_witness:
  "\<exists>r st' X. execute_unit (line_engine willing_world) vacuum_script (fresh_unit opened) = (r, st')
    \<and> (X = pg_saved opened \<or> X = pg_saved opened @ pg_pending opened)
    \<and> in_order_with_row pg_saved (line_engine willing_world) vacuum_script [''VACUUM t'', ''VACUUM u''] X r st'
    \<and> r = None \<and> us_error st' = None
    \<and> pg_saved (us_conn st') = [Stmt ''VACUUM t'', Stmt ''VACUUM u'', Row ''V2__v.sql'' True]"
proof -
  let ?eng = "line_engine willing_world"
  obtain r st' where run: "execute_unit ?eng vacuum_script (fresh_unit opened) = (r, st')" by fastforce
  have "runs_autocommit ?eng vacuum_script" by code_simp
  moreover have "map_option snd (unit_plan ?eng vacuum_script) = Some [''VACUUM t'', ''VACUUM u'']" by code_simp
  then obtain d where "unit_plan ?eng vacuum_script = Some (d, [''VACUUM t'', ''VACUUM u''])" by auto
  moreover have "no_queries ?eng [''VACUUM t'', ''VACUUM u'']" by code_simp
  ultimately have "\<exists>X. (X = pg_saved opened \<or> X = pg_saved opened @ pg_pending opened)
      \<and> in_order_with_row pg_saved ?eng vacuum_script [''VACUUM t'', ''VACUUM u''] X r st'"
    using postgres_unit_in_order [OF willing.pg_world_axioms on_willing.runs_on run] by (simp add: fresh_unit_def)
  moreover have "(case execute_unit ?eng vacuum_script (fresh_unit opened) of (r, st') \<Rightarrow>
      r = None \<and> us_error st' = None
      \<and> pg_saved (us_conn st') = [Stmt ''VACUUM t'', Stmt ''VACUUM u'', Row ''V2__v.sql'' True])"
    by code_simp
  ultimately show ?thesis using run by auto
qed

end
