(* ===== verification/Tokenizer.thy ===== *)
theory Tokenizer
  imports PyString "HOL-Library.Sublist"
begin

text \<open>
  The scanner that reads a SQL script into tokens: \<open>LexicalTokenizer\<close> over \<open>BaseTokenizer\<close>
  (\<open>core/sql_parser/lexical_tokenizer.py\<close>, \<open>base_tokenizer.py\<close>, \<open>tokens.py\<close>), driven by a dialect's
  \<open>LexicalSpec\<close> (\<open>lexical_spec.py\<close>). The specifications that read a script as one stream of tokens are
  modelled (PostgreSQL and its relatives, SQLite, Snowflake); those with rules of a client, batches,
  delimiters, terminator lines or segments, alternative quotes or bracketed names are not. Warnings
  about characters that no rule claims are left out.
\<close>

subsection \<open>Characters\<close>

text \<open>\<open>str.isdigit\<close>, \<open>isalpha\<close> and \<open>isalnum\<close> up to code point 255.\<close>

definition uni_digit :: "char \<Rightarrow> bool" where
  "uni_digit c \<longleftrightarrow> is_digit c \<or> code_point c \<in> {178, 179, 185}"

definition uni_alpha :: "char \<Rightarrow> bool" where
  "uni_alpha c \<longleftrightarrow> is_alpha c \<or> code_point c \<in> {170, 181, 186}
     \<or> 192 \<le> code_point c \<and> code_point c \<notin> {215, 247}"

definition uni_alnum :: "char \<Rightarrow> bool" where
  "uni_alnum c \<longleftrightarrow> uni_alpha c \<or> uni_digit c \<or> code_point c \<in> {188, 189, 190}"

abbreviation newline :: char where
  "newline \<equiv> CHR 0x0A"

definition SQL_KEYWORDS :: "string list" where
  "SQL_KEYWORDS =
     [''SELECT'', ''FROM'', ''WHERE'', ''INSERT'', ''UPDATE'', ''DELETE'', ''CREATE'', ''DROP'', ''ALTER'',
      ''TABLE'', ''INDEX'', ''VIEW'', ''PROCEDURE'', ''FUNCTION'', ''TRIGGER'', ''PACKAGE'', ''BEGIN'', ''END'',
      ''IF'', ''THEN'', ''ELSE'', ''LOOP'', ''WHILE'', ''FOR'', ''CASE'', ''WHEN'', ''DECLARE'', ''AS'', ''IS'', ''OR'',
      ''AND'', ''NOT'', ''NULL'', ''REPLACE'', ''BODY'', ''WRAPPED'', ''GO'', ''DELIMITER'', ''DEFINER'', ''EVENT'',
      ''RETURNS'', ''LANGUAGE'', ''ATOMIC'', ''COPY'', ''STDIN'', ''TRANSACTION'', ''TRAN'', ''CONVERSATION'',
      ''DIALOG'', ''DISTRIBUTED'', ''COMPOUND'', ''EDITIONABLE'', ''NONEDITIONABLE'', ''JAVA'', ''SOURCE'',
      ''EACH'', ''STATEMENT'', ''TYPE'']"

definition SYMBOL_CHARS :: string where
  "SYMBOL_CHARS = ''().,+-*/<>=!?[]{}:|~%&^#@''"

subsection \<open>Tokens and specifications\<close>

datatype token_type =
  KEYWORD | STRING | COMMENT | DELIMITER | SYMBOL | IDENTIFIER | COPY_DATA | META_COMMAND | EOF

record token =
  tk_type :: token_type
  tk_text :: string
  tk_pos :: nat
  tk_line :: nat
  tk_col :: nat
  tk_parens :: nat

record lexical_spec =
  ls_text_blanks :: "char list"
  ls_client_name :: string
  ls_nested_comments :: bool
  ls_quoted_identifier :: char
  ls_escape_prefixes :: "string list"
  ls_plain_string_escapes :: bool
  ls_dollar_quotes :: bool
  ls_dollar_quote_tags :: bool
  ls_meta_prefix :: string
  ls_meta_prefix_line_start :: bool
  ls_safe_meta_commands :: "string list"
  ls_slash_line_comments :: bool
  ls_line_comment_ends :: "char list"
  ls_combine_terminator :: string
  ls_copy_from_stdin :: bool
  ls_terminator_respects_parens :: bool
  ls_routine_heads :: "string list list"
  ls_block_opener :: "string \<times> string"
  ls_nested_block_keywords :: "string list"
  ls_block_closer :: string
  ls_sqlite_shell :: bool
  ls_completion_table :: "nat list list"
  ls_quoted_identifier_escape :: bool
  ls_parameter_prefix :: string
  ls_placeholder_open :: string
  ls_string_quote_doubling :: bool
  ls_unread_blanks_are_code :: bool
  ls_non_ascii_names :: bool
  ls_raw_segment_records :: bool
  ls_refuse_unquoted_scripting :: bool
  ls_refused_character :: "char option"
  ls_refused_character_name :: string
  ls_refused_reason :: string

text \<open>The exceptions a split raises: \<open>UnsafeStatementSplitError\<close> and \<open>UnsupportedMetaCommandError\<close>.\<close>

datatype split_error = UnsafeSplit string | UnsupportedMeta string

subsection \<open>The cursor\<close>

record scanner =
  sc_pos :: nat
  sc_line :: nat
  sc_col :: nat
  sc_parens :: nat
  sc_comments :: "(nat \<times> nat) list"
  sc_copy_pending :: bool
  sc_copy_header :: "token list option"
  sc_statement_start :: bool
  sc_meta_scanned :: nat
  sc_meta_line_has_code :: bool

definition scanner_start :: scanner where
  "scanner_start =
     \<lparr>sc_pos = 0, sc_line = 1, sc_col = 1, sc_parens = 0, sc_comments = [], sc_copy_pending = False,
      sc_copy_header = None, sc_statement_start = True, sc_meta_scanned = 0, sc_meta_line_has_code = False\<rparr>"

abbreviation ahead :: "string \<Rightarrow> scanner \<Rightarrow> string" where
  "ahead sql sc \<equiv> drop (sc_pos sc) sql"

text \<open>\<open>read(n)\<close>: the cursor moves over at most \<open>n\<close> characters.\<close>

definition advance :: "string \<Rightarrow> scanner \<Rightarrow> scanner" where
  "advance t sc =
     sc\<lparr>sc_pos := sc_pos sc + length t,
        sc_line := sc_line sc + length (filter (\<lambda>c. c = newline) t),
        sc_col := (if newline \<in> set t then length (takeWhile (\<lambda>c. c \<noteq> newline) (rev t)) + 1
                   else sc_col sc + length t)\<rparr>"

definition read_chars :: "string \<Rightarrow> nat \<Rightarrow> scanner \<Rightarrow> scanner" where
  "read_chars sql n sc = advance (take n (ahead sql sc)) sc"

definition span_token :: "string \<Rightarrow> token_type \<Rightarrow> nat \<Rightarrow> scanner \<Rightarrow> token \<times> scanner" where
  "span_token sql kind n sc =
     (\<lparr>tk_type = kind, tk_text = take n (ahead sql sc), tk_pos = sc_pos sc, tk_line = sc_line sc,
       tk_col = sc_col sc, tk_parens = sc_parens sc\<rparr>, read_chars sql n sc)"

definition place :: "scanner \<Rightarrow> string" where
  "place sc = '' at line '' @ digits_of_nat (sc_line sc) @ '', column '' @ digits_of_nat (sc_col sc)"

definition unterminated :: "string \<Rightarrow> scanner \<Rightarrow> split_error" where
  "unterminated what sc = UnsafeSplit (''unterminated '' @ what @ '' opened'' @ place sc)"

subsection \<open>Comments and quotes\<close>

text \<open>\<open>_read_block_comment\<close>: how much is read from depth \<open>d\<close> to the matching close, if there is one.\<close>

function read_block_comment :: "bool \<Rightarrow> nat \<Rightarrow> string \<Rightarrow> nat option" where
  "read_block_comment nested d s =
     (if d = 0 then Some 0
      else if s = [] then None
      else if nested \<and> starts_with s ''/*'' then map_option ((+) 2) (read_block_comment nested (d + 1) (drop 2 s))
      else if starts_with s ''*/'' then map_option ((+) 2) (read_block_comment nested (d - 1) (drop 2 s))
      else map_option Suc (read_block_comment nested d (drop 1 s)))"
  by pat_completeness auto
termination
  by (relation "measure (\<lambda>(n, d, s). length s)") auto

declare read_block_comment.simps [simp del]

definition comment_length :: "lexical_spec \<Rightarrow> string \<Rightarrow> nat option" where
  "comment_length spec s =
     (if starts_with s ''//'' \<and> ls_slash_line_comments spec \<or> starts_with s ''--'' \<and> ls_line_comment_ends spec \<noteq> [newline]
      then Some (2 + length (takeWhile (\<lambda>c. c \<notin> set (ls_line_comment_ends spec)) (drop 2 s)))
      else if starts_with s ''--'' then Some (2 + length (takeWhile (\<lambda>c. c \<noteq> newline) (drop 2 s)))
      else if starts_with s ''/*'' then map_option ((+) 2) (read_block_comment (ls_nested_comments spec) 1 (drop 2 s))
      else Some 0)"

definition handle_comment :: "lexical_spec \<Rightarrow> string \<Rightarrow> scanner \<Rightarrow> split_error + token \<times> scanner" where
  "handle_comment spec sql sc =
     (case comment_length spec (ahead sql sc) of
        None \<Rightarrow> Inl (unterminated ''block comment'' sc)
      | Some n \<Rightarrow>
          (case span_token sql COMMENT n sc of
             (t, sc1) \<Rightarrow>
               Inr (if ls_sqlite_shell spec then t else t\<lparr>tk_text := []\<rparr>,
                    sc1\<lparr>sc_comments := sc_comments sc1 @ [(sc_pos sc, sc_pos sc1)]\<rparr>)))"

text \<open>To the closing quote, a doubled one being part of the text.\<close>

fun quoted_length :: "bool \<Rightarrow> char \<Rightarrow> string \<Rightarrow> nat option" where
  "quoted_length doubled q [] = None"
| "quoted_length doubled q [c] = (if c = q then Some 1 else None)"
| "quoted_length doubled q (c # d # s) =
     (if c \<noteq> q then map_option Suc (quoted_length doubled q (d # s))
      else if doubled \<and> d = q then map_option ((+) 2) (quoted_length doubled q s)
      else Some 1)"

text \<open>The same where a backslash takes the next character with it.\<close>

fun escaped_length :: "bool \<Rightarrow> char \<Rightarrow> string \<Rightarrow> nat option" where
  "escaped_length doubled q [] = None"
| "escaped_length doubled q [c] = (if c = q \<and> c \<noteq> CHR 0x5C then Some 1 else None)"
| "escaped_length doubled q (c # d # s) =
     (if c = CHR 0x5C \<or> doubled \<and> c = q \<and> d = q then map_option ((+) 2) (escaped_length doubled q s)
      else if c = q then Some 1
      else map_option Suc (escaped_length doubled q (d # s)))"

definition quote :: char where
  "quote = CHR 0x27"

definition lexeme :: "string \<Rightarrow> token_type \<Rightarrow> string \<Rightarrow> nat option \<Rightarrow> scanner \<Rightarrow> split_error + token \<times> scanner" where
  "lexeme sql kind what n sc =
     (case n of None \<Rightarrow> Inl (unterminated what sc) | Some k \<Rightarrow> Inr (span_token sql kind k sc))"

definition handle_standard_string :: "string \<Rightarrow> scanner \<Rightarrow> split_error + token \<times> scanner" where
  "handle_standard_string sql sc =
     lexeme sql STRING ''string'' (map_option Suc (quoted_length True (hd (ahead sql sc)) (drop 1 (ahead sql sc)))) sc"

definition handle_escape_string :: "lexical_spec \<Rightarrow> string \<Rightarrow> scanner \<Rightarrow> split_error + token \<times> scanner" where
  "handle_escape_string spec sql sc =
     (let s = ahead sql sc; k = (if take 2 s \<in> set (ls_escape_prefixes spec) then 2 else 1)
      in lexeme sql STRING ''string''
           (map_option ((+) k) (escaped_length (ls_string_quote_doubling spec) quote (drop k s))) sc)"

definition handle_quoted_identifier :: "lexical_spec \<Rightarrow> string \<Rightarrow> scanner \<Rightarrow> split_error + token \<times> scanner" where
  "handle_quoted_identifier spec sql sc =
     lexeme sql IDENTIFIER ''quoted identifier''
       (map_option Suc (quoted_length (ls_quoted_identifier_escape spec) (ls_quoted_identifier spec) (drop 1 (ahead sql sc)))) sc"

definition is_non_ascii_name_char :: "lexical_spec \<Rightarrow> char \<Rightarrow> bool" where
  "is_non_ascii_name_char spec c \<longleftrightarrow> ls_non_ascii_names spec \<and> 128 \<le> code_point c"

definition dollar_tag :: "lexical_spec \<Rightarrow> string \<Rightarrow> string" where
  "dollar_tag spec s =
     ''$'' @ takeWhile (\<lambda>c. c \<noteq> CHR ''$'' \<and> (uni_alnum c \<or> c = CHR ''_'' \<or> is_non_ascii_name_char spec c)) (drop 1 s)"

definition handle_dollar_quote :: "lexical_spec \<Rightarrow> string \<Rightarrow> scanner \<Rightarrow> split_error + token \<times> scanner" where
  "handle_dollar_quote spec sql sc =
     (let s = ahead sql sc; opener = dollar_tag spec s
      in if \<not> starts_with (drop (length opener) s) ''$''
         then Inl (UnsafeSplit (''malformed dollar-quote tag'' @ place sc))
         else
           let tag = opener @ ''$''
           in lexeme sql STRING ''dollar-quoted string''
                (map_option (\<lambda>k. length tag + k + length tag) (find_sub tag (drop (length tag) s))) sc)"

definition previous_char :: "string \<Rightarrow> scanner \<Rightarrow> char option" where
  "previous_char sql sc = (if sc_pos sc = 0 then None else Some (sql ! (sc_pos sc - 1)))"

definition is_alternative_string_start :: "lexical_spec \<Rightarrow> string \<Rightarrow> scanner \<Rightarrow> bool" where
  "is_alternative_string_start spec sql sc =
     (let s = ahead sql sc
      in if take 2 s \<in> set (ls_escape_prefixes spec)
         then (case previous_char sql sc of
                 None \<Rightarrow> True
               | Some c \<Rightarrow> \<not> (uni_alnum c \<or> c \<in> {CHR ''_'', CHR ''$'', quote, CHR 0x22}))
         else if \<not> ls_dollar_quotes spec \<or> \<not> starts_with s ''$'' then False
         else if (case previous_char sql sc of None \<Rightarrow> False | Some c \<Rightarrow> uni_alnum c \<or> c \<in> {CHR ''_'', CHR ''$''}) then False
         else (case drop 1 s of
                 [] \<Rightarrow> False
               | c # _ \<Rightarrow> c = CHR ''$''
                   \<or> ls_dollar_quote_tags spec \<and> (uni_alpha c \<or> c = CHR ''_'' \<or> is_non_ascii_name_char spec c)))"

definition handle_string :: "lexical_spec \<Rightarrow> string \<Rightarrow> scanner \<Rightarrow> split_error + token \<times> scanner" where
  "handle_string spec sql sc =
     (let s = ahead sql sc
      in if starts_with s ''$'' then handle_dollar_quote spec sql sc
         else if starts_with s [ls_quoted_identifier spec] then handle_quoted_identifier spec sql sc
         else if take 2 s \<in> set (ls_escape_prefixes spec) then handle_escape_string spec sql sc
         else if ls_plain_string_escapes spec then handle_escape_string spec sql sc
         else handle_standard_string sql sc)"

subsection \<open>Words, numbers and symbols\<close>

definition is_word_char :: "lexical_spec \<Rightarrow> char \<Rightarrow> bool" where
  "is_word_char spec c \<longleftrightarrow> uni_alnum c \<or> c \<in> {CHR ''_'', CHR ''$'', CHR ''#''} \<or> is_non_ascii_name_char spec c"

definition word_kind :: "string \<Rightarrow> token_type" where
  "word_kind w = (if str_upper w \<in> set SQL_KEYWORDS then KEYWORD else IDENTIFIER)"

text \<open>A word of ASCII characters that no quote and no other word character follows.\<close>

definition plain_word_token :: "lexical_spec \<Rightarrow> string \<Rightarrow> scanner \<Rightarrow> (token \<times> scanner) option" where
  "plain_word_token spec sql sc =
     (let s = ahead sql sc; w = takeWhile (\<lambda>c. is_alnum c \<or> c \<in> {CHR ''_'', CHR ''$'', CHR ''#''}) s
      in case drop (length w) s of
           c # _ \<Rightarrow> if c = quote \<or> is_word_char spec c then None else Some (span_token sql (word_kind w) (length w) sc)
         | [] \<Rightarrow> Some (span_token sql (word_kind w) (length w) sc))"

definition handle_keyword :: "lexical_spec \<Rightarrow> string \<Rightarrow> scanner \<Rightarrow> token \<times> scanner" where
  "handle_keyword spec sql sc =
     (let w = takeWhile (is_word_char spec) (ahead sql sc) in span_token sql (word_kind w) (length w) sc)"

fun number_length :: "string \<Rightarrow> nat" where
  "number_length [] = 0"
| "number_length (c # s) =
     (if uni_digit c \<or> c = CHR ''.'' then Suc (number_length s)
      else if to_upper c = CHR ''E''
      then (case s of d # s' \<Rightarrow> if d = CHR ''+'' \<or> d = CHR ''-'' then 2 + number_length s' else Suc (number_length s)
            | [] \<Rightarrow> 1)
      else 0)"

definition handle_number :: "string \<Rightarrow> scanner \<Rightarrow> token \<times> scanner" where
  "handle_number sql sc = span_token sql IDENTIFIER (number_length (ahead sql sc)) sc"

text \<open>A parenthesis changes the depth, and its token has the depth after it.\<close>

definition handle_symbol :: "string \<Rightarrow> scanner \<Rightarrow> token \<times> scanner" where
  "handle_symbol sql sc =
     (let c = hd (ahead sql sc);
          depth = (if c = CHR ''('' then sc_parens sc + 1 else if c = CHR '')'' then sc_parens sc - 1 else sc_parens sc)
      in span_token sql SYMBOL 1 (sc\<lparr>sc_parens := depth\<rparr>))"

definition handle_migration_placeholder :: "lexical_spec \<Rightarrow> string \<Rightarrow> scanner \<Rightarrow> token \<times> scanner" where
  "handle_migration_placeholder spec sql sc =
     (let k = length (ls_placeholder_open spec); s = ahead sql sc;
          body = takeWhile (\<lambda>c. c \<noteq> CHR ''}'') (drop k s)
      in span_token sql IDENTIFIER (k + length body + (if starts_with (drop (k + length body) s) ''}'' then 1 else 0)) sc)"

definition handle_parameter :: "lexical_spec \<Rightarrow> string \<Rightarrow> scanner \<Rightarrow> token \<times> scanner" where
  "handle_parameter spec sql sc =
     (let k = length (ls_parameter_prefix spec)
      in span_token sql SYMBOL (k + length (takeWhile uni_digit (drop k (ahead sql sc)))) sc)"

definition handle_meta_command :: "string \<Rightarrow> scanner \<Rightarrow> token \<times> scanner" where
  "handle_meta_command sql sc =
     span_token sql META_COMMAND (length (takeWhile (\<lambda>c. c \<noteq> newline \<and> c \<noteq> CHR 0x0D) (ahead sql sc))) sc"

subsection \<open>The next token\<close>

definition skip_while :: "(char \<Rightarrow> bool) \<Rightarrow> string \<Rightarrow> scanner \<Rightarrow> scanner" where
  "skip_while P sql sc = read_chars sql (length (takeWhile P (ahead sql sc))) sc"

definition sqlite_blank :: "char \<Rightarrow> bool" where
  "sqlite_blank c \<longleftrightarrow> c \<in> {CHR '' '', CHR 0x09, newline, CHR 0x0C, CHR 0x0D}"

text \<open>What may stand between two tokens.\<close>

definition gap_char :: "lexical_spec \<Rightarrow> char \<Rightarrow> bool" where
  "gap_char spec c \<longleftrightarrow>
     (if ls_sqlite_shell spec then sqlite_blank c
      else if ls_unread_blanks_are_code spec then c \<in> set (ls_text_blanks spec) else is_space c)"

definition skip_whitespace :: "lexical_spec \<Rightarrow> string \<Rightarrow> scanner \<Rightarrow> scanner" where
  "skip_whitespace spec sql sc = skip_while (gap_char spec) sql sc"

text \<open>\<open>BaseTokenizer._next_token\<close> at a character that is not blank.\<close>

definition base_next_token :: "lexical_spec \<Rightarrow> string \<Rightarrow> scanner \<Rightarrow> split_error + token \<times> scanner" where
  "base_next_token spec sql sc =
     (let s = ahead sql sc; c = hd s
      in if starts_with s ''--'' \<or> starts_with s ''/*'' then handle_comment spec sql sc
         else if c = quote \<or> is_alternative_string_start spec sql sc then handle_string spec sql sc
         else if c = CHR '';'' then Inr (span_token sql DELIMITER 1 sc)
         else if c \<in> set SYMBOL_CHARS then Inr (handle_symbol sql sc)
         else if uni_alpha c \<or> c = CHR ''_'' \<or> is_non_ascii_name_char spec c then Inr (handle_keyword spec sql sc)
         else if uni_digit c then Inr (handle_number sql sc)
         else Inr (span_token sql SYMBOL 1 sc))"

text \<open>A dialect with only \<open>$$\<close> refuses a complete \<open>$tag$\<close> opener.\<close>

definition tagged_dollar_opener :: "string \<Rightarrow> bool" where
  "tagged_dollar_opener s =
     (case drop 1 s of
        [] \<Rightarrow> False
      | c # r \<Rightarrow> (is_alpha c \<or> c = CHR ''_'')
          \<and> starts_with (dropWhile (\<lambda>d. is_alnum d \<or> d = CHR ''_'') r) ''$'')"

definition next_code_token :: "lexical_spec \<Rightarrow> string \<Rightarrow> scanner \<Rightarrow> split_error + token \<times> scanner" where
  "next_code_token spec sql sc =
     (let s = ahead sql sc; c = hd s
      in if ls_slash_line_comments spec \<and> starts_with s ''//'' then handle_comment spec sql sc
         else if ls_dollar_quotes spec \<and> \<not> ls_dollar_quote_tags spec \<and> c = CHR ''$'' \<and> tagged_dollar_opener s
         then Inl (UnsafeSplit (''unsupported tagged dollar quote'' @ place sc))
         else if ls_placeholder_open spec \<noteq> [] \<and> starts_with s (ls_placeholder_open spec)
         then Inr (handle_migration_placeholder spec sql sc)
         else if c = ls_quoted_identifier spec then handle_quoted_identifier spec sql sc
         else if ls_parameter_prefix spec \<noteq> [] \<and> starts_with s (ls_parameter_prefix spec)
             \<and> \<not> is_alternative_string_start spec sql sc
         then Inr (handle_parameter spec sql sc)
         else if is_digit c then Inr (handle_number sql sc)
         else if c = CHR '';'' then Inr (span_token sql DELIMITER 1 sc)
         else if c \<in> set SYMBOL_CHARS \<and> \<not> starts_with s ''--'' \<and> \<not> starts_with s ''/*'' then Inr (handle_symbol sql sc)
         else base_next_token spec sql sc)"

text \<open>Whether only blanks precede the cursor on its line; each character is looked at once.\<close>

fun line_has_code :: "char list \<Rightarrow> bool \<Rightarrow> string \<Rightarrow> bool" where
  "line_has_code blanks b [] = b"
| "line_has_code blanks b (c # s) =
     line_has_code blanks (if c = newline \<or> c = CHR 0x0D then False else if c \<notin> set blanks then True else b) s"

definition meta_at_line_start :: "lexical_spec \<Rightarrow> string \<Rightarrow> scanner \<Rightarrow> bool \<times> scanner" where
  "meta_at_line_start spec sql sc =
     (let b = line_has_code (ls_text_blanks spec) (sc_meta_line_has_code sc)
                (take (sc_pos sc - sc_meta_scanned sc) (drop (sc_meta_scanned sc) sql))
      in (\<not> b, sc\<lparr>sc_meta_line_has_code := b, sc_meta_scanned := sc_pos sc\<rparr>))"

definition meta_command_start :: "lexical_spec \<Rightarrow> string \<Rightarrow> scanner \<Rightarrow> bool \<times> scanner" where
  "meta_command_start spec sql sc =
     (if ls_meta_prefix spec \<noteq> [] \<and> [hd (ahead sql sc)] = ls_meta_prefix spec \<and> sc_copy_header sc = None
      then (if \<not> ls_meta_prefix_line_start spec then (True, sc)
            else if starts_with (ahead sql sc) ''!='' then (False, sc)
            else meta_at_line_start spec sql sc)
      else (False, sc))"

text \<open>A quote of SQLite runs to its first closer or to the end of the script.\<close>

definition sqlite_quote_length :: "string \<Rightarrow> nat" where
  "sqlite_quote_length s =
     (let closer = (if hd s = CHR ''['' then CHR '']'' else hd s)
      in case find_sub [closer] (drop 1 s) of None \<Rightarrow> length s | Some k \<Rightarrow> k + 2)"

definition sqlite_word_char :: "char \<Rightarrow> bool" where
  "sqlite_word_char c \<longleftrightarrow> is_alnum c \<or> c = CHR ''_'' \<or> c = CHR ''$'' \<or> 128 \<le> code_point c"

definition next_sqlite_token :: "lexical_spec \<Rightarrow> string \<Rightarrow> scanner \<Rightarrow> split_error + token option \<times> scanner" where
  "next_sqlite_token spec sql sc0 =
     (let sc = skip_while sqlite_blank sql sc0;
          s = ahead sql sc
      in if s = [] then Inr (None, sc)
         else if starts_with s ''--'' \<or> starts_with s ''/*''
         then rbind (handle_comment spec sql sc) (\<lambda>(t, sc1). Inr (Some t, sc1))
         else
           (let (t, sc1) =
                (if hd s \<in> {quote, CHR 0x22, CHR 0x60, CHR ''[''}
                 then span_token sql (if hd s = quote then STRING else IDENTIFIER) (sqlite_quote_length s) sc
                 else if hd s = CHR '';'' then span_token sql DELIMITER 1 sc
                 else if sqlite_word_char (hd s)
                 then (let w = takeWhile sqlite_word_char s in span_token sql (word_kind w) (length w) sc)
                 else span_token sql SYMBOL 1 sc)
            in Inr (Some t, sc1)))"

subsection \<open>COPY data\<close>

text \<open>The words of a header outside parentheses.\<close>

definition copy_header_reads :: "token list \<Rightarrow> string \<Rightarrow> string \<Rightarrow> bool" where
  "copy_header_reads ts direction stream =
     (let ws = map (\<lambda>t. str_upper (tk_text t)) (filter (\<lambda>t. tk_type t \<noteq> COMMENT \<and> tk_parens t = 0) ts)
      in (direction, stream) \<in> set (zip ws (drop 1 ws)))"

text \<open>The rows up to the line that is exactly \<open>\.\<close>: their length, and what is read with that line.\<close>

function copy_rows :: "string \<Rightarrow> nat \<times> nat" where
  "copy_rows s =
     (if s = [] then (0, 0)
      else
        let line = takeWhile (\<lambda>c. c \<noteq> newline) s;
            n = length line + (if length line < length s then 1 else 0)
        in if rstrip_by (\<lambda>c. c = CHR 0x0D) line = [CHR 0x5C, CHR ''.''] then (0, n)
           else (case copy_rows (drop n s) of (d, k) \<Rightarrow> (n + d, n + k)))"
  by pat_completeness auto
termination
  by (relation "measure length") (auto simp: takeWhile_eq_all_conv split: if_splits)

declare copy_rows.simps [simp del]

lemma comment_length_ge: "starts_with s ''--'' \<or> starts_with s ''/*'' \<Longrightarrow> comment_length spec s = Some n \<Longrightarrow> 2 \<le> n"
  by (auto simp: comment_length_def split: if_splits)

lemma sc_pos_advance [simp]: "sc_pos (advance t sc) = sc_pos sc + length t"
  by (simp add: advance_def)

lemma sc_pos_read_chars [simp]: "sc_pos (read_chars sql n sc) = sc_pos sc + min (length sql - sc_pos sc) n"
  by (simp add: read_chars_def)

lemma handle_comment_pos:
  assumes "handle_comment spec sql sc = Inr (t, sc')" "starts_with (ahead sql sc) ''--'' \<or> starts_with (ahead sql sc) ''/*''"
  shows "sc_pos sc < sc_pos sc' \<and> sc_pos sc < length sql"
proof -
  from assms(2) have "sc_pos sc < length sql" by (auto simp: starts_with_iff) (metis drop_all leI list.distinct(1))+
  moreover obtain n where n: "comment_length spec (ahead sql sc) = Some n"
    using assms(1) by (auto simp: handle_comment_def split: option.splits)
  moreover have "2 \<le> n" by (rule comment_length_ge [OF assms(2) n])
  ultimately show ?thesis
    using assms(1) by (auto simp: handle_comment_def span_token_def)
qed

text \<open>What may follow the terminator of a header on its line: blanks and one-line comments.\<close>

function copy_header_rest :: "lexical_spec \<Rightarrow> string \<Rightarrow> nat \<Rightarrow> scanner \<Rightarrow> split_error + scanner" where
  "copy_header_rest spec sql header_line sc =
     (case ahead sql sc of
        [] \<Rightarrow> Inr sc
      | c # _ \<Rightarrow>
          if c = newline \<or> c = CHR 0x0D then Inr sc
          else if c = CHR '' '' \<or> c = CHR 0x09 then copy_header_rest spec sql header_line (read_chars sql 1 sc)
          else if starts_with (ahead sql sc) ''--'' \<or> starts_with (ahead sql sc) ''/*''
          then (case handle_comment spec sql sc of
                  Inl e \<Rightarrow> Inl e
                | Inr (t, sc1) \<Rightarrow>
                    if sc_line sc1 \<noteq> header_line
                    then Inl (UnsafeSplit (''multiline COPY FROM STDIN header comment at line ''
                      @ digits_of_nat header_line @ '', column '' @ digits_of_nat (sc_col sc)))
                    else copy_header_rest spec sql header_line sc1)
          else Inl (UnsafeSplit (''text after COPY FROM STDIN header terminator'' @ place sc)))"
  by pat_completeness auto
termination
proof (relation "measure (\<lambda>(spec, sql, l, sc). length sql - sc_pos sc)", goal_cases)
  case (2 spec sql l sc c r)
  then have "sc_pos sc < length sql" by (metis drop_all leI list.distinct(1))
  then show ?case by simp
next
  case (3 spec sql l sc c r t sc1)
  then show ?case using handle_comment_pos by fastforce
qed simp

declare copy_header_rest.simps [simp del]

definition handle_copy_data :: "lexical_spec \<Rightarrow> string \<Rightarrow> scanner \<Rightarrow> split_error + token \<times> scanner" where
  "handle_copy_data spec sql sc =
     rbind (copy_header_rest spec sql (sc_line sc) sc) (\<lambda>sc1.
       let sc2 = (if starts_with (ahead sql sc1) [CHR 0x0D] then read_chars sql 1 sc1 else sc1);
           sc3 = (if starts_with (ahead sql sc2) [newline] then read_chars sql 1 sc2 else sc2)
       in case copy_rows (ahead sql sc3) of
            (d, k) \<Rightarrow> Inr (fst (span_token sql COPY_DATA d sc3), read_chars sql k sc3))"

definition next_sql_token :: "lexical_spec \<Rightarrow> string \<Rightarrow> scanner \<Rightarrow> split_error + token option \<times> scanner" where
  "next_sql_token spec sql sc0 =
     (if sc_copy_pending sc0
      then rbind (handle_copy_data spec sql (sc0\<lparr>sc_copy_pending := False\<rparr>)) (\<lambda>(t, sc). Inr (Some t, sc))
      else if ls_sqlite_shell spec then next_sqlite_token spec sql sc0
      else
        let sc = skip_whitespace spec sql sc0; s = ahead sql sc
        in if s = [] then Inr (Some (fst (span_token sql EOF 0 sc)), sc)
           else
             (case (if is_alpha (hd s) \<or> hd s = CHR ''_'' then plain_word_token spec sql sc else None) of
                Some (t, sc1) \<Rightarrow> Inr (Some t, sc1)
              | None \<Rightarrow>
                  if ls_combine_terminator spec \<noteq> [] \<and> sc_copy_header sc = None \<and> starts_with s (ls_combine_terminator spec)
                  then (case span_token sql SYMBOL (length (ls_combine_terminator spec)) sc of (t, sc1) \<Rightarrow> Inr (Some t, sc1))
                  else
                    (case meta_command_start spec sql sc of
                       (True, sc1) \<Rightarrow> (case handle_meta_command sql sc1 of (t, sc2) \<Rightarrow> Inr (Some t, sc2))
                     | (False, sc1) \<Rightarrow> rbind (next_code_token spec sql sc1) (\<lambda>(t, sc2). Inr (Some t, sc2)))))"

text \<open>\<open>_next_token\<close> follows the header of a \<open>COPY\<close> up to its terminator.\<close>

definition track_copy :: "lexical_spec \<Rightarrow> token \<Rightarrow> scanner \<Rightarrow> scanner" where
  "track_copy spec t sc =
     (if tk_type t = DELIMITER \<and> tk_parens t = 0
      then sc\<lparr>sc_copy_pending := (case sc_copy_header sc of
                 Some h \<Rightarrow> copy_header_reads h ''FROM'' ''STDIN'' | None \<Rightarrow> False) \<or> sc_copy_pending sc,
              sc_copy_header := None\<rparr>
      else (case sc_copy_header sc of
              Some h \<Rightarrow> sc\<lparr>sc_copy_header := Some (h @ [t])\<rparr>
            | None \<Rightarrow>
                if ls_copy_from_stdin spec \<and> sc_statement_start sc \<and> tk_type t = KEYWORD \<and> str_upper (tk_text t) = ''COPY''
                then sc\<lparr>sc_copy_header := Some []\<rparr> else sc))"

definition track_statement_start :: "lexical_spec \<Rightarrow> token \<Rightarrow> scanner \<Rightarrow> scanner" where
  "track_statement_start spec t sc =
     (if tk_type t \<in> {COMMENT, EOF} then sc
      else sc\<lparr>sc_statement_start :=
        tk_type t \<in> {META_COMMAND, COPY_DATA}
        \<or> tk_parens t = 0 \<and> (tk_type t = DELIMITER
            \<or> tk_type t = SYMBOL \<and> ls_combine_terminator spec \<noteq> [] \<and> tk_text t = ls_combine_terminator spec)\<rparr>)"

definition next_token :: "lexical_spec \<Rightarrow> string \<Rightarrow> scanner \<Rightarrow> split_error + token option \<times> scanner" where
  "next_token spec sql sc =
     (case next_sql_token spec sql sc of
        Inl e \<Rightarrow> Inl e
      | Inr (None, sc1) \<Rightarrow> Inr (None, sc1)
      | Inr (Some t, sc1) \<Rightarrow> Inr (Some t, track_statement_start spec t (track_copy spec t sc1)))"

subsection \<open>Every token is read from the script\<close>

text \<open>A lexeme: from the cursor to the new one, which is further on, with exactly that text.\<close>

definition lexes :: "string \<Rightarrow> scanner \<Rightarrow> token \<Rightarrow> scanner \<Rightarrow> bool" where
  "lexes sql sc t sc' \<longleftrightarrow> tk_type t \<notin> {COPY_DATA, EOF} \<and> tk_pos t = sc_pos sc \<and> sc_pos sc < sc_pos sc' \<and> sc_pos sc' \<le> length sql
     \<and> (tk_type t = COMMENT \<and> tk_text t = [] \<or> tk_text t = take (sc_pos sc' - sc_pos sc) (ahead sql sc))"

lemma take_ahead [simp]: "take (min (length sql - p) n) (drop p sql) = take n (drop p sql)"
  by (cases "n \<le> length sql - p") (simp_all add: min_def)

lemma span_token_lexes:
  assumes "span_token sql kind n sc = (t, sc')" "0 < n" "sc_pos sc < length sql" "kind \<notin> {COPY_DATA, EOF}"
  shows "lexes sql sc t sc'"
  using assms by (auto simp: span_token_def lexes_def)

lemma lexeme_lexes:
  assumes "lexeme sql kind what n sc = Inr (t, sc')" "sc_pos sc < length sql" "\<And>k. n = Some k \<Longrightarrow> 0 < k"
    "kind \<notin> {COPY_DATA, EOF}"
  shows "lexes sql sc t sc'"
  using assms span_token_lexes by (auto simp: lexeme_def split: option.splits)

lemma handle_comment_lexes:
  assumes "handle_comment spec sql sc = Inr (t, sc')" "sc_pos sc < length sql"
    "starts_with (ahead sql sc) ''--'' \<or> starts_with (ahead sql sc) ''/*''
      \<or> starts_with (ahead sql sc) ''//'' \<and> ls_slash_line_comments spec"
  shows "lexes sql sc t sc'"
proof -
  obtain n where n: "comment_length spec (ahead sql sc) = Some n"
    using assms(1) by (auto simp: handle_comment_def split: option.splits)
  then have "0 < n" using assms(3) by (auto simp: comment_length_def split: if_splits)
  then show ?thesis
    using assms(1,2) n by (auto simp: handle_comment_def span_token_def lexes_def split: if_splits)
qed

lemma handle_string_lexes:
  assumes "handle_string spec sql sc = Inr (t, sc')" "sc_pos sc < length sql"
  shows "lexes sql sc t sc'"
  using assms(1) unfolding handle_string_def handle_dollar_quote_def handle_quoted_identifier_def
    handle_escape_string_def handle_standard_string_def Let_def
  by (auto split: if_splits intro!: lexeme_lexes [OF _ assms(2)])

lemma handle_quoted_identifier_lexes:
  "handle_quoted_identifier spec sql sc = Inr (t, sc') \<Longrightarrow> sc_pos sc < length sql \<Longrightarrow> lexes sql sc t sc'"
  unfolding handle_quoted_identifier_def by (erule lexeme_lexes) auto

lemma word_kind_type [simp]: "word_kind w \<noteq> COPY_DATA" "word_kind w \<noteq> EOF" "word_kind w \<noteq> COMMENT"
  by (simp_all add: word_kind_def)

lemma ahead_hd: "sc_pos sc < length sql \<Longrightarrow> \<exists>r. ahead sql sc = hd (ahead sql sc) # r"
  by (metis drop_eq_Nil leD list.exhaust_sel)

lemma takeWhile_pos: "sc_pos sc < length sql \<Longrightarrow> P (hd (ahead sql sc)) \<Longrightarrow> takeWhile P (ahead sql sc) \<noteq> []"
  using ahead_hd [of sc sql] by (metis list.distinct(1) takeWhile.simps(2))

lemma number_pos: "sc_pos sc < length sql \<Longrightarrow> uni_digit (hd (ahead sql sc)) \<Longrightarrow> 0 < number_length (ahead sql sc)"
  using ahead_hd [of sc sql] by (metis number_length.simps(2) zero_less_Suc)

lemma handle_symbol_lexes:
  assumes "handle_symbol sql sc = (t, sc')" "sc_pos sc < length sql"
  shows "lexes sql sc t sc'"
  using assms by (auto simp: handle_symbol_def Let_def span_token_def lexes_def read_chars_def)

lemma base_next_token_lexes:
  assumes "base_next_token spec sql sc = Inr (t, sc')" "sc_pos sc < length sql"
  shows "lexes sql sc t sc'"
proof -
  have word: "lexes sql sc t sc'" if "handle_keyword spec sql sc = (t, sc')"
    "uni_alpha (hd (ahead sql sc)) \<or> hd (ahead sql sc) = CHR ''_'' \<or> is_non_ascii_name_char spec (hd (ahead sql sc))"
    using that span_token_lexes [OF _ _ assms(2)] takeWhile_pos [OF assms(2), of "is_word_char spec"]
    by (auto simp: handle_keyword_def Let_def is_word_char_def uni_alnum_def)
  have number: "lexes sql sc t sc'" if "handle_number sql sc = (t, sc')" "uni_digit (hd (ahead sql sc))"
    using that span_token_lexes [OF _ number_pos [OF assms(2)] assms(2)] by (auto simp: handle_number_def)
  show ?thesis
    using assms(1) handle_comment_lexes [OF _ assms(2)] handle_string_lexes [OF _ assms(2)]
      span_token_lexes [OF _ _ assms(2), of _ 1] handle_symbol_lexes [OF _ assms(2)] word number
    unfolding base_next_token_def Let_def by (auto split: if_splits)
qed

lemma next_code_token_lexes:
  assumes "next_code_token spec sql sc = Inr (t, sc')" "sc_pos sc < length sql"
  shows "lexes sql sc t sc'"
proof -
  have number: "lexes sql sc t sc'" if "handle_number sql sc = (t, sc')" "is_digit (hd (ahead sql sc))"
    using that span_token_lexes [OF _ number_pos [OF assms(2)] assms(2)] by (auto simp: handle_number_def uni_digit_def)
  have hole: "lexes sql sc t sc'" if "handle_migration_placeholder spec sql sc = (t, sc')" "ls_placeholder_open spec \<noteq> []"
    using that span_token_lexes [OF _ _ assms(2)] by (auto simp: handle_migration_placeholder_def Let_def)
  have par: "lexes sql sc t sc'" if "handle_parameter spec sql sc = (t, sc')" "ls_parameter_prefix spec \<noteq> []"
    using that span_token_lexes [OF _ _ assms(2)] by (auto simp: handle_parameter_def Let_def)
  show ?thesis
    using assms(1) handle_comment_lexes [OF _ assms(2)] handle_quoted_identifier_lexes [OF _ assms(2)]
      span_token_lexes [OF _ _ assms(2), of _ 1] handle_symbol_lexes [OF _ assms(2)] number hole par
      base_next_token_lexes [OF _ assms(2)]
    unfolding next_code_token_def Let_def by (auto split: if_splits)
qed

text \<open>What stands between the cursor and the next token is blank, and the token is the text up to the new
  cursor; a comment has no text, and COPY data leaves out what frames it.\<close>

definition line_end :: "string \<Rightarrow> nat \<Rightarrow> nat" where
  "line_end source p = (case find_sub [newline] (drop p source) of None \<Rightarrow> length source | Some k \<Rightarrow> p + k + 1)"

text \<open>COPY data that ends at \<open>e\<close> is framed by the line after it, if there is one.\<close>

definition copy_end :: "string \<Rightarrow> nat \<Rightarrow> nat" where
  "copy_end source e = (if starts_with (drop e source) [CHR 0x5C, CHR ''.''] then line_end source e else e)"

definition token_read :: "lexical_spec \<Rightarrow> string \<Rightarrow> scanner \<Rightarrow> token \<Rightarrow> scanner \<Rightarrow> bool" where
  "token_read spec sql sc t sc' \<longleftrightarrow> sc_pos sc \<le> tk_pos t \<and> sc_pos sc < sc_pos sc' \<and> sc_pos sc' \<le> length sql
     \<and> tk_text t = take (length (tk_text t)) (drop (tk_pos t) sql) \<and> tk_pos t + length (tk_text t) \<le> sc_pos sc'
     \<and> (tk_type t \<noteq> COPY_DATA \<longrightarrow> list_all (gap_char spec) (take (tk_pos t - sc_pos sc) (ahead sql sc))
          \<and> (tk_type t = COMMENT \<or> tk_pos t + length (tk_text t) = sc_pos sc'))
     \<and> (tk_type t = EOF \<longrightarrow> sc_pos sc' = length sql)
     \<and> (tk_type t = COPY_DATA \<longrightarrow> sc_pos sc' = copy_end sql (tk_pos t + length (tk_text t)))
     \<and> (tk_type t \<notin> {COMMENT, COPY_DATA, EOF} \<longrightarrow> tk_text t \<noteq> [] \<and> \<not> gap_char spec (hd (tk_text t)))"

lemma read_while:
  assumes "sc1 = skip_while P sql sc"
  shows "sc_pos sc \<le> sc_pos sc1" "list_all P (take (sc_pos sc1 - sc_pos sc) (ahead sql sc))"
    "sc_pos sc \<le> length sql \<Longrightarrow> sc_pos sc1 \<le> length sql" "ahead sql sc1 \<noteq> [] \<Longrightarrow> \<not> P (hd (ahead sql sc1))"
proof -
  let ?w = "takeWhile P (ahead sql sc)"
  have le: "length ?w \<le> length sql - sc_pos sc" using length_takeWhile_le [of P "ahead sql sc"] by simp
  show "sc_pos sc \<le> sc_pos sc1" "sc_pos sc \<le> length sql \<Longrightarrow> sc_pos sc1 \<le> length sql" using assms [unfolded skip_while_def] le by auto
  have p: "sc_pos sc1 - sc_pos sc = length ?w" using assms [unfolded skip_while_def] le by simp
  then show "list_all P (take (sc_pos sc1 - sc_pos sc) (ahead sql sc))"
    by (metis list_all_iff set_takeWhileD takeWhile_eq_take)
  have "sc_pos sc1 = sc_pos sc + length ?w" using assms [unfolded skip_while_def] le by simp
  then have "ahead sql sc1 = dropWhile P (ahead sql sc)"
    by (simp add: dropWhile_eq_drop add.commute)
  then show "ahead sql sc1 \<noteq> [] \<Longrightarrow> \<not> P (hd (ahead sql sc1))" using hd_dropWhile by metis
qed

lemma lexes_after_gap:
  assumes "lexes sql sc1 t sc'" "sc_pos sc \<le> sc_pos sc1"
    "list_all (gap_char spec) (take (sc_pos sc1 - sc_pos sc) (ahead sql sc))" "\<not> gap_char spec (hd (ahead sql sc1))"
  shows "token_read spec sql sc t sc'"
proof -
  have "tk_text t \<noteq> [] \<and> hd (tk_text t) = hd (ahead sql sc1)" if "tk_type t \<noteq> COMMENT"
    using assms(1) that by (auto simp: lexes_def hd_take)
  then show ?thesis using assms by (auto simp: lexes_def token_read_def)
qed

lemma next_sqlite_token_read:
  assumes "next_sqlite_token spec sql sc = Inr (r, sc')" "ls_sqlite_shell spec" "sc_pos sc < length sql"
  shows "case r of None \<Rightarrow> sc_pos sc' = length sql | Some t \<Rightarrow> token_read spec sql sc t sc' \<and> tk_type t \<notin> {COPY_DATA, EOF}"
proof -
  define sc1 where "sc1 = skip_while sqlite_blank sql sc"
  note gap = read_while [OF sc1_def]
  have le: "sc_pos sc1 \<le> length sql" using gap(3) assms(3) by simp
  show ?thesis
  proof (cases "ahead sql sc1 = []")
    case True
    then show ?thesis using assms(1) le by (simp add: next_sqlite_token_def sc1_def [symmetric])
  next
    case False
    then have lt: "sc_pos sc1 < length sql" by simp
    have word: "takeWhile sqlite_word_char (ahead sql sc1) \<noteq> []" if "sqlite_word_char (hd (ahead sql sc1))"
      using takeWhile_pos [OF lt, of sqlite_word_char] that by simp
    have q: "0 < sqlite_quote_length (ahead sql sc1)"
      using lt by (auto simp: sqlite_quote_length_def Let_def split: option.split)
    obtain t where t: "r = Some t" "lexes sql sc1 t sc'"
      using assms(1) False handle_comment_lexes [OF _ lt] span_token_lexes [OF _ _ lt, of _ 1] word q
        span_token_lexes [OF _ _ lt, of _ "sqlite_quote_length (ahead sql sc1)"]
        span_token_lexes [OF _ _ lt, of _ "length (takeWhile sqlite_word_char (ahead sql sc1))"]
      by (auto simp: next_sqlite_token_def sc1_def [symmetric] Let_def split: if_splits prod.splits)
    have "token_read spec sql sc t sc'"
      using lexes_after_gap [OF t(2) gap(1)] gap(2,4) False assms(2) by (simp add: gap_char_def [abs_def])
    then show ?thesis using t by (auto simp: lexes_def)
  qed
qed

lemma lexes_from: "lexes sql sc1 t sc' \<Longrightarrow> sc_pos sc1 = sc_pos sc \<Longrightarrow> lexes sql sc t sc'"
  by (simp add: lexes_def)

text \<open>COPY data: at least the end of the line of its header is read.\<close>

lemma copy_header_rest_pos:
  "copy_header_rest spec sql l sc = Inr sc' \<Longrightarrow> sc_pos sc < length sql
   \<Longrightarrow> sc_pos sc \<le> sc_pos sc' \<and> sc_pos sc' \<le> length sql
     \<and> (sc_pos sc' = sc_pos sc \<longrightarrow> hd (ahead sql sc') \<in> {newline, CHR 0x0D})"
proof (induction spec sql l sc rule: copy_header_rest.induct)
  case (1 spec sql l sc)
  obtain c r where cr: "ahead sql sc = c # r" using ahead_hd [OF 1(4)] by metis
  note step = 1(3) [unfolded copy_header_rest.simps [of spec sql l sc] cr list.case]
  consider "c = newline \<or> c = CHR 0x0D" | "c \<noteq> newline" "c \<noteq> CHR 0x0D" "c = CHR '' '' \<or> c = CHR 0x09"
    | t sc1 where "c \<noteq> newline" "c \<noteq> CHR 0x0D" "\<not> (c = CHR '' '' \<or> c = CHR 0x09)"
        "starts_with (ahead sql sc) ''--'' \<or> starts_with (ahead sql sc) ''/*''"
        "handle_comment spec sql sc = Inr (t, sc1)" "sc_line sc1 = l" "copy_header_rest spec sql l sc1 = Inr sc'"
    using step cr by (auto split: if_splits sum.splits prod.splits)
  then show ?case
  proof cases
    case 1
    then show ?thesis using step cr 1 \<open>sc_pos sc < length sql\<close> by auto
  next
    case 2
    then have rec: "copy_header_rest spec sql l (read_chars sql 1 sc) = Inr sc'" using step by auto
    show ?thesis
    proof (cases "sc_pos (read_chars sql 1 sc) < length sql")
      case True
      show ?thesis using "1.IH"(1) [OF cr _ 2(3) rec True] 2 \<open>sc_pos sc < length sql\<close> by auto
    next
      case False
      then have "copy_header_rest spec sql l (read_chars sql 1 sc) = Inr (read_chars sql 1 sc)"
        by (subst copy_header_rest.simps) simp
      then show ?thesis using rec \<open>sc_pos sc < length sql\<close> by auto
    qed
  next
    case (3 t sc1)
    have "lexes sql sc t sc1" using handle_comment_lexes [OF 3(5) \<open>sc_pos sc < length sql\<close>] 3(4) by auto
    then have lt: "sc_pos sc < sc_pos sc1" "sc_pos sc1 \<le> length sql" by (auto simp: lexes_def)
    show ?thesis
    proof (cases "sc_pos sc1 < length sql")
      case True
      have "sc_pos sc1 \<le> sc_pos sc' \<and> sc_pos sc' \<le> length sql
          \<and> (sc_pos sc' = sc_pos sc1 \<longrightarrow> hd (ahead sql sc') \<in> {newline, CHR 0x0D})"
        by (rule "1.IH"(2) [OF cr _ _ _ 3(5)]) (use 3 True in auto)
      then show ?thesis using lt by auto
    next
      case False
      then have "copy_header_rest spec sql l sc1 = Inr sc1" by (subst copy_header_rest.simps) simp
      then show ?thesis using 3(7) lt by simp
    qed
  qed
qed

lemma copy_rows_le: "copy_rows s = (d, k) \<Longrightarrow> d \<le> k \<and> k \<le> length s"
proof (induction s arbitrary: d k rule: copy_rows.induct)
  case (1 s)
  define line where "line = takeWhile (\<lambda>c. c \<noteq> newline) s"
  define n where "n = length line + (if length line < length s then 1 else 0)"
  have n: "n \<le> length s" using length_takeWhile_le [of "\<lambda>c. c \<noteq> newline" s] by (auto simp: n_def line_def)
  obtain d' k' where r: "copy_rows (drop n s) = (d', k')" by fastforce
  show ?case
    using 1 n r copy_rows.simps [of s] by (fastforce simp: Let_def line_def [symmetric] n_def [symmetric] split: if_splits)
qed

lemma find_char: "find_sub [c] s = (if c \<in> set s then Some (length (takeWhile (\<lambda>x. x \<noteq> c) s)) else None)"
  by (induction s) auto

lemma takeWhile_length_less: "length (takeWhile (\<lambda>x. x \<noteq> c) s) < length s \<longleftrightarrow> c \<in> set s"
  by (induction s) auto

lemma copy_rows_end:
  "copy_rows s = (d, k) \<Longrightarrow> d = length s \<and> k = d
     \<or> starts_with (drop d s) [CHR 0x5C, CHR ''.'']
       \<and> k = (case find_sub [newline] (drop d s) of None \<Rightarrow> length s | Some j \<Rightarrow> d + j + 1)"
proof (induction s arbitrary: d k rule: copy_rows.induct)
  case (1 s)
  define line where "line = takeWhile (\<lambda>c. c \<noteq> newline) s"
  define n where "n = length line + (if length line < length s then 1 else 0)"
  have n: "n = (if newline \<in> set s then length line + 1 else length s)"
    using takeWhile_length_less [of newline s] length_takeWhile_le [of "\<lambda>c. c \<noteq> newline" s]
    by (auto simp: n_def line_def)
  obtain d' k' where r: "copy_rows (drop n s) = (d', k')" by fastforce
  note eq = copy_rows.simps [of s, folded line_def, unfolded Let_def, folded n_def]
  consider "s = []" | "s \<noteq> []" "rstrip_by (\<lambda>c. c = CHR 0x0D) line = [CHR 0x5C, CHR ''.'']"
    | "s \<noteq> []" "rstrip_by (\<lambda>c. c = CHR 0x0D) line \<noteq> [CHR 0x5C, CHR ''.'']" by blast
  then show ?case
  proof cases
    case 1
    then show ?thesis using "1.prems" eq by simp
  next
    case 2
    then have dk: "d = 0" "k = n" using "1.prems" eq by (simp_all add: line_def [symmetric] n_def [symmetric])
    have "prefix (rstrip_by (\<lambda>c. c = CHR 0x0D) line) line"
      by (simp add: rstrip_by_def prefix_def) (metis append_Nil rev_append rev_rev_ident takeWhile_dropWhile_id)
    moreover have "prefix line s" unfolding line_def by (metis prefixI takeWhile_dropWhile_id)
    ultimately have "prefix [CHR 0x5C, CHR ''.''] s" using 2(2) by (metis prefix_order.trans)
    then have "starts_with s [CHR 0x5C, CHR ''.'']" by (auto simp: starts_with_iff prefix_def)
    then show ?thesis using dk n by (simp add: find_char line_def)
  next
    case 3
    then have dk: "d = n + d'" "k = n + k'" using "1.prems" eq r by (simp_all add: line_def [symmetric] n_def [symmetric])
    have le: "n \<le> length s" unfolding n_def line_def using length_takeWhile_le [of "\<lambda>c. c \<noteq> newline" s] by auto
    have "d' = length (drop n s) \<and> k' = d'
        \<or> starts_with (drop d' (drop n s)) [CHR 0x5C, CHR ''.'']
          \<and> k' = (case find_sub [newline] (drop d' (drop n s)) of None \<Rightarrow> length (drop n s) | Some j \<Rightarrow> d' + j + 1)"
      using "1.IH" [OF 3(1) line_def n_def] 3(2) r by simp
    then show ?thesis using dk le by (auto simp: add.commute split: option.splits)
  qed
qed

lemma handle_copy_data_read:
  assumes "handle_copy_data spec sql sc = Inr (t, sc')" "sc_pos sc < length sql"
  shows "token_read spec sql sc t sc'" "tk_type t = COPY_DATA"
proof -
  obtain sc1 where sc1: "copy_header_rest spec sql (sc_line sc) sc = Inr sc1"
    using assms(1) by (auto simp: handle_copy_data_def)
  define sc2 where "sc2 = (if starts_with (ahead sql sc1) [CHR 0x0D] then read_chars sql 1 sc1 else sc1)"
  define sc3 where "sc3 = (if starts_with (ahead sql sc2) [newline] then read_chars sql 1 sc2 else sc2)"
  obtain d k where dk: "copy_rows (ahead sql sc3) = (d, k)" by fastforce
  have t: "t = fst (span_token sql COPY_DATA d sc3)" "sc' = read_chars sql k sc3"
    using assms(1) unfolding handle_copy_data_def sc1 rbind.simps Let_def sc2_def [symmetric] sc3_def [symmetric] dk
    by simp_all
  note p = copy_header_rest_pos [OF sc1 assms(2)]
  have pos: "sc_pos sc1 \<le> sc_pos sc3" "sc_pos sc3 \<le> length sql" using p by (auto simp: sc2_def sc3_def)
  have "sc_pos sc < sc_pos sc3" if "sc_pos sc1 = sc_pos sc"
  proof -
    have "sc_pos sc1 < length sql" "hd (ahead sql sc1) \<in> {newline, CHR 0x0D}" using that p assms(2) by auto
    moreover obtain c r where c: "ahead sql sc1 = c # r" using ahead_hd calculation(1) by blast
    ultimately have "c = newline \<or> c = CHR 0x0D" "sc_pos sc1 < length sql" by simp_all
    then have "sc_pos sc1 < sc_pos sc3"
    proof (elim disjE)
      assume "c = newline"
      then have "sc3 = read_chars sql 1 sc1" using c by (simp add: sc2_def sc3_def)
      then show ?thesis using \<open>sc_pos sc1 < length sql\<close> by simp
    next
      assume "c = CHR 0x0D"
      then have "sc2 = read_chars sql 1 sc1" using c by (simp add: sc2_def)
      then have "sc_pos sc1 < sc_pos sc2" using \<open>sc_pos sc1 < length sql\<close> by simp
      then show ?thesis by (simp add: sc3_def)
    qed
    then show ?thesis using that by simp
  qed
  moreover have "sc_pos sc \<le> sc_pos sc1" using p by (rule conjunct1)
  ultimately have lt: "sc_pos sc < sc_pos sc3" using pos(1) by linarith
  have dk': "d \<le> k" "k \<le> length sql - sc_pos sc3" using copy_rows_le [OF dk] by simp_all
  show "tk_type t = COPY_DATA" using t by (simp add: span_token_def)
  have "tk_text t = take d (ahead sql sc3)" "tk_pos t = sc_pos sc3" using t by (simp_all add: span_token_def)
  moreover have "sc_pos sc' = sc_pos sc3 + k" using t dk' by simp
  moreover have "sc_pos sc3 + k = copy_end sql (sc_pos sc3 + d)"
    using copy_rows_end [OF dk] dk' pos(2)
    by (auto simp: copy_end_def line_end_def add.commute split: option.splits)
  ultimately show "token_read spec sql sc t sc'"
    using lt dk' pos(2) \<open>tk_type t = COPY_DATA\<close> by (simp add: token_read_def min_absorb2)
qed

text \<open>Progress needs one thing of a specification: the prefix of a client command is not a line end.\<close>

definition spec_ok :: "lexical_spec \<Rightarrow> bool" where
  "spec_ok spec \<longleftrightarrow> ls_meta_prefix spec \<noteq> [newline] \<and> ls_meta_prefix spec \<noteq> [CHR 0x0D]"

lemma meta_command_start_pos:
  "meta_command_start spec sql sc = (b, sc1) \<Longrightarrow> sc_pos sc1 = sc_pos sc \<and> (b \<longrightarrow> [hd (ahead sql sc)] = ls_meta_prefix spec)"
  by (auto simp: meta_command_start_def meta_at_line_start_def Let_def split: if_splits)

lemma plain_word_token_lexes:
  assumes "plain_word_token spec sql sc = Some (t, sc')" "is_alpha (hd (ahead sql sc)) \<or> hd (ahead sql sc) = CHR ''_''"
    "sc_pos sc < length sql"
  shows "lexes sql sc t sc'"
proof -
  have "takeWhile (\<lambda>c. is_alnum c \<or> c \<in> {CHR ''_'', CHR ''$'', CHR ''#''}) (ahead sql sc) \<noteq> []"
    by (rule takeWhile_pos [OF assms(3)]) (use assms(2) in \<open>auto simp: is_alnum_def\<close>)
  then show ?thesis
    using assms(1) span_token_lexes [OF _ _ assms(3)]
    by (auto simp: plain_word_token_def Let_def split: list.splits if_splits)
qed

lemma next_sql_token_read:
  assumes "next_sql_token spec sql sc = Inr (r, sc')" "sc_pos sc < length sql" "spec_ok spec"
  shows "case r of None \<Rightarrow> sc_pos sc' = length sql | Some t \<Rightarrow> token_read spec sql sc t sc' \<and> (tk_type t = COPY_DATA \<longrightarrow> sc_copy_pending sc)"
proof (cases "sc_copy_pending sc \<or> ls_sqlite_shell spec")
  case True
  have copy: "token_read spec sql sc t sc'" if "handle_copy_data spec sql (sc\<lparr>sc_copy_pending := False\<rparr>) = Inr (t, sc')" for t
    using handle_copy_data_read(1) [OF that] assms(2) by (simp add: token_read_def)
  show ?thesis
    using True assms(1) copy next_sqlite_token_read [OF _ _ assms(2), of spec r sc']
    by (auto simp: next_sql_token_def split: if_splits option.splits)
next
  case False
  define sc1 where "sc1 = skip_whitespace spec sql sc"
  note gap = read_while [OF sc1_def [unfolded skip_whitespace_def]]
  have g: "list_all (gap_char spec) (take (sc_pos sc1 - sc_pos sc) (ahead sql sc))"
    using gap(2) .
  have le: "sc_pos sc1 \<le> length sql" using gap(3) assms(2) by simp
  show ?thesis
  proof (cases "ahead sql sc1 = []")
    case True
    then have "r = Some (fst (span_token sql EOF 0 sc1))" "sc' = sc1" "sc_pos sc1 = length sql"
      using assms(1) False le by (auto simp: next_sql_token_def Let_def sc1_def [symmetric])
    then show ?thesis using g assms(2) by (simp add: token_read_def span_token_def)
  next
    case s: False
    then have lt: "sc_pos sc1 < length sql" by simp
    have meta: "lexes sql sc1 t sc3" if "meta_command_start spec sql sc1 = (True, sc2)" "handle_meta_command sql sc2 = (t, sc3)" for sc2 sc3 t
    proof -
      note m = meta_command_start_pos [OF that(1)]
      have lt2: "sc_pos sc2 < length sql" using m lt by simp
      have "takeWhile (\<lambda>c. c \<noteq> newline \<and> c \<noteq> CHR 0x0D) (ahead sql sc2) \<noteq> []"
        by (rule takeWhile_pos [OF lt2]) (use m assms(3) in \<open>auto simp: spec_ok_def\<close>)
      then have "lexes sql sc2 t sc3"
        using that(2) span_token_lexes [OF _ _ lt2] by (simp add: handle_meta_command_def)
      then show ?thesis using lexes_from m by blast
    qed
    have code: "lexes sql sc1 t sc3" if "meta_command_start spec sql sc1 = (False, sc2)" "next_code_token spec sql sc2 = Inr (t, sc3)" for sc2 sc3 t
      using lexes_from [OF next_code_token_lexes [OF that(2)]] meta_command_start_pos [OF that(1)] lt by simp
    have "\<exists>t. r = Some t \<and> lexes sql sc1 t sc'"
      using assms(1) False s plain_word_token_lexes [OF _ _ lt] span_token_lexes [OF _ _ lt] meta code
      by (fastforce simp: next_sql_token_def Let_def sc1_def [symmetric] split: if_splits option.splits prod.splits bool.splits)
    then show ?thesis using lexes_after_gap [OF _ gap(1) g gap(4) [OF s]] by (auto simp: lexes_def)
  qed
qed

lemma track_pos [simp]:
  "sc_pos (track_copy spec t sc) = sc_pos sc" "sc_pos (track_statement_start spec t sc) = sc_pos sc"
  by (auto simp: track_copy_def track_statement_start_def split: option.split)

lemma next_token_read:
  assumes "next_token spec sql sc = Inr (r, sc')" "sc_pos sc < length sql" "spec_ok spec"
  shows "case r of None \<Rightarrow> sc_pos sc' = length sql | Some t \<Rightarrow> token_read spec sql sc t sc'"
proof -
  obtain r1 sc1 where n: "next_sql_token spec sql sc = Inr (r1, sc1)" "r1 = r" "sc_pos sc' = sc_pos sc1"
    using assms(1) by (auto simp: next_token_def split: sum.splits prod.splits option.splits)
  show ?thesis using next_sql_token_read [OF n(1) assms(2,3)] n by (auto simp: token_read_def split: option.splits)
qed

corollary next_token_progress:
  assumes "next_token spec sql sc = Inr (r, sc')" "sc_pos sc < length sql" "spec_ok spec"
  shows "sc_pos sc < sc_pos sc'" "sc_pos sc' \<le> length sql"
  using next_token_read [OF assms] assms(2) by (auto simp: token_read_def split: option.splits)

subsection \<open>What every step of the scanner keeps\<close>

text \<open>The line and the column of a position; the cursor always has those of its own.\<close>

definition line_at :: "string \<Rightarrow> nat \<Rightarrow> nat" where
  "line_at sql p = length (filter (\<lambda>c. c = newline) (take p sql)) + 1"

definition col_at :: "string \<Rightarrow> nat \<Rightarrow> nat" where
  "col_at sql p = length (takeWhile (\<lambda>c. c \<noteq> newline) (rev (take p sql))) + 1"

definition at_place :: "string \<Rightarrow> scanner \<Rightarrow> bool" where
  "at_place sql sc \<longleftrightarrow> sc_line sc = line_at sql (sc_pos sc) \<and> sc_col sc = col_at sql (sc_pos sc)"

definition keeps :: "string \<Rightarrow> scanner \<Rightarrow> scanner \<Rightarrow> bool" where
  "keeps sql sc sc' \<longleftrightarrow> sc_copy_pending sc' = sc_copy_pending sc \<and> (at_place sql sc \<longrightarrow> at_place sql sc')"

definition spans :: "string \<Rightarrow> scanner \<Rightarrow> token \<Rightarrow> scanner \<Rightarrow> bool" where
  "spans sql sc t sc' \<longleftrightarrow> keeps sql sc sc' \<and> tk_pos t = sc_pos sc \<and> tk_line t = sc_line sc \<and> tk_col t = sc_col sc"

lemma keeps_refl [simp]: "keeps sql sc sc"
  by (simp add: keeps_def)

lemma keeps_trans: "keeps sql sc sc1 \<Longrightarrow> keeps sql sc1 sc2 \<Longrightarrow> keeps sql sc sc2"
  by (simp add: keeps_def)

lemma keeps_read_chars [simp]: "keeps sql sc (read_chars sql n sc)"
proof -
  define w where "w = take n (ahead sql sc)"
  have t: "take (sc_pos sc + length w) sql = take (sc_pos sc) sql @ w" by (simp add: take_add w_def)
  have "length (takeWhile (\<lambda>c. c \<noteq> newline) (rev (take (sc_pos sc) sql @ w)))
      = (if newline \<in> set w then length (takeWhile (\<lambda>c. c \<noteq> newline) (rev w))
         else length w + length (takeWhile (\<lambda>c. c \<noteq> newline) (rev (take (sc_pos sc) sql))))"
    by (auto simp: takeWhile_append)
  then have "at_place sql (advance w sc)" if "at_place sql sc"
    using that unfolding at_place_def line_at_def col_at_def by (simp add: advance_def t)
  moreover have "sc_copy_pending (advance w sc) = sc_copy_pending sc" by (simp add: advance_def)
  ultimately show ?thesis by (simp add: keeps_def read_chars_def w_def)
qed

lemma keeps_skip [simp]: "keeps sql sc (skip_while P sql sc)" "keeps sql sc (skip_whitespace spec sql sc)"
  by (simp_all add: skip_while_def skip_whitespace_def)

lemma spans_token: "span_token sql kind n sc = (t, sc') \<Longrightarrow> spans sql sc t sc'"
  by (auto simp: span_token_def spans_def)

lemma spans_lexeme: "lexeme sql kind what n sc = Inr (t, sc') \<Longrightarrow> spans sql sc t sc'"
  by (auto simp: lexeme_def dest: spans_token split: option.splits)

lemma spans_comment: "handle_comment spec sql sc = Inr (t, sc') \<Longrightarrow> spans sql sc t sc'"
  by (auto simp: handle_comment_def spans_def keeps_def at_place_def dest!: spans_token split: option.splits prod.splits if_splits)

lemma spans_string: "handle_string spec sql sc = Inr (t, sc') \<Longrightarrow> spans sql sc t sc'"
  unfolding handle_string_def handle_dollar_quote_def handle_quoted_identifier_def
    handle_escape_string_def handle_standard_string_def Let_def
  by (auto dest: spans_lexeme split: if_splits)

lemma spans_symbol: "handle_symbol sql sc = (t, sc') \<Longrightarrow> spans sql sc t sc'"
  unfolding handle_symbol_def Let_def
  by (drule spans_token) (simp add: spans_def keeps_def at_place_def)

lemma spans_simple:
  "handle_keyword spec sql sc = (t, sc') \<Longrightarrow> spans sql sc t sc'"
  "handle_number sql sc = (t, sc') \<Longrightarrow> spans sql sc t sc'"
  "handle_parameter spec sql sc = (t, sc') \<Longrightarrow> spans sql sc t sc'"
  "handle_migration_placeholder spec sql sc = (t, sc') \<Longrightarrow> spans sql sc t sc'"
  "handle_meta_command sql sc = (t, sc') \<Longrightarrow> spans sql sc t sc'"
  unfolding handle_keyword_def handle_number_def handle_parameter_def
    handle_migration_placeholder_def handle_meta_command_def Let_def
  by (drule spans_token, simp)+

lemma spans_word: "plain_word_token spec sql sc = Some (t, sc') \<Longrightarrow> spans sql sc t sc'"
  by (auto simp: plain_word_token_def Let_def dest: spans_token split: list.splits if_splits)

lemma spans_code:
  assumes "next_code_token spec sql sc = Inr (t, sc')"
  shows "spans sql sc t sc'"
proof -
  note simple = spans_comment [of spec sql sc t sc'] spans_simple(1,3,4) [of spec sql sc t sc'] spans_simple(2) [of sql sc t sc']
    spans_symbol [of sql sc t sc'] spans_token [of sql _ _ sc t sc']
  have "spans sql sc t sc'" if "base_next_token spec sql sc = Inr (t, sc')"
    using that simple spans_string [of spec sql sc t sc'] unfolding base_next_token_def Let_def by (auto split: if_splits)
  then show ?thesis
    using assms simple spans_lexeme [of sql _ _ _ sc t sc']
    unfolding next_code_token_def handle_quoted_identifier_def Let_def by (auto split: if_splits)
qed

lemma keeps_meta: "meta_command_start spec sql sc = (b, sc') \<Longrightarrow> keeps sql sc sc'"
  by (auto simp: meta_command_start_def meta_at_line_start_def keeps_def at_place_def Let_def split: if_splits)

lemma keeps_header: "copy_header_rest spec sql l sc = Inr sc' \<Longrightarrow> keeps sql sc sc'"
proof (induction spec sql l sc rule: copy_header_rest.induct)
  case (1 spec sql l sc)
  show ?case
  proof (cases "ahead sql sc")
    case Nil
    then show ?thesis using 1(3) [unfolded copy_header_rest.simps [of spec sql l sc] Nil list.case] by simp
  next
    case (Cons c r)
    note step = 1(3) [unfolded copy_header_rest.simps [of spec sql l sc] Cons list.case]
    show ?thesis
    proof (cases "c = newline \<or> c = CHR 0x0D \<or> c = CHR '' '' \<or> c = CHR 0x09")
      case True
      then show ?thesis
      proof (cases "c = newline \<or> c = CHR 0x0D")
        case False
        then have b: "c = CHR '' '' \<or> c = CHR 0x09" using True by blast
        have "copy_header_rest spec sql l (read_chars sql 1 sc) = Inr sc'"
          using step unfolding if_not_P [OF False] if_P [OF b] .
        then show ?thesis using 1(1) [OF Cons False b] keeps_trans keeps_read_chars by blast
      qed (use step in simp)
    next
      case False
      then have n: "\<not> (c = newline \<or> c = CHR 0x0D)" "\<not> (c = CHR '' '' \<or> c = CHR 0x09)" by blast+
      note step' = step [unfolded if_not_P [OF n(1)] if_not_P [OF n(2)]]
      have gap: "starts_with (c # r) ''--'' \<or> starts_with (c # r) ''/*''"
      proof (rule ccontr)
        assume g: "\<not> (starts_with (c # r) ''--'' \<or> starts_with (c # r) ''/*'')"
        show False using step' unfolding if_not_P [OF g] by simp
      qed
      obtain t sc1 where c: "handle_comment spec sql sc = Inr (t, sc1)" "sc_line sc1 = l"
        "copy_header_rest spec sql l sc1 = Inr sc'"
        using step' unfolding if_P [OF gap] by (auto split: sum.splits prod.splits if_splits)
      have "keeps sql sc1 sc'"
        by (rule 1(2) [OF Cons n gap [folded Cons] c(1) refl]) (simp_all add: c)
      then show ?thesis using spans_comment [OF c(1)] keeps_trans unfolding spans_def by blast
    qed
  qed
qed

text \<open>A token is placed where it stands in the script.\<close>

definition token_at :: "string \<Rightarrow> token \<Rightarrow> bool" where
  "token_at sql t \<longleftrightarrow> tk_line t = line_at sql (tk_pos t) \<and> tk_col t = col_at sql (tk_pos t)"

definition read_well :: "string \<Rightarrow> scanner \<Rightarrow> token option \<Rightarrow> scanner \<Rightarrow> bool" where
  "read_well sql sc r sc' \<longleftrightarrow> keeps sql sc sc' \<and> (\<forall>t. r = Some t \<longrightarrow> at_place sql sc \<longrightarrow> token_at sql t)"

lemma spans_read_well: "spans sql sc1 t sc' \<Longrightarrow> keeps sql sc sc1 \<Longrightarrow> read_well sql sc (Some t) sc'"
  by (auto simp: spans_def read_well_def keeps_def token_at_def at_place_def)

lemma copy_data_read_well:
  assumes "handle_copy_data spec sql sc = Inr (t, sc')"
  shows "read_well sql sc (Some t) sc'"
proof -
  obtain sc1 where sc1: "copy_header_rest spec sql (sc_line sc) sc = Inr sc1"
    using assms by (auto simp: handle_copy_data_def)
  define sc2 where "sc2 = (if starts_with (ahead sql sc1) [CHR 0x0D] then read_chars sql 1 sc1 else sc1)"
  define sc3 where "sc3 = (if starts_with (ahead sql sc2) [newline] then read_chars sql 1 sc2 else sc2)"
  obtain d k where t: "t = fst (span_token sql COPY_DATA d sc3)" "sc' = read_chars sql k sc3"
    using assms unfolding handle_copy_data_def sc1 rbind.simps Let_def sc2_def [symmetric] sc3_def [symmetric]
    by (auto split: prod.splits)
  have "keeps sql sc1 sc2" "keeps sql sc2 sc3" by (simp_all add: sc2_def sc3_def)
  then have "keeps sql sc sc3" using keeps_header [OF sc1] keeps_trans by blast
  moreover have "spans sql sc3 t sc'" by (simp add: t spans_def span_token_def)
  ultimately show ?thesis using spans_read_well by blast
qed

lemma sqlite_read_well:
  assumes "next_sqlite_token spec sql sc = Inr (r, sc')"
  shows "read_well sql sc r sc'"
proof -
  define sc1 where "sc1 = skip_while sqlite_blank sql sc"
  have k: "keeps sql sc sc1" by (simp add: sc1_def)
  have "r = None \<and> sc' = sc1 \<or> (\<exists>t. r = Some t \<and> spans sql sc1 t sc')"
    using assms spans_comment [of spec sql sc1 _ sc'] spans_token [of sql _ _ sc1 _ sc']
    unfolding next_sqlite_token_def sc1_def [symmetric] Let_def by (auto split: if_splits prod.splits)
  then show ?thesis using k spans_read_well [OF _ k] by (auto simp: read_well_def)
qed

lemma next_sql_token_keeps:
  assumes "next_sql_token spec sql sc = Inr (r, sc')"
  shows "read_well sql (sc\<lparr>sc_copy_pending := False\<rparr>) r sc'"
proof (cases "sc_copy_pending sc \<or> ls_sqlite_shell spec")
  case True
  show ?thesis
  proof (cases "sc_copy_pending sc")
    case True
    then show ?thesis
      using assms copy_data_read_well [of spec sql "sc\<lparr>sc_copy_pending := False\<rparr>"] by (auto simp: next_sql_token_def)
  next
    case False
    then have same: "sc\<lparr>sc_copy_pending := False\<rparr> = sc" by simp
    show ?thesis
      unfolding same using True False assms sqlite_read_well [of spec sql sc r sc'] by (simp add: next_sql_token_def)
  qed
next
  case False
  define sc1 where "sc1 = skip_whitespace spec sql sc"
  have same: "sc\<lparr>sc_copy_pending := False\<rparr> = sc" using False by simp
  have k: "keeps sql sc sc1" by (simp add: sc1_def)
  show ?thesis
  proof (cases "ahead sql sc1 = []")
    case True
    then have "sc' = sc1" "r = Some (fst (span_token sql EOF 0 sc1))"
      using assms False unfolding next_sql_token_def sc1_def [symmetric] Let_def by auto
    moreover have "spans sql sc1 (fst (span_token sql EOF 0 sc1)) sc1" by (simp add: spans_def span_token_def)
    ultimately show ?thesis using spans_read_well k same by simp
  next
    case ahead: False
    have "(\<exists>t. r = Some t \<and> spans sql sc1 t sc')
        \<or> (\<exists>b sc2 t. meta_command_start spec sql sc1 = (b, sc2) \<and> r = Some t \<and> spans sql sc2 t sc')"
    proof (cases "if is_alpha (hd (ahead sql sc1)) \<or> hd (ahead sql sc1) = CHR ''_'' then plain_word_token spec sql sc1 else None")
      case (Some x)
      obtain t sc2 where x: "x = (t, sc2)" by fastforce
      then have "plain_word_token spec sql sc1 = Some (t, sc2)" using Some by (simp split: if_splits)
      then show ?thesis
        using spans_word assms False ahead Some x unfolding next_sql_token_def sc1_def [symmetric] Let_def by auto
    next
      case None
      show ?thesis
        using assms False ahead unfolding next_sql_token_def sc1_def [symmetric] Let_def None
        by (auto dest: spans_token spans_simple(5) spans_code split: if_splits prod.splits bool.splits)
    qed
    moreover have "keeps sql sc sc2" if "meta_command_start spec sql sc1 = (b, sc2)" for b sc2
      using keeps_trans [OF k keeps_meta [OF that]] .
    ultimately have "\<exists>t sc2. r = Some t \<and> keeps sql sc sc2 \<and> spans sql sc2 t sc'" using k by blast
    then show ?thesis using spans_read_well same by auto
  qed
qed

lemma next_token_keeps:
  assumes "next_token spec sql sc = Inr (r, sc')"
  shows "at_place sql sc \<Longrightarrow> at_place sql sc'" "r = Some t \<Longrightarrow> at_place sql sc \<Longrightarrow> token_at sql t"
    "r = Some t \<Longrightarrow> sc_copy_pending sc' \<Longrightarrow> tk_type t = DELIMITER"
proof -
  obtain sc1 where n: "next_sql_token spec sql sc = Inr (r, sc1)"
    "sc' = (case r of None \<Rightarrow> sc1 | Some t \<Rightarrow> track_statement_start spec t (track_copy spec t sc1))"
    using assms by (auto simp: next_token_def split: sum.splits prod.splits option.splits)
  note w = next_sql_token_keeps [OF n(1), unfolded read_well_def keeps_def at_place_def, simplified]
  have same: "sc_line sc' = sc_line sc1" "sc_col sc' = sc_col sc1" "sc_pos sc' = sc_pos sc1"
    using n(2) by (auto simp: track_copy_def track_statement_start_def split: option.splits)
  show "at_place sql sc \<Longrightarrow> at_place sql sc'" using w same by (simp add: at_place_def)
  show "r = Some t \<Longrightarrow> at_place sql sc \<Longrightarrow> token_at sql t" using w by (simp add: at_place_def)
  show "r = Some t \<Longrightarrow> sc_copy_pending sc' \<Longrightarrow> tk_type t = DELIMITER"
    using w n(2) by (auto simp: track_copy_def track_statement_start_def split: if_splits option.splits)
qed

text \<open>Rows are read only after the terminator of their header.\<close>

lemma next_token_copy:
  assumes "next_token spec sql sc = Inr (Some t, sc')" "sc_pos sc < length sql" "spec_ok spec"
  shows "tk_type t = COPY_DATA \<Longrightarrow> sc_copy_pending sc"
proof -
  obtain sc1 where "next_sql_token spec sql sc = Inr (Some t, sc1)"
    using assms(1) by (auto simp: next_token_def split: sum.splits prod.splits option.splits)
  then show "tk_type t = COPY_DATA \<Longrightarrow> sc_copy_pending sc" using next_sql_token_read [OF _ assms(2,3)] by fastforce
qed

subsection \<open>The tokens of a script\<close>

text \<open>\<open>_iter_sql_tokens\<close>, from a cursor: the tokens read before the end or before an exception. Nothing
  says that the loop ends, so it is partial; \<open>None\<close> is a loop that does not return.\<close>

partial_function (option) scan ::
  "lexical_spec \<Rightarrow> string \<Rightarrow> scanner \<Rightarrow> (token list \<times> split_error option \<times> scanner) option" where
  "scan spec sql sc =
     (if sc_pos sc < length sql
      then (case next_token spec sql sc of
              Inl e \<Rightarrow> Some ([], Some e, sc)
            | Inr (r, sc1) \<Rightarrow>
                Option.bind (scan spec sql sc1) (\<lambda>(ts, rest).
                  Some (case r of Some t \<Rightarrow> if tk_type t = EOF then ts else t # ts | None \<Rightarrow> ts, rest)))
      else Some ([], None, sc))"

declare scan.simps [code]

text \<open>\<open>_refuse_character\<close> looks at the whole script first.\<close>

definition refuse_character :: "lexical_spec \<Rightarrow> string \<Rightarrow> split_error option" where
  "refuse_character spec sql =
     (case ls_refused_character spec of
        None \<Rightarrow> None
      | Some c \<Rightarrow>
          (case find_sub [c] sql of
             None \<Rightarrow> None
           | Some bad \<Rightarrow>
               let front = take bad sql
               in Some (UnsafeSplit (''a '' @ ls_refused_character_name spec @ '' character on line ''
                    @ digits_of_nat (length (filter (\<lambda>x. x = newline) front) + 1) @ '', column ''
                    @ digits_of_nat (length (takeWhile (\<lambda>x. x \<noteq> newline) (rev front)) + 1) @ '': ''
                    @ ls_refused_reason spec))))"

definition script_tokens :: "lexical_spec \<Rightarrow> string \<Rightarrow> (token list \<times> split_error option \<times> scanner) option" where
  "script_tokens spec sql =
     (case refuse_character spec sql of
        Some e \<Rightarrow> Some ([], Some e, scanner_start)
      | None \<Rightarrow> scan spec sql scanner_start)"

lemma scan_returns: "spec_ok spec \<Longrightarrow> \<exists>r. scan spec sql sc = Some r"
proof (induction "length sql - sc_pos sc" arbitrary: sc rule: less_induct)
  case less
  show ?case
  proof (cases "sc_pos sc < length sql")
    case True
    then show ?thesis
    proof (cases "next_token spec sql sc")
      case (Inr x)
      obtain r sc1 where x: "x = (r, sc1)" by fastforce
      have "sc_pos sc < sc_pos sc1" using next_token_progress [of spec sql sc r sc1] Inr x True less.prems by simp
      moreover have "length sql - sc_pos sc1 < length sql - sc_pos sc" using calculation True by simp
      ultimately obtain y where "scan spec sql sc1 = Some y" using less.hyps [of sc1] less.prems by metis
      then show ?thesis using True Inr x by (subst scan.simps) (simp split: prod.split)
    qed (subst scan.simps, simp)
  qed (subst scan.simps, simp)
qed

text \<open>C31. Reading the tokens of a script ends, for every script and every dialect whose client command
  prefix is not a line end: the loop returns tokens, with an exception or without one.\<close>

theorem script_tokens_returns:
  assumes "spec_ok spec"
  shows "\<exists>ts e sc. script_tokens spec sql = Some (ts, e, sc)"
  using scan_returns [OF assms] by (auto simp: script_tokens_def split: option.split)

text \<open>A list of tokens that stand in the script from a position on, in order, with only blanks between
  them apart from comments and the frame of COPY data.\<close>

fun stand_in :: "lexical_spec \<Rightarrow> string \<Rightarrow> nat \<Rightarrow> token list \<Rightarrow> bool" where
  "stand_in spec sql p [] \<longleftrightarrow> p \<le> length sql"
| "stand_in spec sql p (t # ts) \<longleftrightarrow> p \<le> tk_pos t
     \<and> tk_text t = take (length (tk_text t)) (drop (tk_pos t) sql)
     \<and> (tk_type t \<noteq> COPY_DATA \<longrightarrow> list_all (gap_char spec) (take (tk_pos t - p) (drop p sql)))
     \<and> (tk_type t \<in> {COMMENT, COPY_DATA} \<or> tk_text t \<noteq> [] \<and> \<not> gap_char spec (hd (tk_text t)))
     \<and> (\<exists>q. tk_pos t + length (tk_text t) \<le> q \<and> p < q \<and> stand_in spec sql q ts
          \<and> (tk_type t = COPY_DATA \<longrightarrow> q = copy_end sql (tk_pos t + length (tk_text t)))
          \<and> (tk_type t \<notin> {COMMENT, COPY_DATA} \<longrightarrow> q = tk_pos t + length (tk_text t)))"

lemma scan_stands:
  assumes "scan spec sql sc = Some (ts, e, sc')" "spec_ok spec" "sc_pos sc \<le> length sql"
  shows "stand_in spec sql (sc_pos sc) ts \<and> sc_pos sc' \<le> length sql"
  using assms(1,3)
proof (induction "length sql - sc_pos sc" arbitrary: sc ts rule: less_induct)
  case less
  show ?case
  proof (cases "sc_pos sc < length sql")
    case True
    show ?thesis
    proof (cases "next_token spec sql sc")
      case (Inl e)
      then show ?thesis using less.prems True by (simp add: scan.simps [of spec sql sc])
    next
      case (Inr x)
      obtain r sc1 where x: "x = (r, sc1)" by fastforce
      note n = next_token_read [OF Inr [unfolded x] True assms(2)]
      have p: "sc_pos sc < sc_pos sc1" "sc_pos sc1 \<le> length sql"
        using next_token_progress [OF Inr [unfolded x] True assms(2)] by simp_all
      obtain us where us: "scan spec sql sc1 = Some (us, e, sc')"
        "ts = (case r of Some t \<Rightarrow> if tk_type t = EOF then us else t # us | None \<Rightarrow> us)"
        using less.prems(1) True Inr x by (auto simp: scan.simps [of spec sql sc] bind_eq_Some_conv)
      have IH: "stand_in spec sql (sc_pos sc1) us \<and> sc_pos sc' \<le> length sql"
        using less.hyps [OF _ us(1)] p True by simp
      have ended: "us = []" if "sc_pos sc1 = length sql"
        using us(1) that by (simp add: scan.simps [of spec sql sc1])
      show ?thesis
      proof (cases "\<exists>t. r = Some t \<and> tk_type t \<noteq> EOF")
        case False
        then have "sc_pos sc1 = length sql" "ts = us" using n us(2) by (auto simp: token_read_def split: option.splits)
        then show ?thesis using ended IH less.prems(2) by simp
      next
        case True
        then obtain t where t: "r = Some t" "tk_type t \<noteq> EOF" by auto
        then have tr: "token_read spec sql sc t sc1" "ts = t # us" using n us(2) by simp_all
        show ?thesis
          unfolding tr(2) stand_in.simps
          by (intro conjI exI [of _ "sc_pos sc1"]; cases "tk_type t")
            (use tr(1) IH t(2) in \<open>simp_all add: token_read_def\<close>)
      qed
    qed
  next
    case False
    then show ?thesis using less.prems by (simp add: scan.simps [of spec sql sc])
  qed
qed

abbreviation token_end :: "token \<Rightarrow> nat" where
  "token_end t \<equiv> tk_pos t + length (tk_text t)"

definition token_stop :: "string \<Rightarrow> token \<Rightarrow> nat" where
  "token_stop sql t = (if tk_type t = COPY_DATA then copy_end sql (token_end t) else token_end t)"

definition well_placed :: "lexical_spec \<Rightarrow> string \<Rightarrow> token list \<Rightarrow> bool" where
  "well_placed spec sql ts \<longleftrightarrow> sorted_wrt (\<lambda>t u. token_stop sql t \<le> tk_pos u) ts
     \<and> list_all (\<lambda>t. token_stop sql t \<le> length sql \<and> tk_text t = take (length (tk_text t)) (drop (tk_pos t) sql)
          \<and> (tk_type t \<in> {COMMENT, COPY_DATA} \<or> tk_text t \<noteq> [] \<and> \<not> gap_char spec (hd (tk_text t)))) ts"

lemma stand_in_le: "stand_in spec sql p ts \<Longrightarrow> p \<le> length sql"
proof (induction ts arbitrary: p)
  case (Cons t ts)
  then obtain q where "p < q" "stand_in spec sql q ts" by auto
  then show ?case using Cons.IH [of q] by linarith
qed simp

lemma line_end_ge: "p \<le> length s \<Longrightarrow> p \<le> line_end s p"
  by (simp add: line_end_def split: option.split)

lemma copy_end_ge: "p \<le> length s \<Longrightarrow> p \<le> copy_end s p"
  by (simp add: copy_end_def line_end_ge)

lemma token_stop_ge: "token_end t \<le> length sql \<Longrightarrow> token_end t \<le> token_stop sql t"
  by (simp add: token_stop_def copy_end_ge)

lemma placed_end:
  assumes "well_placed spec sql ts" "t \<in> set ts"
  shows "token_end t \<le> token_stop sql t \<and> token_stop sql t \<le> length sql"
proof (cases "starts_with (drop (token_end t) sql) [CHR 0x5C, CHR ''.'']")
  case True
  then have "token_end t \<le> length sql" by (cases "token_end t \<le> length sql") (auto simp: starts_with_iff)
  then show ?thesis using assms token_stop_ge by (auto simp: well_placed_def list_all_iff)
qed (use assms in \<open>auto simp: well_placed_def list_all_iff token_stop_def copy_end_def\<close>)

lemma stand_in_placed:
  "stand_in spec sql p ts \<Longrightarrow> well_placed spec sql ts \<and> list_all (\<lambda>t. p \<le> tk_pos t) ts"
proof (induction ts arbitrary: p)
  case (Cons t ts)
  then obtain q where q: "p \<le> tk_pos t" "p < q" "stand_in spec sql q ts" "token_end t \<le> q"
    "tk_type t = COPY_DATA \<longrightarrow> q = copy_end sql (token_end t)" by auto
  then have "token_stop sql t \<le> q" by (simp add: token_stop_def)
  moreover note stand_in_le [OF q(3)] Cons.IH [OF q(3)]
  ultimately show ?case
    using Cons.prems q(1,2) by (auto simp: well_placed_def list_all_iff intro: order_trans)
qed (simp add: well_placed_def)

lemma script_tokens_placed:
  assumes "script_tokens spec sql = Some (ts, e, sc)" "spec_ok spec"
  shows "well_placed spec sql ts"
  using assms scan_stands [of spec sql scanner_start ts e sc] stand_in_placed [of spec sql 0 ts]
  by (auto simp: script_tokens_def scanner_start_def well_placed_def split: option.splits)

text \<open>Rows follow the terminator of their header directly.\<close>

fun copy_after_end :: "bool \<Rightarrow> token list \<Rightarrow> bool" where
  "copy_after_end b [] = True"
| "copy_after_end b (t # ts) \<longleftrightarrow> (tk_type t = COPY_DATA \<longrightarrow> b) \<and> copy_after_end (tk_type t = DELIMITER) ts"

lemma copy_after_end_mono: "copy_after_end b ts \<Longrightarrow> (b \<Longrightarrow> b') \<Longrightarrow> copy_after_end b' ts"
  by (cases ts) auto

lemma scan_copy:
  assumes "scan spec sql sc = Some (ts, e, sc')" "spec_ok spec" "sc_pos sc \<le> length sql"
  shows "copy_after_end (sc_copy_pending sc) ts"
  using assms(1,3)
proof (induction "length sql - sc_pos sc" arbitrary: sc ts rule: less_induct)
  case less
  show ?case
  proof (cases "sc_pos sc < length sql \<and> (\<exists>x. next_token spec sql sc = Inr x)")
    case True
    then obtain r sc1 where x: "next_token spec sql sc = Inr (r, sc1)" and lt: "sc_pos sc < length sql" by force
    note n = next_token_read [OF x lt assms(2)] next_token_copy [OF _ lt assms(2)] next_token_keeps(3) [OF x]
    note p = next_token_progress [OF x lt assms(2)]
    obtain us where us: "scan spec sql sc1 = Some (us, e, sc')"
      "ts = (case r of Some t \<Rightarrow> if tk_type t = EOF then us else t # us | None \<Rightarrow> us)"
      using less.prems(1) lt x by (auto simp: scan.simps [of spec sql sc] bind_eq_Some_conv)
    have IH: "copy_after_end (sc_copy_pending sc1) us" using less.hyps [OF _ us(1)] p lt by simp
    have ended: "us = []" if "sc_pos sc1 = length sql"
      using us(1) that by (simp add: scan.simps [of spec sql sc1])
    show ?thesis
    proof (cases r)
      case (Some t)
      note c = n(2) [OF x [unfolded Some]] n(3) [OF Some]
      have q: "tk_type t = EOF \<Longrightarrow> us = []" using n(1) Some ended by (simp add: token_read_def)
      have "copy_after_end (tk_type t = DELIMITER) us" using copy_after_end_mono [OF IH] c(2) by blast
      then show ?thesis using us(2) Some c(1) q by (cases "tk_type t = EOF") simp_all
    qed (use n(1) us(2) ended in simp)
  next
    case False
    then show ?thesis using less.prems by (auto simp: scan.simps [of spec sql sc] split: sum.splits if_splits)
  qed
qed

lemma script_tokens_copy:
  "script_tokens spec sql = Some (ts, e, sc) \<Longrightarrow> spec_ok spec \<Longrightarrow> copy_after_end False ts"
  using scan_copy [of spec sql scanner_start ts e sc]
  by (auto simp: script_tokens_def scanner_start_def split: option.splits)

text \<open>The places of tokens.\<close>

lemma scan_places:
  assumes "scan spec sql sc = Some (ts, e, sc')" "spec_ok spec" "sc_pos sc \<le> length sql" "at_place sql sc"
  shows "list_all (token_at sql) ts \<and> length ts \<le> length sql - sc_pos sc"
  using assms(1,3,4)
proof (induction "length sql - sc_pos sc" arbitrary: sc ts rule: less_induct)
  case less
  show ?case
  proof (cases "sc_pos sc < length sql \<and> (\<exists>x. next_token spec sql sc = Inr x)")
    case True
    then obtain r sc1 where x: "next_token spec sql sc = Inr (r, sc1)" and lt: "sc_pos sc < length sql" by force
    note p = next_token_progress [OF x lt assms(2)] and k = next_token_keeps [OF x]
    obtain us where us: "scan spec sql sc1 = Some (us, e, sc')"
      "ts = (case r of Some t \<Rightarrow> if tk_type t = EOF then us else t # us | None \<Rightarrow> us)"
      using less.prems(1) lt x by (auto simp: scan.simps [of spec sql sc] bind_eq_Some_conv)
    have "list_all (token_at sql) us \<and> length us \<le> length sql - sc_pos sc1"
      by (rule less.hyps [OF _ us(1)]) (use p lt k(1) less.prems(3) in auto)
    then show ?thesis using us(2) k(2) less.prems(3) p lt by (auto split: option.splits)
  next
    case False
    then show ?thesis using less.prems by (auto simp: scan.simps [of spec sql sc] split: sum.splits if_splits)
  qed
qed

text \<open>C32. A script has no more tokens than characters; every token lies inside it, without overlap with
  the next one, and its line and column, which the messages quote, are those of its first character.\<close>

theorem script_tokens_bounds:
  assumes "script_tokens spec sql = Some (ts, e, sc)" "spec_ok spec"
  shows "length ts \<le> length sql \<and> sorted_wrt (\<lambda>t u. token_end t \<le> tk_pos u) ts
    \<and> list_all (\<lambda>t. token_end t \<le> length sql
         \<and> tk_line t = length (filter (\<lambda>c. c = newline) (take (tk_pos t) sql)) + 1
         \<and> tk_col t = length (takeWhile (\<lambda>c. c \<noteq> newline) (rev (take (tk_pos t) sql))) + 1) ts"
proof -
  have "at_place sql scanner_start" by (simp add: at_place_def scanner_start_def line_at_def col_at_def)
  then have at: "list_all (token_at sql) ts \<and> length ts \<le> length sql"
    using assms scan_places [of spec sql scanner_start ts e sc]
    by (auto simp: script_tokens_def scanner_start_def split: option.splits)
  note w = script_tokens_placed [OF assms]
  have "sorted_wrt (\<lambda>t u. token_end t \<le> tk_pos u) ts"
    by (rule sorted_wrt_mono_rel [OF _ conjunct1 [OF w [unfolded well_placed_def]]]) (use placed_end [OF w] in fastforce)
  then show ?thesis
    using at placed_end [OF w] unfolding list_all_iff token_at_def line_at_def col_at_def by fastforce
qed

subsection \<open>Dialects\<close>

text \<open>The defaults of \<open>LexicalSpec\<close>, and the specifications of PostgreSQL and SQLite. A character is one
  of the first 256 code points; a byte order mark is not among them.\<close>

definition default_spec :: "char list \<Rightarrow> lexical_spec" where
  "default_spec blanks =
     \<lparr>ls_text_blanks = blanks, ls_client_name = ''SQL client'', ls_nested_comments = False,
      ls_quoted_identifier = CHR 0x22, ls_escape_prefixes = [], ls_plain_string_escapes = False,
      ls_dollar_quotes = False, ls_dollar_quote_tags = True, ls_meta_prefix = [], ls_meta_prefix_line_start = False,
      ls_safe_meta_commands = [], ls_slash_line_comments = False, ls_line_comment_ends = [newline],
      ls_combine_terminator = [], ls_copy_from_stdin = False, ls_terminator_respects_parens = False,
      ls_routine_heads = [], ls_block_opener = ([], []), ls_nested_block_keywords = [], ls_block_closer = [],
      ls_sqlite_shell = False, ls_completion_table = [], ls_quoted_identifier_escape = True,
      ls_parameter_prefix = ''$'', ls_placeholder_open = ''${'', ls_string_quote_doubling = True,
      ls_unread_blanks_are_code = False, ls_non_ascii_names = False, ls_raw_segment_records = False,
      ls_refuse_unquoted_scripting = False, ls_refused_character = None, ls_refused_character_name = [],
      ls_refused_reason = []\<rparr>"

definition usual_blanks :: "char list" where
  "usual_blanks = [CHR '' '', CHR 0x09, newline, CHR 0x0D, CHR 0x0C]"

definition POSTGRESQL_SPEC :: lexical_spec where
  "POSTGRESQL_SPEC = (default_spec usual_blanks)
     \<lparr>ls_unread_blanks_are_code := True, ls_non_ascii_names := True, ls_client_name := ''psql'',
      ls_nested_comments := True, ls_escape_prefixes := [[CHR ''E'', quote], [CHR ''e'', quote]],
      ls_dollar_quotes := True, ls_meta_prefix := [CHR 0x5C],
      ls_safe_meta_commands := [CHR 0x5C # ''restrict'', CHR 0x5C # ''unrestrict''],
      ls_combine_terminator := [CHR 0x5C, CHR '';''], ls_copy_from_stdin := True, ls_terminator_respects_parens := True,
      ls_routine_heads := [[''CREATE'', ''FUNCTION''], [''CREATE'', ''PROCEDURE''],
        [''CREATE'', ''OR'', ''REPLACE'', ''FUNCTION''], [''CREATE'', ''OR'', ''REPLACE'', ''PROCEDURE'']],
      ls_block_opener := (''BEGIN'', ''ATOMIC''), ls_nested_block_keywords := [''CASE''], ls_block_closer := ''END'',
      ls_refused_character := Some (CHR 0x00), ls_refused_character_name := ''NUL'',
      ls_refused_reason := ''the client sends the query as a C string, so the server never sees the rest''\<rparr>"

definition SQLITE_SPEC :: lexical_spec where
  "SQLITE_SPEC = (default_spec usual_blanks)
     \<lparr>ls_client_name := ''sqlite3 shell'', ls_sqlite_shell := True,
      ls_completion_table := [[], [1, 2, 3, 4, 2, 2, 2], [1, 2, 2, 2, 2, 2, 2], [1, 3, 2, 4, 2, 2, 2],
        [1, 2, 2, 2, 4, 5, 2], [6, 5, 5, 5, 5, 5, 5], [6, 5, 5, 5, 5, 5, 7], [1, 5, 5, 5, 5, 5, 5]]\<rparr>"

lemma specs_ok [simp]: "spec_ok POSTGRESQL_SPEC" "spec_ok SQLITE_SPEC"
  by (simp_all add: spec_ok_def POSTGRESQL_SPEC_def SQLITE_SPEC_def default_spec_def)

subsection \<open>The fast paths\<close>

text \<open>\<open>BaseTokenizer\<close> reads one character after the other. \<open>LexicalTokenizer\<close> overrides its \<open>read\<close>, and
  its loops over numbers and words, by reads of whole spans.\<close>

definition base_read_char :: "char \<Rightarrow> scanner \<Rightarrow> scanner" where
  "base_read_char c sc =
     (if c = newline then sc\<lparr>sc_line := sc_line sc + 1, sc_col := 1, sc_pos := sc_pos sc + 1\<rparr>
      else sc\<lparr>sc_col := sc_col sc + 1, sc_pos := sc_pos sc + 1\<rparr>)"

definition base_read :: "string \<Rightarrow> nat \<Rightarrow> scanner \<Rightarrow> scanner" where
  "base_read sql n sc = fold base_read_char (take n (ahead sql sc)) sc"

lemma base_read_advance: "fold base_read_char t sc = advance t sc"
proof (induction t rule: rev_induct)
  case (snoc c t)
  then show ?case by (auto simp: base_read_char_def advance_def)
qed (simp add: advance_def)

lemma base_read_eq: "base_read sql n sc = read_chars sql n sc"
  by (simp add: base_read_def read_chars_def base_read_advance)

text \<open>The loops: the text they collect, and the cursor after them.\<close>

function base_number_loop :: "string \<Rightarrow> scanner \<Rightarrow> string \<times> scanner" where
  "base_number_loop sql sc =
     (case ahead sql sc of
        [] \<Rightarrow> ([], sc)
      | c # s \<Rightarrow>
          if uni_digit c \<or> c = CHR ''.'' then apfst ((@) [c]) (base_number_loop sql (base_read sql 1 sc))
          else if to_upper c = CHR ''E''
          then (if take 1 s \<in> {''+'', ''-''}
                then apfst ((@) (c # take 1 s)) (base_number_loop sql (base_read sql 1 (base_read sql 1 sc)))
                else apfst ((@) [c]) (base_number_loop sql (base_read sql 1 sc)))
          else ([], sc))"
  by pat_completeness auto
termination
proof (relation "measure (\<lambda>(sql, sc). length sql - sc_pos sc)", goal_cases)
  case (2 sql sc c s)
  then have "sc_pos sc < length sql" by (metis drop_all leI list.distinct(1))
  then show ?case by (simp add: base_read_eq)
next
  case (3 sql sc c s)
  then have "sc_pos sc < length sql" by (metis drop_all leI list.distinct(1))
  then show ?case by (simp add: base_read_eq)
next
  case (4 sql sc c s)
  then have "sc_pos sc < length sql" by (metis drop_all leI list.distinct(1))
  then show ?case by (simp add: base_read_eq)
qed simp

function base_word_loop :: "lexical_spec \<Rightarrow> string \<Rightarrow> scanner \<Rightarrow> string \<times> scanner" where
  "base_word_loop spec sql sc =
     (case ahead sql sc of
        [] \<Rightarrow> ([], sc)
      | c # s \<Rightarrow> if is_word_char spec c then apfst ((@) [c]) (base_word_loop spec sql (base_read sql 1 sc)) else ([], sc))"
  by pat_completeness auto
termination
proof (relation "measure (\<lambda>(spec, sql, sc). length sql - sc_pos sc)", goal_cases)
  case (2 spec sql sc c s)
  then have "sc_pos sc < length sql" by (metis drop_all leI list.distinct(1))
  then show ?case by (simp add: base_read_eq)
qed simp

declare base_number_loop.simps [simp del] base_word_loop.simps [simp del]

definition base_handle_number :: "string \<Rightarrow> scanner \<Rightarrow> token \<times> scanner" where
  "base_handle_number sql sc =
     (case base_number_loop sql sc of
        (t, sc') \<Rightarrow> (\<lparr>tk_type = IDENTIFIER, tk_text = t, tk_pos = sc_pos sc, tk_line = sc_line sc,
                     tk_col = sc_col sc, tk_parens = sc_parens sc\<rparr>, sc'))"

definition base_handle_keyword :: "lexical_spec \<Rightarrow> string \<Rightarrow> scanner \<Rightarrow> token \<times> scanner" where
  "base_handle_keyword spec sql sc =
     (case base_word_loop spec sql sc of
        (t, sc') \<Rightarrow> (\<lparr>tk_type = word_kind t, tk_text = t, tk_pos = sc_pos sc, tk_line = sc_line sc,
                     tk_col = sc_col sc, tk_parens = sc_parens sc\<rparr>, sc'))"

lemma read_chars_0 [simp]: "read_chars sql 0 sc = sc"
  by (simp add: read_chars_def advance_def)

lemma read_chars_add: "read_chars sql k (read_chars sql n sc) = read_chars sql (n + k) sc"
proof -
  have "fold base_read_char (take k (drop n (ahead sql sc))) (fold base_read_char (take n (ahead sql sc)) sc)
      = fold base_read_char (take (n + k) (ahead sql sc)) sc"
    by (simp add: take_add)
  moreover have "take k (ahead sql (read_chars sql n sc)) = take k (drop n (ahead sql sc))"
    by (simp add: min_def add.commute)
  ultimately show ?thesis unfolding base_read_advance by (simp add: read_chars_def)
qed

lemma ahead_Cons:
  assumes "ahead sql sc = c # s"
  shows "sc_pos sc < length sql" "ahead sql (read_chars sql 1 sc) = s"
proof -
  show lt: "sc_pos sc < length sql" using assms by (metis drop_all leI list.distinct(1))
  have "ahead sql (read_chars sql 1 sc) = drop 1 (ahead sql sc)" using lt by (simp add: add.commute)
  then show "ahead sql (read_chars sql 1 sc) = s" using assms by simp
qed

lemma base_number_loop_eq:
  "base_number_loop sql sc = (take (number_length (ahead sql sc)) (ahead sql sc), read_chars sql (number_length (ahead sql sc)) sc)"
proof (induction sql sc rule: base_number_loop.induct)
  case (1 sql sc)
  show ?case
  proof (cases "ahead sql sc")
    case Nil
    then show ?thesis by (simp add: base_number_loop.simps [of sql sc])
  next
    case (Cons c s)
    note step = base_number_loop.simps [of sql sc, unfolded Cons list.case] and a = ahead_Cons [OF Cons]
    consider "uni_digit c \<or> c = CHR ''.''" | "\<not> (uni_digit c \<or> c = CHR ''.'')" "to_upper c = CHR ''E''" "take 1 s \<in> {''+'', ''-''}"
      | "\<not> (uni_digit c \<or> c = CHR ''.'')" "to_upper c = CHR ''E''" "take 1 s \<notin> {''+'', ''-''}"
      | "\<not> (uni_digit c \<or> c = CHR ''.'')" "to_upper c \<noteq> CHR ''E''" by blast
    then show ?thesis
    proof cases
      case 1
      then show ?thesis using "1.IH"(1) [OF Cons 1] a step by (simp add: base_read_eq Cons read_chars_add)
    next
      case 2
      then obtain d s' where d: "s = d # s'" "d = CHR ''+'' \<or> d = CHR ''-''" by (cases s) auto
      have "ahead sql (read_chars sql 1 sc) = d # s'" using a d by simp
      note b = ahead_Cons [OF this]
      show ?thesis using "1.IH"(2) [OF Cons 2] a b step 2 d by (auto simp: base_read_eq Cons read_chars_add numeral_2_eq_2)
    next
      case 3
      then have "number_length (c # s) = Suc (number_length s)" by (cases s) auto
      then show ?thesis using "1.IH"(3) [OF Cons 3] a step 3 by (simp add: base_read_eq Cons read_chars_add)
    next
      case 4
      then show ?thesis using step by (simp add: Cons)
    qed
  qed
qed

lemma base_word_loop_eq:
  "base_word_loop spec sql sc = (takeWhile (is_word_char spec) (ahead sql sc),
     read_chars sql (length (takeWhile (is_word_char spec) (ahead sql sc))) sc)"
proof (induction spec sql sc rule: base_word_loop.induct)
  case (1 spec sql sc)
  show ?case
  proof (cases "ahead sql sc")
    case Nil
    then show ?thesis by (simp add: base_word_loop.simps [of spec sql sc])
  next
    case (Cons c s)
    note step = base_word_loop.simps [of spec sql sc, unfolded Cons list.case] and a = ahead_Cons [OF Cons]
    show ?thesis
    proof (cases "is_word_char spec c")
      case True
      then show ?thesis using "1.IH" [OF Cons True] a step by (simp add: base_read_eq Cons read_chars_add)
    qed (use step in \<open>simp add: Cons\<close>)
  qed
qed

text \<open>Words, as the fast path reads them, where no other lexeme of the dialect starts with a letter.\<close>

definition word_start :: "char \<Rightarrow> bool" where
  "word_start c \<longleftrightarrow> is_alpha c \<or> c = CHR ''_''"

definition words_ok :: "lexical_spec \<Rightarrow> bool" where
  "words_ok spec \<longleftrightarrow> \<not> word_start (ls_quoted_identifier spec)
     \<and> list_all (\<lambda>p. p \<noteq> [] \<longrightarrow> \<not> word_start (hd p)) [ls_placeholder_open spec, ls_parameter_prefix spec]
     \<and> list_all (\<lambda>e. drop 1 e = [quote]) (ls_escape_prefixes spec)"

lemma word_start_chars:
  assumes "word_start c"
  shows "c \<notin> set SYMBOL_CHARS" "\<not> is_digit c" "c \<noteq> CHR '';''" "c \<noteq> quote" "c \<noteq> CHR ''$''" "c \<noteq> CHR ''/''" "c \<noteq> CHR ''-''"
proof -
  have "list_all (\<lambda>d. \<not> word_start d) (quote # CHR '';'' # CHR ''$'' # CHR ''/'' # CHR ''-'' # SYMBOL_CHARS)"
    by code_simp
  then show "c \<notin> set SYMBOL_CHARS" "c \<noteq> CHR '';''" "c \<noteq> quote" "c \<noteq> CHR ''$''" "c \<noteq> CHR ''/''" "c \<noteq> CHR ''-''"
    using assms by (auto simp: list_all_iff)
  show "\<not> is_digit c" using assms by (auto simp: word_start_def char_class_defs)
qed

lemma takeWhile_weaker:
  "(\<And>c. P c \<Longrightarrow> Q c) \<Longrightarrow> (\<And>c r. dropWhile P s = c # r \<Longrightarrow> \<not> Q c) \<Longrightarrow> takeWhile Q s = takeWhile P s"
  by (induction s) auto

lemma plain_word_handle_keyword:
  assumes "plain_word_token spec sql sc = Some r"
  shows "handle_keyword spec sql sc = r"
proof -
  let ?P = "\<lambda>c. is_alnum c \<or> c \<in> {CHR ''_'', CHR ''$'', CHR ''#''}"
  have d: "drop (length (takeWhile ?P (ahead sql sc))) (ahead sql sc) = dropWhile ?P (ahead sql sc)"
    by (simp only: dropWhile_eq_drop)
  have "takeWhile (is_word_char spec) (ahead sql sc) = takeWhile ?P (ahead sql sc)"
    using assms unfolding plain_word_token_def Let_def d
    by (intro takeWhile_weaker) (auto simp: is_word_char_def uni_alnum_def uni_alpha_def uni_digit_def is_alnum_def split: list.splits if_splits)
  then show ?thesis
    using assms by (auto simp: plain_word_token_def handle_keyword_def Let_def split: list.splits if_splits)
qed

lemma plain_word_next_code:
  assumes "plain_word_token spec sql sc = Some r" "words_ok spec" "sc_pos sc < length sql" "word_start (hd (ahead sql sc))"
  shows "next_code_token spec sql sc = Inr r"
proof -
  obtain c s where a: "ahead sql sc = c # s" using ahead_hd [OF assms(3)] by blast
  have c: "word_start c" using assms(4) a by simp
  note ch = word_start_chars [OF c]
  have no_prefix: "take 2 (c # s) \<notin> set (ls_escape_prefixes spec)"
  proof
    assume "take 2 (c # s) \<in> set (ls_escape_prefixes spec)"
    then have "take 1 s = [quote]" using assms(2) by (auto simp: words_ok_def list_all_iff numeral_2_eq_2)
    then obtain u where s: "s = quote # u" by (cases s) auto
    have q: "\<not> is_alnum quote" "quote \<notin> {CHR ''_'', CHR ''$'', CHR ''#''}" by code_simp+
    have "is_alnum c \<or> c \<in> {CHR ''_'', CHR ''$'', CHR ''#''}" using c by (auto simp: word_start_def is_alnum_def)
    then show False using assms(1) q unfolding plain_word_token_def Let_def a s by (auto split: if_splits)
  qed
  have no_start: "\<not> starts_with (c # s) p" if "p \<noteq> []" "\<not> word_start (hd p)" for p
    using that c by (auto simp: starts_with_iff Cons_eq_append_conv)
  have "\<not> starts_with (c # s) ''//''" "\<not> starts_with (c # s) ''--''" "\<not> starts_with (c # s) ''/*''" "\<not> starts_with (c # s) ''$''"
    using ch by (auto simp: starts_with_iff)
  note no_lexeme = this
  have other: "(ls_placeholder_open spec \<noteq> [] \<and> starts_with (c # s) (ls_placeholder_open spec)) = False"
    "(ls_parameter_prefix spec \<noteq> [] \<and> starts_with (c # s) (ls_parameter_prefix spec)) = False" "c \<noteq> ls_quoted_identifier spec"
    using no_start assms(2) c by (auto simp: words_ok_def)
  have w: "(uni_alpha c \<or> c = CHR ''_'' \<or> is_non_ascii_name_char spec c) = True"
    using c by (auto simp: word_start_def uni_alpha_def)
  have alt: "is_alternative_string_start spec sql sc = False"
    unfolding is_alternative_string_start_def a Let_def if_not_P [OF no_prefix] using no_lexeme by simp
  have base: "base_next_token spec sql sc = Inr (handle_keyword spec sql sc)"
    unfolding base_next_token_def a Let_def list.sel w alt using ch no_lexeme by simp
  have "next_code_token spec sql sc = base_next_token spec sql sc"
    unfolding next_code_token_def a Let_def list.sel other(1) using other ch no_lexeme by auto
  then show ?thesis using base plain_word_handle_keyword [OF assms(1)] by simp
qed



theorem script_tokens_returns_witness:
  "spec_ok SQLITE_SPEC \<and> (\<exists>ts e sc. script_tokens SQLITE_SPEC ''SELECT /* open'' = Some (ts, e, sc))"
  using script_tokens_returns [of SQLITE_SPEC "''SELECT /* open''"] by simp

theorem script_tokens_bounds_witness:
  "\<exists>ts sc. script_tokens POSTGRESQL_SPEC ''A;'' = Some (ts, None, sc) \<and> map tk_text ts = [''A'', '';'']
     \<and> length ts \<le> 2 \<and> list_all (\<lambda>t. token_end t \<le> 2) ts"
proof -
  have "case script_tokens POSTGRESQL_SPEC ''A;'' of Some (ts, None, sc) \<Rightarrow> map tk_text ts = [''A'', '';''] | _ \<Rightarrow> False"
    by code_simp
  then obtain ts sc where t: "script_tokens POSTGRESQL_SPEC ''A;'' = Some (ts, None, sc)" "map tk_text ts = [''A'', '';'']"
    by (auto split: option.splits)
  show ?thesis
    using script_tokens_bounds [OF t(1) specs_ok(1)] t
    by (intro exI conjI) (fact t | simp add: list_all_iff numeral_2_eq_2)+
qed

end
