(* ===== verification/Splitter.thy ===== *)
theory Splitter
  imports Tokenizer TransactionPolicy
begin

text \<open>
  How the tokens of a script are cut into statements: \<open>LexicalStatementParser\<close> over
  \<open>BaseStatementParser\<close> and \<open>ParserContext\<close> (\<open>core/sql_parser/lexical_statement_parser.py\<close>,
  \<open>base_statement_parser.py\<close>, \<open>parser_context.py\<close>), and the views \<open>LexicalEngine\<close> makes of the result
  (\<open>lexical_engine.py\<close>). The script is always known, so a statement is a slice of it. As in
  \<open>Tokenizer\<close>, scripts read with rules of a client are left out.
\<close>

subsection \<open>The state of the parser\<close>

record parser =
  ps_current :: "token list"
  ps_head :: "string list"
  ps_previous :: "token option"
  ps_block_depth :: nat
  ps_raw_start :: nat
  ps_sqlite_state :: nat
  ps_sqlite_code :: bool
  ps_last_line_comment :: nat
  ps_checked_line :: nat
  ps_token_end :: nat
  ps_records :: "statement list"

definition parser_start :: parser where
  "parser_start =
     \<lparr>ps_current = [], ps_head = [], ps_previous = None, ps_block_depth = 0, ps_raw_start = 0,
      ps_sqlite_state = 1, ps_sqlite_code = False, ps_last_line_comment = 0, ps_checked_line = 0,
      ps_token_end = 0, ps_records = []\<rparr>"

definition slice :: "string \<Rightarrow> nat \<Rightarrow> nat \<Rightarrow> string" where
  "slice s a b = take (b - a) (drop a s)"

definition rstrip_blanks :: "lexical_spec \<Rightarrow> string \<Rightarrow> string" where
  "rstrip_blanks spec s = rstrip_by (\<lambda>c. c \<in> set (ls_text_blanks spec)) s"

definition strip_blanks :: "lexical_spec \<Rightarrow> string \<Rightarrow> string" where
  "strip_blanks spec s = strip_by (\<lambda>c. c \<in> set (ls_text_blanks spec)) s"

definition is_code :: "token \<Rightarrow> bool" where
  "is_code t \<longleftrightarrow> tk_type t \<noteq> COMMENT \<and> tk_type t \<noteq> DELIMITER"

definition first_content :: "token list \<Rightarrow> token option" where
  "first_content ts = List.find (\<lambda>t. tk_type t \<noteq> COMMENT) ts"

subsection \<open>Blocks and ends of statements\<close>

text \<open>The token classes of \<open>sqlite3_complete\<close>.\<close>

definition sqlite_class :: "token \<Rightarrow> nat" where
  "sqlite_class t =
     (if tk_type t = DELIMITER then 0
      else if tk_type t \<in> {KEYWORD, IDENTIFIER} \<and> take 1 (tk_text t) \<notin> {[CHR 0x22], [CHR 0x60], ''[''}
      then (let w = str_upper (tk_text t)
            in if w = ''EXPLAIN'' then 2 else if w = ''CREATE'' then 3 else if w = ''TEMP'' \<or> w = ''TEMPORARY'' then 4
               else if w = ''TRIGGER'' then 5 else if w = ''END'' then 6 else 1)
      else 1)"

definition adjust_block_depth :: "lexical_spec \<Rightarrow> token \<Rightarrow> parser \<Rightarrow> parser" where
  "adjust_block_depth spec t ps =
     (let w = str_upper (tk_text t)
      in if w = snd (ls_block_opener spec) \<and> tk_parens t = 0
            \<and> (case ps_previous ps of
                 None \<Rightarrow> False
               | Some p \<Rightarrow> tk_type p = KEYWORD \<and> str_upper (tk_text p) = fst (ls_block_opener spec))
            \<and> list_ex (\<lambda>head. take (length head) (ps_head ps) = head) (ls_routine_heads spec)
         then ps\<lparr>ps_block_depth := ps_block_depth ps + 1\<rparr>
         else if w \<in> set (ls_nested_block_keywords spec) \<and> ps_block_depth ps > 0
         then ps\<lparr>ps_block_depth := ps_block_depth ps + 1\<rparr>
         else if w = ls_block_closer spec \<and> ps_block_depth ps > 0
         then ps\<lparr>ps_block_depth := ps_block_depth ps - 1\<rparr>
         else ps)"

definition head_limit :: "lexical_spec \<Rightarrow> nat" where
  "head_limit spec = foldr max (map length (ls_routine_heads spec)) 0"

definition adjust_context :: "lexical_spec \<Rightarrow> string \<Rightarrow> token \<Rightarrow> parser \<Rightarrow> parser" where
  "adjust_context spec source t ps =
     (if ls_sqlite_shell spec
      then (if tk_type t = COMMENT
            then (if starts_with (drop (tk_pos t) source) ''--'' then ps\<lparr>ps_last_line_comment := tk_line t\<rparr> else ps)
            else ps\<lparr>ps_sqlite_code := ps_sqlite_code ps \<or> tk_type t \<noteq> DELIMITER,
                    ps_sqlite_state := ls_completion_table spec ! ps_sqlite_state ps ! sqlite_class t\<rparr>)
      else if ls_combine_terminator spec \<noteq> [] \<and> tk_type t = SYMBOL \<and> tk_text t = ls_combine_terminator spec
          \<and> tk_parens t = 0 \<and> ps_block_depth ps = 0
      then ps\<lparr>ps_head := [], ps_previous := None\<rparr>
      else if tk_type t = COMMENT then ps
      else
        let ps1 = (if length (ps_head ps) < head_limit spec then ps\<lparr>ps_head := ps_head ps @ [str_upper (tk_text t)]\<rparr> else ps);
            ps2 = (if tk_type t = KEYWORD then adjust_block_depth spec t ps1 else ps1)
        in ps2\<lparr>ps_previous := Some t\<rparr>)"

text \<open>A \<open>COPY\<close> header and its data are one statement, which the data ends.\<close>

definition is_statement_end :: "lexical_spec \<Rightarrow> token \<Rightarrow> token option \<Rightarrow> parser \<Rightarrow> bool" where
  "is_statement_end spec t following ps =
     (if ls_sqlite_shell spec then tk_type t = DELIMITER \<and> ps_sqlite_state ps = 1
      else if tk_type t = COPY_DATA then True
      else tk_type t = DELIMITER \<and> ps_block_depth ps = 0
        \<and> \<not> (ls_terminator_respects_parens spec \<and> tk_parens t > 0)
        \<and> (case following of None \<Rightarrow> True | Some u \<Rightarrow> tk_type u \<noteq> COPY_DATA))"

subsection \<open>The record of a statement\<close>

definition render_end :: "string \<Rightarrow> token option \<Rightarrow> nat option \<Rightarrow> nat" where
  "render_end source terminator end_pos =
     (case end_pos of
        Some p \<Rightarrow> p
      | None \<Rightarrow> (case terminator of Some t \<Rightarrow> token_end t | None \<Rightarrow> length source))"

definition render_statement :: "lexical_spec \<Rightarrow> string \<Rightarrow> parser \<Rightarrow> token option \<Rightarrow> nat option \<Rightarrow> string" where
  "render_statement spec source ps terminator end_pos =
     (let e = render_end source terminator end_pos
      in if ls_raw_segment_records spec then strip_blanks spec (slice source (ps_raw_start ps) e)
         else if ls_sqlite_shell spec then rstrip_blanks spec (slice source (tk_pos (hd (ps_current ps))) e)
         else (case first_content (ps_current ps) of
                 None \<Rightarrow> []
               | Some t \<Rightarrow> rstrip_blanks spec (slice source (tk_pos t) e)))"

text \<open>Each combinator of a unit is sent as a semicolon.\<close>

fun replace_combinators :: "nat \<Rightarrow> string \<Rightarrow> nat \<Rightarrow> token list \<Rightarrow> string" where
  "replace_combinators base rendered cursor [] = drop cursor rendered"
| "replace_combinators base rendered cursor (t # ts) =
     slice rendered cursor (tk_pos t - base) @ '';''
     @ replace_combinators base rendered (tk_pos t - base + length (tk_text t)) ts"

definition combinators :: "lexical_spec \<Rightarrow> token list \<Rightarrow> token list" where
  "combinators spec ts =
     filter (\<lambda>t. tk_type t = SYMBOL \<and> ls_combine_terminator spec \<noteq> [] \<and> tk_text t = ls_combine_terminator spec) ts"

definition analysis_parts :: "lexical_spec \<Rightarrow> string \<Rightarrow> nat \<Rightarrow> token list \<Rightarrow> nat \<Rightarrow> string list" where
  "analysis_parts spec source start cs e =
     filter (\<lambda>p. p \<noteq> [])
       (map (\<lambda>(a, b). strip_blanks spec (slice source a b)) (zip (start # map token_end cs) (map tk_pos cs @ [e])))"

definition statement_record ::
  "lexical_spec \<Rightarrow> string \<Rightarrow> parser \<Rightarrow> string \<Rightarrow> token option \<Rightarrow> nat option \<Rightarrow> split_error + statement" where
  "statement_record spec source ps rendered terminator end_pos =
     (let ts = ps_current ps;
          first = (if ls_sqlite_shell spec then hd ts else the (first_content ts));
          start = (if ls_raw_segment_records spec then ps_raw_start ps else tk_pos first);
          line = (if ls_raw_segment_records spec then tk_line (hd ts) else tk_line first);
          source_end = (case terminator of
             Some t \<Rightarrow> token_end t | None \<Rightarrow> (case end_pos of Some p \<Rightarrow> p | None \<Rightarrow> length source));
          cs = combinators spec ts;
          analysis = (if cs = [] then None
            else Some (analysis_parts spec source (tk_pos first) cs
                   (case terminator of Some t \<Rightarrow> tk_pos t | None \<Rightarrow> length source)));
          body = (if cs = [] then rendered else replace_combinators (tk_pos first) rendered 0 cs);
          plain = \<lparr>sm_text = body, sm_line = line, sm_terminator = None, sm_kind = KSql, sm_multi = cs \<noteq> [],
                   sm_repeat = 1, sm_analysis = analysis, sm_start = start, sm_end = source_end, sm_execution = None\<rparr>
      in case terminator of
           None \<Rightarrow> Inr plain
         | Some t \<Rightarrow>
             if tk_type t = COPY_DATA
             then (if cs \<noteq> []
                   then Inl (UnsafeSplit (''COPY FROM STDIN cannot be combined with another statement using psql ''
                     @ CHR 0x5C # '';''))
                   else
                     let e = token_end t; ended = starts_with (drop e source) [CHR 0x5C, CHR ''.''];
                         header_end = tk_pos (the (List.find (\<lambda>u. tk_type u = DELIMITER) ts))
                     in Inr (plain\<lparr>sm_text := slice source (tk_pos first) e, sm_line := tk_line first,
                              sm_terminator := (if ended then Some [CHR 0x5C, CHR ''.''] else None),
                              sm_kind := KCopyStdin,
                              sm_analysis := Some [strip_blanks spec (slice source (tk_pos first) header_end)],
                              sm_end := (if ended then line_end source e else e)\<rparr>))
             else
               let text = (if ends_with body (tk_text t)
                           then rstrip_blanks spec (take (length body - length (tk_text t)) body) else body)
               in Inr (plain\<lparr>sm_text := text, sm_terminator := Some (tk_text t),
                        sm_execution := (if ls_sqlite_shell spec \<or> ls_raw_segment_records spec \<or> body = text
                                         then None else Some body)\<rparr>))"

subsection \<open>Refusals\<close>

definition unquoted_word :: "token \<Rightarrow> string" where
  "unquoted_word t =
     (if tk_type t \<in> {KEYWORD, IDENTIFIER} \<and> take 1 (tk_text t) \<notin> {[CHR 0x22], [quote], [CHR 0x60]}
      then str_upper (tk_text t) else [])"

text \<open>Where the kind of a \<open>CREATE\<close> stands.\<close>

definition create_kind_at :: "string list \<Rightarrow> nat" where
  "create_kind_at ws =
     (let k = (if take 2 (drop 1 ws) = [''OR'', ''REPLACE''] then 3 else 1)
      in k + length (takeWhile (\<lambda>w. w \<in> {''SECURE'', ''TEMP'', ''TEMPORARY''}) (drop k ws)))"

definition check_unquoted_scripting :: "lexical_spec \<Rightarrow> token list \<Rightarrow> split_error option" where
  "check_unquoted_scripting spec ts =
     (let ws = map unquoted_word (filter is_code ts);
          refuse = (\<lambda>what. Some (UnsafeSplit (''Unquoted '' @ ls_client_name spec @ what @ '' is not qualified'')))
      in case ws of
           [] \<Rightarrow> None
         | w # _ \<Rightarrow>
             if w = ''DECLARE'' then refuse '' Scripting''
             else if w = ''BEGIN'' \<and> ws \<notin> {[''BEGIN''], [''BEGIN'', ''WORK''], [''BEGIN'', ''TRANSACTION'']}
             then refuse '' Scripting''
             else if w = ''WITH'' \<and> length ws \<ge> 4 \<and> ws ! 2 = ''AS'' \<and> ws ! 3 = ''PROCEDURE''
                 \<and> list_ex (\<lambda>v. v = ''BEGIN'' \<or> v = ''DECLARE'') (drop 4 ws)
             then refuse '' procedure body''
             else if w = ''CREATE'' \<and> length ws > create_kind_at ws
                 \<and> ws ! create_kind_at ws \<in> {''PROCEDURE'', ''FUNCTION''}
                 \<and> list_ex (\<lambda>(a, b). a = ''AS'' \<and> (b = ''BEGIN'' \<or> b = ''DECLARE'')) (zip ws (drop 1 ws))
             then refuse '' routine body''
             else None)"

text \<open>\<open>repr\<close> of a string of the first 256 code points.\<close>

definition hex_digit :: "nat \<Rightarrow> char" where
  "hex_digit n = ''0123456789abcdef'' ! n"

definition py_repr :: "string \<Rightarrow> string" where
  "py_repr s =
     (let q = (if quote \<in> set s \<and> CHR 0x22 \<notin> set s then CHR 0x22 else quote);
          shown = (\<lambda>c. if c = q \<or> c = CHR 0x5C then [CHR 0x5C, c]
             else if c = newline then [CHR 0x5C, CHR ''n''] else if c = CHR 0x0D then [CHR 0x5C, CHR ''r'']
             else if c = CHR 0x09 then [CHR 0x5C, CHR ''t'']
             else if code_point c < 32 \<or> 127 \<le> code_point c \<and> code_point c \<le> 160 \<or> code_point c = 173
             then [CHR 0x5C, CHR ''x'', hex_digit (code_point c div 16), hex_digit (code_point c mod 16)]
             else [c])
      in q # concat (map shown s) @ [q])"

text \<open>The first word, \<open>text.split(None, 1)[0]\<close>.\<close>

definition first_word :: "string \<Rightarrow> string" where
  "first_word s = takeWhile (\<lambda>c. \<not> is_space c) (dropWhile is_space s)"

text \<open>The \<open>GO\<close> or \<open>/\<close> line of the sqlite3 shell, with comments behind it.\<close>

definition shell_blank :: "char \<Rightarrow> bool" where
  "shell_blank c \<longleftrightarrow> c \<in> {CHR '' '', CHR 0x09, CHR 0x0C, CHR 0x0D, CHR 0x0B}"

lemma length_after_comment:
  "starts_with (dropWhile P s) ''/*'' \<Longrightarrow> length (drop (k + 2) (drop 2 (dropWhile P s))) < length s"
proof -
  assume "starts_with (dropWhile P s) ''/*''"
  then obtain r where "dropWhile P s = CHR ''/'' # r" by (auto simp: starts_with_iff)
  then show ?thesis using length_dropWhile_le [of P s] by simp
qed

function only_comments :: "string \<Rightarrow> bool" where
  "only_comments s =
     (let t = dropWhile shell_blank s
      in if \<not> starts_with t ''/*'' then t = [] \<or> starts_with t ''--''
         else (case find_sub ''*/'' (drop 2 t) of None \<Rightarrow> False | Some k \<Rightarrow> only_comments (drop (k + 2) (drop 2 t))))"
  by pat_completeness auto
termination
  by (relation "measure length") (use length_after_comment in \<open>auto simp del: length_drop drop_drop\<close>)

declare only_comments.simps [simp del]

definition sqlite_terminator_line :: "string \<Rightarrow> bool" where
  "sqlite_terminator_line line =
     (let s = dropWhile shell_blank line
      in if starts_with s ''/'' then only_comments (drop 1 s)
         else if str_lower (take 2 s) = ''go'' then only_comments (drop 2 s)
         else False)"

definition line_start :: "string \<Rightarrow> nat \<Rightarrow> nat" where
  "line_start source p = p - length (takeWhile (\<lambda>c. c \<noteq> newline) (rev (take p source)))"

text \<open>A line that only the shell would read is refused at its first token.\<close>

definition check_sqlite_line :: "lexical_spec \<Rightarrow> string \<Rightarrow> token \<Rightarrow> parser \<Rightarrow> split_error + parser" where
  "check_sqlite_line spec source t ps =
     (if tk_line t = ps_checked_line ps then Inr ps
      else
        let ps1 = ps\<lparr>ps_checked_line := tk_line t\<rparr>; a = line_start source (tk_pos t)
        in if a < ps_token_end ps then Inr ps1
           else
             let line = takeWhile (\<lambda>c. c \<noteq> newline) (drop a source)
             in if starts_with line ''.'' \<and> \<not> ps_sqlite_code ps
                then Inl (UnsupportedMeta (''sqlite3 shell command '' @ py_repr (first_word line) @ '' on line ''
                  @ digits_of_nat (tk_line t) @ '': the shell runs it and the engine cannot; dblift does not run client commands''))
                else if ps_sqlite_code ps \<and> ps_sqlite_state ps \<notin> {5, 6}
                    \<and> ps_last_line_comment ps \<noteq> tk_line t - 1 \<and> sqlite_terminator_line line
                then Inl (UnsafeSplit (''line '' @ digits_of_nat (tk_line t) @ '' holds only '' @ py_repr (strip line)
                  @ '': the sqlite3 shell ends the statement there, the engine reads it as part of the statement; put the terminator on the statement''))
                else Inr ps1)"

subsection \<open>Cutting\<close>

definition reset_statement :: "lexical_spec \<Rightarrow> token option \<Rightarrow> nat option \<Rightarrow> parser \<Rightarrow> parser" where
  "reset_statement spec terminator end_pos ps =
     ps\<lparr>ps_current := [], ps_head := [], ps_previous := None, ps_block_depth := 0, ps_sqlite_state := 1,
        ps_sqlite_code := False,
        ps_raw_start := (if \<not> ls_raw_segment_records spec then ps_raw_start ps
          else (case terminator of Some t \<Rightarrow> token_end t
                | None \<Rightarrow> (case end_pos of Some p \<Rightarrow> p | None \<Rightarrow> ps_raw_start ps)))\<rparr>"

definition has_code :: "lexical_spec \<Rightarrow> parser \<Rightarrow> bool" where
  "has_code spec ps \<longleftrightarrow> (if ls_sqlite_shell spec then ps_sqlite_code ps else list_ex is_code (ps_current ps))"

definition flush :: "lexical_spec \<Rightarrow> string \<Rightarrow> token option \<Rightarrow> nat option \<Rightarrow> parser \<Rightarrow> split_error + parser" where
  "flush spec source terminator end_pos ps =
     (let rendered = render_statement spec source ps terminator end_pos
      in if ps_current ps \<noteq> [] \<and> has_code spec ps
         then (case (if ls_refuse_unquoted_scripting spec then check_unquoted_scripting spec (ps_current ps) else None) of
                 Some e \<Rightarrow> Inl e
               | None \<Rightarrow>
                   if strip_blanks spec rendered = [] then Inr (reset_statement spec terminator end_pos ps)
                   else rbind (statement_record spec source ps rendered terminator end_pos) (\<lambda>r.
                     Inr (reset_statement spec terminator end_pos (ps\<lparr>ps_records := ps_records ps @ [r]\<rparr>))))
         else Inr (reset_statement spec terminator end_pos ps))"

text \<open>A command of the client is a record of its own, or refused.\<close>

definition meta_record :: "string \<Rightarrow> token \<Rightarrow> statement" where
  "meta_record source t =
     \<lparr>sm_text = tk_text t, sm_line = tk_line t, sm_terminator = None, sm_kind = KDirective, sm_multi = False,
      sm_repeat = 1, sm_analysis = None, sm_start = tk_pos t, sm_end = line_end source (tk_pos t),
      sm_execution = None\<rparr>"

definition cut_meta :: "lexical_spec \<Rightarrow> string \<Rightarrow> token \<Rightarrow> parser \<Rightarrow> split_error + parser" where
  "cut_meta spec source t ps =
     rbind (flush spec source None (Some (tk_pos t)) ps) (\<lambda>ps1.
       if first_word (tk_text t) \<notin> set (ls_safe_meta_commands spec)
       then Inl (UnsupportedMeta (''Unsupported '' @ ls_client_name spec @ '' meta-command '' @ py_repr (first_word (tk_text t))
         @ '' at line '' @ digits_of_nat (tk_line t) @ ''; dblift does not run it (column '' @ digits_of_nat (tk_col t) @ '')''))
       else Inr (ps1\<lparr>ps_records := ps_records ps1 @ [meta_record source t]\<rparr>))"

definition cut_code :: "lexical_spec \<Rightarrow> string \<Rightarrow> token \<Rightarrow> token option \<Rightarrow> parser \<Rightarrow> split_error + parser" where
  "cut_code spec source t following ps =
     (let ps1 = adjust_context spec source t ps; ps2 = ps1\<lparr>ps_current := ps_current ps1 @ [t]\<rparr>
      in if is_statement_end spec t following ps2 then flush spec source (Some t) None ps2 else Inr ps2)"

definition cut_step :: "lexical_spec \<Rightarrow> string \<Rightarrow> token \<Rightarrow> token option \<Rightarrow> parser \<Rightarrow> split_error + parser" where
  "cut_step spec source t following ps =
     rbind (if ls_sqlite_shell spec
            then rbind (check_sqlite_line spec source t ps) (\<lambda>ps1. Inr (ps1\<lparr>ps_token_end := token_end t\<rparr>))
            else Inr ps) (\<lambda>ps1.
       if tk_type t = META_COMMAND then cut_meta spec source t ps1 else cut_code spec source t following ps1)"

text \<open>One token of lookahead: what stops the scanner is met before the last token it read is cut.\<close>

fun cut :: "lexical_spec \<Rightarrow> string \<Rightarrow> split_error option \<Rightarrow> token list \<Rightarrow> parser \<Rightarrow> split_error + parser" where
  "cut spec source (Some e) [] ps = Inl e"
| "cut spec source None [] ps = flush spec source None None ps"
| "cut spec source (Some e) [t] ps = Inl e"
| "cut spec source None [t] ps = rbind (cut_step spec source t None ps) (flush spec source None None)"
| "cut spec source err (t # u # ts) ps = rbind (cut_step spec source t (Some u) ps) (cut spec source err (u # ts))"

subsection \<open>The engine\<close>

text \<open>Comments as blanks of their length, and as one blank.\<close>

fun blank_spans :: "(nat \<Rightarrow> string) \<Rightarrow> string \<Rightarrow> nat \<Rightarrow> (nat \<times> nat) list \<Rightarrow> string" where
  "blank_spans f s cursor [] = drop cursor s"
| "blank_spans f s cursor ((a, b) # ss) = slice s cursor a @ f (b - a) @ blank_spans f s b ss"

definition policy_projection :: "string \<Rightarrow> string \<Rightarrow> statement \<Rightarrow> string option" where
  "policy_projection script masked r =
     (let sent = (case sm_execution r of None \<Rightarrow> sm_text r | Some t \<Rightarrow> t)
      in if sm_multi r \<or> (case sm_analysis r of Some as \<Rightarrow> length as > 1 | None \<Rightarrow> False) then None
         else (case find_sub sent (slice script (sm_start r) (sm_end r)) of
                 None \<Rightarrow> None
               | Some k \<Rightarrow> Some (slice masked (sm_start r + k) (sm_start r + k + length sent))))"

text \<open>\<open>LexicalEngine.split\<close>: the records and their policy views; \<open>None\<close> would be a scan without end.\<close>

definition split_script :: "lexical_spec \<Rightarrow> string \<Rightarrow> (split_error + statement list \<times> string option list) option" where
  "split_script spec script =
     map_option (\<lambda>(ts, err, sc).
         rbind (cut spec script err ts parser_start) (\<lambda>ps.
           let masked = blank_spans (\<lambda>n. replicate n (CHR '' '')) script 0 (sc_comments sc)
           in Inr (ps_records ps, map (policy_projection script masked) (ps_records ps))))
       (script_tokens spec script)"

definition split_statements :: "lexical_spec \<Rightarrow> string \<Rightarrow> (split_error + string list) option" where
  "split_statements spec script =
     map_option (\<lambda>r. rbind r (\<lambda>(rs, ps). Inr (execution_strings rs))) (split_script spec script)"

definition split_for_analysis :: "lexical_spec \<Rightarrow> string \<Rightarrow> (split_error + string list) option" where
  "split_for_analysis spec script =
     map_option (\<lambda>r. rbind r (\<lambda>(rs, ps). Inr (analysis_sql rs))) (split_script spec script)"

text \<open>\<open>blank_comments\<close> reads all tokens before it cuts them.\<close>

definition blank_comments :: "lexical_spec \<Rightarrow> string \<Rightarrow> (split_error + string) option" where
  "blank_comments spec script =
     map_option (\<lambda>(ts, err, sc).
         (case err of
            Some e \<Rightarrow> Inl e
          | None \<Rightarrow> rbind (cut spec script None ts parser_start) (\<lambda>ps. Inr (blank_spans (\<lambda>n. '' '') script 0 (sc_comments sc)))))
       (script_tokens spec script)"

subsection \<open>No code is lost\<close>

text \<open>The dialects whose statements start at their first code token.\<close>

definition plain_spec :: "lexical_spec \<Rightarrow> bool" where
  "plain_spec spec \<longleftrightarrow> spec_ok spec \<and> \<not> ls_sqlite_shell spec \<and> \<not> ls_raw_segment_records spec
     \<and> list_all (gap_char spec) (ls_text_blanks spec)"

lemma plain_postgresql: "plain_spec POSTGRESQL_SPEC"
  by (simp add: plain_spec_def) (simp add: POSTGRESQL_SPEC_def default_spec_def gap_char_def list_all_iff)

text \<open>What execution sends for a record, where the record ends, and whether it has a token.\<close>

definition sent_string :: "statement \<Rightarrow> string" where
  "sent_string r = (case sm_execution r of None \<Rightarrow> sm_text r | Some t \<Rightarrow> t)"

definition record_stop :: "statement \<Rightarrow> nat" where
  "record_stop r = (if sm_kind r = KDirective then sm_start r + length (sm_text r) else sm_end r)"

definition holds_token :: "statement \<Rightarrow> token \<Rightarrow> bool" where
  "holds_token r t \<longleftrightarrow>
     (if tk_type t = META_COMMAND then sm_kind r = KDirective \<and> sm_start r = tk_pos t \<and> sm_text r = tk_text t
      else sm_kind r \<noteq> KDirective \<and> sm_start r \<le> tk_pos t \<and> token_end t \<le> sm_end r)"

definition verbatim :: "lexical_spec \<Rightarrow> string \<Rightarrow> statement \<Rightarrow> bool" where
  "verbatim spec source r \<longleftrightarrow>
     (case sm_kind r of
        KSql \<Rightarrow> sm_multi r \<or> sent_string r = rstrip_blanks spec (slice source (sm_start r) (sm_end r))
      | KCopyStdin \<Rightarrow> (\<exists>e. copy_end source e = sm_end r \<and> sent_string r = slice source (sm_start r) e)
      | KDirective \<Rightarrow> sm_execution r = None)"

text \<open>The records after some of the tokens: in order, before the tokens to come, as in the script.\<close>

definition records_ok :: "lexical_spec \<Rightarrow> string \<Rightarrow> token list \<Rightarrow> statement list \<Rightarrow> bool" where
  "records_ok spec source ts rs \<longleftrightarrow> sorted_wrt (\<lambda>r r'. record_stop r \<le> sm_start r') rs
     \<and> list_all (verbatim spec source) rs \<and> list_all (\<lambda>r. list_all (\<lambda>t. record_stop r \<le> tk_pos t) ts) rs"

lemma adjust_context_keeps [simp]:
  "ps_current (adjust_context spec source t ps) = ps_current ps"
  "ps_records (adjust_context spec source t ps) = ps_records ps"
  by (auto simp: adjust_context_def adjust_block_depth_def Let_def)

lemma find_append_case: "List.find P (xs @ ys) = (case List.find P xs of None \<Rightarrow> List.find P ys | Some x \<Rightarrow> Some x)"
  by (induction xs) auto

lemma find_first: "List.find P (a @ t # b) = Some t" if "P t" "\<forall>u\<in>set a. \<not> P u"
  using that by (induction a) auto

lemma first_content_code:
  assumes "list_ex is_code ts"
  obtains a t b where "ts = a @ t # b" "first_content ts = Some t" "tk_type t \<noteq> COMMENT" "\<forall>u\<in>set a. tk_type u = COMMENT"
proof -
  have "\<exists>t\<in>set ts. tk_type t \<noteq> COMMENT" using assms by (auto simp: list_ex_iff is_code_def)
  then obtain a t b where t: "ts = a @ t # b" "tk_type t \<noteq> COMMENT" "\<forall>u\<in>set a. \<not> tk_type u \<noteq> COMMENT"
    using split_list_first_prop [of ts "\<lambda>t. tk_type t \<noteq> COMMENT"] by metis
  then have "first_content ts = Some t" by (simp add: first_content_def find_first)
  then show thesis using that [OF t(1)] t by blast
qed

definition cut_stop :: "string \<Rightarrow> token option \<Rightarrow> nat option \<Rightarrow> nat" where
  "cut_stop source terminator end_pos =
     (case terminator of Some t \<Rightarrow> token_stop source t
      | None \<Rightarrow> (case end_pos of Some p \<Rightarrow> p | None \<Rightarrow> length source))"

lemma rstrip_by_Cons: "\<not> P c \<Longrightarrow> \<exists>r'. rstrip_by P (c # r) = c # r'"
  by (cases "list_all P r") (auto simp: rstrip_by_def dropWhile_append list_all_iff intro: exI [of _ "rev (dropWhile P (rev r))"])

lemma rendered_not_blank:
  assumes "plain_spec spec" "tk_text f = take (length (tk_text f)) (drop (tk_pos f) source)"
    "tk_text f \<noteq> []" "\<not> gap_char spec (hd (tk_text f))" "token_end f \<le> e"
  shows "strip_blanks spec (rstrip_blanks spec (slice source (tk_pos f) e)) \<noteq> []"
proof -
  have n: "drop (tk_pos f) source \<noteq> []" using assms(2,3) by (metis take_Nil)
  then have h: "hd (tk_text f) = hd (drop (tk_pos f) source)" using assms(2,3) by (metis hd_take length_greater_0_conv)
  have lt: "tk_pos f < e" using assms(3,5) by (cases "tk_text f") auto
  have "slice source (tk_pos f) e \<noteq> []" "hd (slice source (tk_pos f) e) = hd (tk_text f)"
    using n h lt by (simp_all add: slice_def hd_take)
  then obtain c r where c: "slice source (tk_pos f) e = c # r" "\<not> gap_char spec c"
    using assms(4) by (metis list.collapse)
  then have b: "c \<notin> set (ls_text_blanks spec)" using assms(1) by (auto simp: plain_spec_def list_all_iff)
  obtain r' where "rstrip_blanks spec (c # r) = c # r'"
    using b rstrip_by_Cons unfolding rstrip_blanks_def by metis
  moreover obtain r'' where "rstrip_blanks spec (c # r') = c # r''"
    using b rstrip_by_Cons unfolding rstrip_blanks_def by metis
  ultimately show ?thesis using b c(1)
    by (simp add: strip_blanks_def strip_by_def lstrip_by_def rstrip_blanks_def)
qed

lemma statement_record_plain:
  assumes "statement_record spec source ps rendered terminator end_pos = Inr r" "plain_spec spec"
    "first_content (ps_current ps) = Some f"
    "rendered = rstrip_blanks spec (slice source (tk_pos f) (render_end source terminator end_pos))"
    "terminator = None \<or> end_pos = None"
  shows "sm_kind r \<noteq> KDirective" "sm_start r = tk_pos f" "sm_end r = cut_stop source terminator end_pos" "verbatim spec source r"
proof -
  have p: "\<not> ls_sqlite_shell spec" "\<not> ls_raw_segment_records spec" using assms(2) by (auto simp: plain_spec_def)
  note eq = assms(1) [unfolded statement_record_def Let_def assms(3) option.sel]
  show "sm_kind r \<noteq> KDirective" "sm_start r = tk_pos f" "sm_end r = cut_stop source terminator end_pos"
    using eq p by (auto simp: cut_stop_def token_stop_def copy_end_def split: option.splits if_splits)
  show "verbatim spec source r"
    using eq p assms(4,5)
    by (auto simp: verbatim_def sent_string_def render_end_def copy_end_def split: option.splits if_splits)
qed

lemma flush_current: "flush spec source terminator end_pos ps = Inr ps' \<Longrightarrow> ps_current ps' = []"
  by (auto simp: flush_def reset_statement_def Let_def split: if_splits option.splits)

lemma flush_plain:
  assumes "flush spec source terminator end_pos ps = Inr ps'" "plain_spec spec"
    "well_placed spec source (ps_current ps)" "terminator = None \<or> end_pos = None"
    "\<And>f. first_content (ps_current ps) = Some f \<Longrightarrow> tk_type f \<noteq> COPY_DATA"
    "\<And>t. t \<in> set (ps_current ps) \<Longrightarrow> token_end t \<le> render_end source terminator end_pos"
  shows "\<not> list_ex is_code (ps_current ps) \<Longrightarrow> ps_records ps' = ps_records ps"
    "list_ex is_code (ps_current ps) \<Longrightarrow> \<exists>r f. ps_records ps' = ps_records ps @ [r] \<and> first_content (ps_current ps) = Some f
       \<and> sm_kind r \<noteq> KDirective \<and> sm_start r = tk_pos f \<and> sm_end r = cut_stop source terminator end_pos \<and> verbatim spec source r"
proof -
  have p: "\<not> ls_sqlite_shell spec" "\<not> ls_raw_segment_records spec" using assms(2) by (auto simp: plain_spec_def)
  note eq = assms(1) [unfolded flush_def Let_def has_code_def if_not_P [OF p(1)]]
  show "ps_records ps' = ps_records ps" if "\<not> list_ex is_code (ps_current ps)"
    using eq that by (auto simp: reset_statement_def)
  assume c: "list_ex is_code (ps_current ps)"
  obtain a f b where f: "ps_current ps = a @ f # b" "first_content (ps_current ps) = Some f" "tk_type f \<noteq> COMMENT"
    by (rule first_content_code [OF c]) blast
  have in_cur: "f \<in> set (ps_current ps)" by (simp add: f(1))
  define rendered where "rendered = rstrip_blanks spec (slice source (tk_pos f) (render_end source terminator end_pos))"
  have rend: "render_statement spec source ps terminator end_pos = rendered"
    using p f(2) by (simp add: render_statement_def Let_def rendered_def)
  have lexeme: "tk_text f = take (length (tk_text f)) (drop (tk_pos f) source)" "tk_text f \<noteq> []"
    "\<not> gap_char spec (hd (tk_text f))"
    using assms(3) in_cur f(3) assms(5) [OF f(2)] by (auto simp: well_placed_def list_all_iff)
  have nb: "strip_blanks spec rendered \<noteq> []"
    unfolding rendered_def by (rule rendered_not_blank [OF assms(2) lexeme assms(6) [OF in_cur]])
  have "ps_current ps \<noteq> []" using f(1) by simp
  then obtain r where r: "statement_record spec source ps rendered terminator end_pos = Inr r"
    "ps_records ps' = ps_records ps @ [r]"
    using eq c nb unfolding rend by (auto simp: reset_statement_def split: if_splits option.splits)
  show "\<exists>r f. ps_records ps' = ps_records ps @ [r] \<and> first_content (ps_current ps) = Some f
       \<and> sm_kind r \<noteq> KDirective \<and> sm_start r = tk_pos f \<and> sm_end r = cut_stop source terminator end_pos \<and> verbatim spec source r"
    using r(2) f(2) statement_record_plain [OF r(1) assms(2) f(2) rendered_def assms(4)] by blast
qed

text \<open>While \<open>cut\<close> runs, the tokens are those in records, those of the statement it is in, and those to
  come.\<close>

definition cut_inv :: "lexical_spec \<Rightarrow> string \<Rightarrow> token list \<Rightarrow> token list \<Rightarrow> parser \<Rightarrow> bool" where
  "cut_inv spec source all rest ps \<longleftrightarrow>
     (\<exists>seen. all = seen @ ps_current ps @ rest \<and> (\<forall>t\<in>set seen. is_code t \<longrightarrow> (\<exists>r\<in>set (ps_records ps). holds_token r t)))
     \<and> well_placed spec source (ps_current ps @ rest)
     \<and> (\<forall>t\<in>set (ps_current ps). tk_type t \<noteq> COPY_DATA \<and> tk_type t \<noteq> META_COMMAND)
     \<and> copy_after_end (\<exists>d\<in>set (ps_current ps). tk_type d = DELIMITER) rest
     \<and> records_ok spec source (ps_current ps @ rest) (ps_records ps)"

lemma records_ok_append: "records_ok spec source (us @ ts) rs \<Longrightarrow> records_ok spec source ts rs"
  by (auto simp: records_ok_def list_all_iff)

lemma well_placed_append:
  "well_placed spec sql (us @ ts) \<longleftrightarrow> well_placed spec sql us \<and> well_placed spec sql ts
     \<and> (\<forall>u\<in>set us. \<forall>t\<in>set ts. token_stop sql u \<le> tk_pos t)"
  by (auto simp: well_placed_def sorted_wrt_append)

text \<open>A flush moves the statement into a record.\<close>

lemma flush_keeps:
  assumes "flush spec source terminator end_pos ps = Inr ps'" "plain_spec spec"
    "well_placed spec source (ps_current ps @ rest)" "terminator = None \<or> end_pos = None"
    "\<And>f. first_content (ps_current ps) = Some f \<Longrightarrow> tk_type f \<noteq> COPY_DATA"
    "\<And>t. t \<in> set (ps_current ps) \<Longrightarrow> tk_type t \<noteq> META_COMMAND"
    "\<And>t. t \<in> set (ps_current ps) \<Longrightarrow> token_end t \<le> render_end source terminator end_pos"
    "\<And>t. t \<in> set (ps_current ps) \<Longrightarrow> token_stop source t \<le> cut_stop source terminator end_pos"
    "\<And>t. t \<in> set rest \<Longrightarrow> cut_stop source terminator end_pos \<le> tk_pos t"
    "records_ok spec source (ps_current ps @ rest) (ps_records ps)"
    "all = seen @ ps_current ps @ rest" "\<forall>t\<in>set seen. is_code t \<longrightarrow> (\<exists>r\<in>set (ps_records ps). holds_token r t)"
    "copy_after_end False rest"
  shows "cut_inv spec source all rest ps'"
proof -
  have wp: "well_placed spec source (ps_current ps)" "well_placed spec source rest"
    using assms(3) by (simp_all add: well_placed_append)
  note fl = flush_plain [OF assms(1,2) wp(1) assms(4,5,7)]
  have kept: "(\<forall>t\<in>set (ps_current ps). is_code t \<longrightarrow> (\<exists>r\<in>set (ps_records ps'). holds_token r t))
      \<and> set (ps_records ps) \<subseteq> set (ps_records ps') \<and> records_ok spec source rest (ps_records ps')"
  proof (cases "list_ex is_code (ps_current ps)")
    case False
    then show ?thesis using fl(1) records_ok_append [OF assms(10)] by (auto simp: list_ex_iff)
  next
    case True
    then obtain r f where r: "ps_records ps' = ps_records ps @ [r]" "first_content (ps_current ps) = Some f"
      "sm_kind r \<noteq> KDirective" "sm_start r = tk_pos f" "sm_end r = cut_stop source terminator end_pos" "verbatim spec source r"
      using fl(2) by blast
    obtain a b where f: "ps_current ps = a @ f # b" "\<forall>u\<in>set a. tk_type u = COMMENT"
      using first_content_code [OF True] r(2) by (metis option.inject)
    have "holds_token r t" if t: "t \<in> set (ps_current ps)" "is_code t" for t
    proof -
      have "t \<in> set (f # b)" using t f by (auto simp: is_code_def)
      then have "tk_pos f \<le> tk_pos t"
        using wp(1) placed_end [OF wp(1), of f] unfolding f(1)
          by (auto simp: well_placed_def sorted_wrt_append)
      moreover have "token_end t \<le> sm_end r" using assms(8) [OF t(1)] placed_end [OF wp(1) t(1)] r(5) by simp
      ultimately show ?thesis using r(3,4) assms(6) [OF t(1)] by (simp add: holds_token_def)
    qed
    moreover have "records_ok spec source rest (ps_records ps')"
      using assms(9,10) r f(1) by (auto simp: records_ok_def sorted_wrt_append record_stop_def list_all_iff)
    ultimately show ?thesis using r(1) by auto
  qed
  then show "cut_inv spec source all rest ps'"
    using assms(11-13) wp(2) flush_current [OF assms(1)] unfolding cut_inv_def
    by (auto intro!: exI [of _ "seen @ ps_current ps"]) (meson subsetD)
qed

text \<open>A token joins the statement, or ends it; a command of the client ends it too.\<close>

lemma cut_inv_seen:
  assumes "cut_inv spec source all rest ps"
  obtains seen where "all = seen @ ps_current ps @ rest"
    "\<forall>u\<in>set seen. is_code u \<longrightarrow> (\<exists>r\<in>set (ps_records ps). holds_token r u)"
  using assms by (auto simp: cut_inv_def)

lemma cut_inv_token:
  assumes "cut_inv spec source all (t # ts) ps"
  shows "well_placed spec source (ps_current ps @ t # ts)" "records_ok spec source (ps_current ps @ t # ts) (ps_records ps)"
    "\<And>u. u \<in> set (ps_current ps) \<Longrightarrow> tk_type u \<noteq> COPY_DATA \<and> tk_type u \<noteq> META_COMMAND"
    "tk_type t = COPY_DATA \<Longrightarrow> \<exists>d\<in>set (ps_current ps). tk_type d = DELIMITER"
    "copy_after_end (tk_type t = DELIMITER) ts"
  using assms by (auto simp: cut_inv_def)

lemma cut_meta_keeps:
  assumes "cut_meta spec source t ps = Inr ps'" "plain_spec spec" "cut_inv spec source all (t # ts) ps"
    "tk_type t = META_COMMAND"
  shows "cut_inv spec source all ts ps'"
proof -
  obtain seen where seen: "all = seen @ ps_current ps @ t # ts"
    "\<forall>u\<in>set seen. is_code u \<longrightarrow> (\<exists>r\<in>set (ps_records ps). holds_token r u)"
    by (rule cut_inv_seen [OF assms(3)])
  note inv = cut_inv_token [OF assms(3)]
  obtain ps1 where ps1: "flush spec source None (Some (tk_pos t)) ps = Inr ps1"
    "ps' = ps1\<lparr>ps_records := ps_records ps1 @ [meta_record source t]\<rparr>"
    using assms(1) by (auto simp: cut_meta_def split: if_splits)
  have fit: "token_stop source u \<le> tk_pos t" if "u \<in> set (ps_current ps)" for u
    using inv(1) that by (simp add: well_placed_append)
  have behind: "token_end t \<le> tk_pos u" if "u \<in> set ts" for u
    using inv(1) that placed_end [OF inv(1), of t] by (auto simp: well_placed_def sorted_wrt_append)
  have i: "cut_inv spec source all (t # ts) ps1"
  proof (rule flush_keeps [OF ps1(1) assms(2) inv(1) _ _ _ _ _ _ inv(2) seen])
    show "token_end u \<le> render_end source None (Some (tk_pos t))" if "u \<in> set (ps_current ps)" for u
      using fit [OF that] placed_end [OF inv(1), of u] that by (simp add: render_end_def)
    show "cut_stop source None (Some (tk_pos t)) \<le> tk_pos u" if "u \<in> set (t # ts)" for u
      using behind that by (auto simp: cut_stop_def intro: add_leD1)
    show "tk_type f \<noteq> COPY_DATA" if "first_content (ps_current ps) = Some f" for f
      using inv(3) that by (auto simp: first_content_def find_Some_iff)
  qed (use assms(4) inv(3,5) fit in \<open>auto simp: cut_stop_def\<close>)
  then obtain seen' where s: "all = seen' @ t # ts"
    "\<forall>u\<in>set seen'. is_code u \<longrightarrow> (\<exists>r\<in>set (ps_records ps1). holds_token r u)"
    "records_ok spec source (t # ts) (ps_records ps1)" "well_placed spec source ts"
    using i flush_current [OF ps1(1)] by (auto simp: cut_inv_def well_placed_def)
  have "holds_token (meta_record source t) t" using assms(4) by (simp add: holds_token_def meta_record_def)
  moreover have "records_ok spec source ts (ps_records ps')"
    using s(3) behind unfolding ps1(2)
    by (auto simp: records_ok_def sorted_wrt_append record_stop_def verbatim_def meta_record_def list_all_iff)
  ultimately show ?thesis
    using s assms(4) inv(5) flush_current [OF ps1(1)] unfolding cut_inv_def ps1(2) by (auto intro!: exI [of _ "seen' @ [t]"])
qed

lemma cut_code_keeps:
  assumes "cut_code spec source t following ps = Inr ps'" "plain_spec spec" "cut_inv spec source all (t # ts) ps"
    "tk_type t \<noteq> META_COMMAND" "following = (case ts of [] \<Rightarrow> None | u # _ \<Rightarrow> Some u)"
  shows "cut_inv spec source all ts ps'"
proof -
  have p: "\<not> ls_sqlite_shell spec" using assms(2) by (simp add: plain_spec_def)
  obtain seen where seen: "all = seen @ ps_current ps @ t # ts"
    "\<forall>u\<in>set seen. is_code u \<longrightarrow> (\<exists>r\<in>set (ps_records ps). holds_token r u)"
    by (rule cut_inv_seen [OF assms(3)])
  note inv = cut_inv_token [OF assms(3)]
  define ps2 where "ps2 = (adjust_context spec source t ps)\<lparr>ps_current := ps_current ps @ [t]\<rparr>"
  have cur: "ps_current ps2 = ps_current ps @ [t]" "ps_records ps2 = ps_records ps" by (simp_all add: ps2_def)
  have step: "(if is_statement_end spec t following ps2 then flush spec source (Some t) None ps2 else Inr ps2) = Inr ps'"
    using assms(1) [unfolded cut_code_def Let_def] unfolding adjust_context_keeps ps2_def by simp
  have inv2: "well_placed spec source (ps_current ps2 @ ts)" "records_ok spec source (ps_current ps2 @ ts) (ps_records ps2)"
    "all = seen @ ps_current ps2 @ ts" using inv(1,2) seen(1) cur by simp_all
  show ?thesis
  proof (cases "is_statement_end spec t following ps2")
    case True
    have "copy_after_end False ts"
      using True p inv(5) assms(5) by (cases ts) (auto simp: is_statement_end_def split: if_splits)
    moreover have "tk_type f \<noteq> COPY_DATA" if "first_content (ps_current ps2) = Some f" for f
      using that inv(3,4) unfolding cur first_content_def find_append_case
      by (auto simp: find_None_iff find_Some_iff split: option.splits if_splits)
    moreover have "token_end u \<le> token_end t \<and> token_stop source u \<le> token_stop source t" if "u \<in> set (ps_current ps2)" for u
      using inv(1) that placed_end [OF inv(1), of u] placed_end [OF inv(1), of t] unfolding cur
      by (fastforce simp: well_placed_append intro: order_trans)
    moreover have "token_stop source t \<le> tk_pos u" if "u \<in> set ts" for u
      using inv(1) that by (auto simp: well_placed_def sorted_wrt_append)
    ultimately show ?thesis
      using step True inv(3) assms(4) inv2 seen(2)
      by (intro flush_keeps [of spec source "Some t" None ps2 ps' ts all seen])
        (auto simp: assms(2) cur render_end_def cut_stop_def)
  next
    case not_end: False
    then have "tk_type t \<noteq> COPY_DATA" using p by (auto simp: is_statement_end_def)
    moreover have "ps' = ps2" using step not_end by simp
    ultimately show ?thesis
      using inv2 seen(2) inv(3) assms(4) copy_after_end_mono [OF inv(5)] unfolding cut_inv_def
      by (auto simp: cur)
  qed
qed

lemma cut_step_keeps:
  assumes "cut_step spec source t following ps = Inr ps'" "plain_spec spec" "cut_inv spec source all (t # ts) ps"
    "following = (case ts of [] \<Rightarrow> None | u # _ \<Rightarrow> Some u)"
  shows "cut_inv spec source all ts ps'"
proof (cases "tk_type t = META_COMMAND")
  case True
  then have "cut_meta spec source t ps = Inr ps'" using assms(1,2) by (simp add: cut_step_def plain_spec_def)
  then show ?thesis using cut_meta_keeps assms(2,3) True by blast
next
  case False
  then have "cut_code spec source t following ps = Inr ps'" using assms(1,2) by (simp add: cut_step_def plain_spec_def)
  then show ?thesis using cut_code_keeps assms(2,3,4) False by blast
qed

lemma last_flush_keeps:
  assumes "flush spec source None None ps = Inr ps'" "plain_spec spec" "cut_inv spec source all [] ps"
  shows "cut_inv spec source all [] ps' \<and> ps_current ps' = []"
proof -
  obtain seen where seen: "all = seen @ ps_current ps @ []"
    "\<forall>u\<in>set seen. is_code u \<longrightarrow> (\<exists>r\<in>set (ps_records ps). holds_token r u)"
    using assms(3) by (auto simp: cut_inv_def)
  have inv: "well_placed spec source (ps_current ps @ [])" "records_ok spec source (ps_current ps @ []) (ps_records ps)"
    "\<And>u. u \<in> set (ps_current ps) \<Longrightarrow> tk_type u \<noteq> COPY_DATA \<and> tk_type u \<noteq> META_COMMAND"
    using assms(3) by (auto simp: cut_inv_def)
  have "token_end u \<le> length source \<and> token_stop source u \<le> length source" if "u \<in> set (ps_current ps)" for u
    using placed_end [OF inv(1), of u] that by auto
  moreover have "tk_type f \<noteq> COPY_DATA" if "first_content (ps_current ps) = Some f" for f
    using inv(3) that by (auto simp: first_content_def find_Some_iff)
  ultimately have "cut_inv spec source all [] ps'"
    using inv seen(2) by (intro flush_keeps [OF assms(1,2) inv(1) _ _ _ _ _ _ inv(2) seen]) (auto simp: render_end_def cut_stop_def)
  then show ?thesis using flush_current [OF assms(1)] by simp
qed

lemma cut_keeps:
  assumes "cut spec source None ts ps = Inr ps'" "plain_spec spec" "cut_inv spec source all ts ps"
  shows "cut_inv spec source all [] ps' \<and> ps_current ps' = []"
  using assms
proof (induction spec source "None :: split_error option" ts ps arbitrary: ps' rule: cut.induct)
  case (4 spec source t ps)
  then obtain ps1 where "cut_step spec source t None ps = Inr ps1" "flush spec source None None ps1 = Inr ps'" by auto
  then show ?case using last_flush_keeps cut_step_keeps [of spec source t None ps ps1 all "[]"] 4(2,3) by simp
next
  case (5 spec source t u ts ps)
  then obtain ps1 where c: "cut_step spec source t (Some u) ps = Inr ps1" "cut spec source None (u # ts) ps1 = Inr ps'" by auto
  then show ?case using 5(1) [OF c(2) 5(3)] cut_step_keeps [OF c(1) 5(3,4)] by simp
qed (use last_flush_keeps in simp)

text \<open>C30. A split keeps the script. When a script whose tokens were all read is split in a dialect whose
  statements start at their first token, every token of code stands in a record, the records follow one
  another without overlap, and what is sent for a record is the text of the script from its start to its
  end, up to blanks at the end: only a unit with combined statements is sent with its combinators
  replaced.\<close>

theorem split_keeps_code:
  assumes "plain_spec spec" "script_tokens spec s = Some (ts, None, sc)" "split_script spec s = Some (Inr (rs, ps))"
  shows "(\<forall>t\<in>set ts. is_code t \<longrightarrow> (\<exists>r\<in>set rs. holds_token r t))
     \<and> sorted_wrt (\<lambda>r r'. record_stop r \<le> sm_start r') rs \<and> list_all (verbatim spec s) rs"
proof -
  have ok: "spec_ok spec" using assms(1) by (simp add: plain_spec_def)
  obtain ps' where c: "cut spec s None ts parser_start = Inr ps'" "rs = ps_records ps'"
    using assms(2,3) by (auto simp: split_script_def Let_def)
  have i: "cut_inv spec s ts ts parser_start"
    using script_tokens_placed [OF assms(2) ok] script_tokens_copy [OF assms(2) ok]
    by (simp add: cut_inv_def parser_start_def records_ok_def)
  show ?thesis using cut_keeps [OF c(1) assms(1) i] c(2) by (auto simp: cut_inv_def records_ok_def)
qed

theorem split_keeps_code_witness:
  "\<exists>ts sc rs ps. script_tokens POSTGRESQL_SPEC ''A; --x'' = Some (ts, None, sc) \<and> map tk_text ts = [''A'', '';'', []]
     \<and> split_script POSTGRESQL_SPEC ''A; --x'' = Some (Inr (rs, ps)) \<and> map sm_text rs = [''A'']
     \<and> (\<forall>t\<in>set ts. is_code t \<longrightarrow> (\<exists>r\<in>set rs. holds_token r t))"
proof -
  have "case script_tokens POSTGRESQL_SPEC ''A; --x'' of Some (ts, None, sc) \<Rightarrow> map tk_text ts = [''A'', '';'', []] | _ \<Rightarrow> False"
    by code_simp
  then obtain ts sc where t: "script_tokens POSTGRESQL_SPEC ''A; --x'' = Some (ts, None, sc)" "map tk_text ts = [''A'', '';'', []]"
    by (auto split: option.splits)
  have "case split_script POSTGRESQL_SPEC ''A; --x'' of Some (Inr (rs, ps)) \<Rightarrow> map sm_text rs = [''A''] | _ \<Rightarrow> False"
    by code_simp
  then obtain rs ps where r: "split_script POSTGRESQL_SPEC ''A; --x'' = Some (Inr (rs, ps))" "map sm_text rs = [''A'']"
    by (auto split: option.splits sum.splits)
  show ?thesis
    by (intro exI conjI) (fact t r | rule conjunct1 [OF split_keeps_code [OF plain_postgresql t(1) r(1)]])+
qed

end
