(* ===== verification/Lease.thy ===== *)
theory Lease
  imports PyString
begin

text \<open>
  The migration lock that is held as a lease (\<open>db/plugins/lease_lock.py\<close>): the acquire loop, the
  heartbeat and the release of \<open>LeaseLock\<close>, with the two kinds of stores that keep the lease: a row of
  the lock table (\<open>SqlLeaseStore\<close> in \<open>db/plugins/sql_lease_store.py\<close>, in both of its shapes) and a
  document (\<open>_MongoLeaseStore\<close>). Any number of contenders share a store; each statement they send is
  one atomic step, and between two steps anything may happen: other steps, time, the death of a process.
  Times are milliseconds of one clock, the server's (the clients', for the document), which the
  \<open>time.monotonic\<close> of every process follows.
\<close>

subsection \<open>Constants\<close>

definition LEASE_EXPIRY_SECONDS :: int where
  "LEASE_EXPIRY_SECONDS = 30 * 1000"

definition POLL_INTERVAL_SECONDS :: int where
  "POLL_INTERVAL_SECONDS = 1000"

definition LEGACY_LEASE_EXPIRY_SECONDS :: int where
  "LEGACY_LEASE_EXPIRY_SECONDS = 24 * 60 * 60 * 1000"

definition UNREFRESHED_TOKEN_PREFIX :: string where
  "UNREFRESHED_TOKEN_PREFIX = ''unrefreshed-''"

definition heartbeat_interval :: int where
  "heartbeat_interval = LEASE_EXPIRY_SECONDS div 3"

definition busy_retry_delay :: int where
  "busy_retry_delay = POLL_INTERVAL_SECONDS div 10"

subsection \<open>Stores\<close>

text \<open>The statements of \<open>LeaseStore\<close>, with the time at which the server runs them. \<open>reclaim_expired\<close> is a
  look at the lease and the removal of what was seen; in a table both are one statement.\<close>

record ('s, 'e) lease_store =
  st_try_acquire :: "string \<Rightarrow> int \<Rightarrow> 's \<Rightarrow> bool \<times> 's"
  st_look :: "int \<Rightarrow> 's \<Rightarrow> 'e option"
  st_take :: "'e \<Rightarrow> int \<Rightarrow> 's \<Rightarrow> bool \<times> 's"
  st_refresh :: "string \<Rightarrow> int \<Rightarrow> 's \<Rightarrow> bool \<times> 's"
  st_release :: "string \<Rightarrow> 's \<Rightarrow> bool \<times> 's"

text \<open>The rows of the lock table that have the name of the lock. \<open>sd_legacy\<close> is the offset of the clock that
  rows without an owner were written with.\<close>

record lease_row =
  lr_owner :: "string option"
  lr_stamp :: int

record sql_lease_dialect =
  sd_seeded_row :: bool
  sd_legacy_now :: "int option"

definition sql_try_acquire :: "sql_lease_dialect \<Rightarrow> string \<Rightarrow> int \<Rightarrow> lease_row list \<Rightarrow> bool \<times> lease_row list" where
  "sql_try_acquire d token now rows =
     (if sd_seeded_row d
      then (if length rows = 1 \<and> lr_owner (hd rows) = None
            then (True, [(hd rows)\<lparr>lr_owner := Some token, lr_stamp := now\<rparr>]) else (False, rows))
      else (if rows = [] then (True, [\<lparr>lr_owner = Some token, lr_stamp = now\<rparr>]) else (False, rows)))"

definition reclaimable :: "sql_lease_dialect \<Rightarrow> int \<Rightarrow> int \<Rightarrow> lease_row \<Rightarrow> bool" where
  "reclaimable d expiry now r =
     (case lr_owner r of
        Some t \<Rightarrow> if starts_with t UNREFRESHED_TOKEN_PREFIX then lr_stamp r < now - LEGACY_LEASE_EXPIRY_SECONDS
                 else lr_stamp r < now - expiry
      | None \<Rightarrow> (case sd_legacy_now d of
                  Some offset \<Rightarrow> lr_stamp r < now + offset - LEGACY_LEASE_EXPIRY_SECONDS | None \<Rightarrow> False))"

text \<open>What frees a row: the owner is cleared in a seeded row, any other row is deleted.\<close>

definition free_rows :: "sql_lease_dialect \<Rightarrow> (lease_row \<Rightarrow> bool) \<Rightarrow> lease_row list \<Rightarrow> bool \<times> lease_row list" where
  "free_rows d P rows =
     (list_ex P rows,
      if sd_seeded_row d then map (\<lambda>r. if P r then r\<lparr>lr_owner := None\<rparr> else r) rows else filter (\<lambda>r. \<not> P r) rows)"

definition sql_reclaim_expired :: "sql_lease_dialect \<Rightarrow> int \<Rightarrow> int \<Rightarrow> lease_row list \<Rightarrow> bool \<times> lease_row list" where
  "sql_reclaim_expired d expiry now rows = free_rows d (reclaimable d expiry now) rows"

definition sql_refresh :: "string \<Rightarrow> int \<Rightarrow> lease_row list \<Rightarrow> bool \<times> lease_row list" where
  "sql_refresh token now rows =
     (list_ex (\<lambda>r. lr_owner r = Some token) rows,
      map (\<lambda>r. if lr_owner r = Some token then r\<lparr>lr_stamp := now\<rparr> else r) rows)"

definition sql_release :: "sql_lease_dialect \<Rightarrow> string \<Rightarrow> lease_row list \<Rightarrow> bool \<times> lease_row list" where
  "sql_release d token rows = free_rows d (\<lambda>r. lr_owner r = Some token) rows"

definition sql_store :: "sql_lease_dialect \<Rightarrow> (lease_row list, unit) lease_store" where
  "sql_store d =
     \<lparr>st_try_acquire = sql_try_acquire d, st_look = (\<lambda>now rows. Some ()),
      st_take = (\<lambda>_. sql_reclaim_expired d LEASE_EXPIRY_SECONDS), st_refresh = sql_refresh,
      st_release = sql_release d\<rparr>"

text \<open>The lease document. \<open>ld_acquired\<close> is \<open>None\<close> when the timestamp is missing or cannot be read.\<close>

record lease_document =
  ld_owner :: string
  ld_acquired :: "int option"

definition is_expired :: "lease_document \<Rightarrow> int \<Rightarrow> int \<Rightarrow> bool" where
  "is_expired doc expiry now = (case ld_acquired doc of None \<Rightarrow> True | Some a \<Rightarrow> expiry < now - a)"

definition mongo_try_acquire :: "string \<Rightarrow> int \<Rightarrow> lease_document option \<Rightarrow> bool \<times> lease_document option" where
  "mongo_try_acquire token now s =
     (case s of None \<Rightarrow> (True, Some \<lparr>ld_owner = token, ld_acquired = Some now\<rparr>) | Some doc \<Rightarrow> (False, s))"

definition mongo_look :: "int \<Rightarrow> lease_document option \<Rightarrow> int option option" where
  "mongo_look now s =
     (case s of None \<Rightarrow> None
      | Some doc \<Rightarrow> if is_expired doc LEASE_EXPIRY_SECONDS now then Some (ld_acquired doc) else None)"

definition mongo_take :: "int option \<Rightarrow> int \<Rightarrow> lease_document option \<Rightarrow> bool \<times> lease_document option" where
  "mongo_take seen now s =
     (case s of None \<Rightarrow> (False, None) | Some doc \<Rightarrow> if ld_acquired doc = seen then (True, None) else (False, s))"

definition mongo_refresh :: "string \<Rightarrow> int \<Rightarrow> lease_document option \<Rightarrow> bool \<times> lease_document option" where
  "mongo_refresh token now s =
     (case s of None \<Rightarrow> (False, None)
      | Some doc \<Rightarrow> if ld_owner doc = token then (True, Some (doc\<lparr>ld_acquired := Some now\<rparr>)) else (False, s))"

definition mongo_release :: "string \<Rightarrow> lease_document option \<Rightarrow> bool \<times> lease_document option" where
  "mongo_release token s =
     (case s of None \<Rightarrow> (False, None) | Some doc \<Rightarrow> if ld_owner doc = token then (True, None) else (False, s))"

definition mongo_store :: "(lease_document option, int option) lease_store" where
  "mongo_store =
     \<lparr>st_try_acquire = mongo_try_acquire, st_look = mongo_look, st_take = mongo_take,
      st_refresh = mongo_refresh, st_release = mongo_release\<rparr>"

subsection \<open>One contender\<close>

text \<open>Where a \<open>LeaseLock\<close> is: in the loop of \<open>acquire\<close>, before the look at the lease, before the removal
  of what was seen, before the insert, before the deadline is asked, or asleep; holding the lease; before
  the release statement; or finished.\<close>

datatype 'e lease_phase =
    Idle | Trying | Taking 'e | Acquiring | Pausing | Sleeping int | Holding | Releasing | Over

record 'e contender =
  ct_phase :: "'e lease_phase"
  ct_token :: string
  ct_heartbeat :: bool
  ct_deadline :: int
  ct_last_busy :: "int option"
  ct_first_attempt :: bool
  ct_lost :: bool
  ct_beating :: bool
  ct_last_alive :: int
  ct_next_beat :: int
  ct_alive :: bool

definition may_reclaim :: "int \<Rightarrow> 'e contender \<Rightarrow> bool" where
  "may_reclaim now c = (case ct_last_busy c of None \<Rightarrow> True | Some t \<Rightarrow> LEASE_EXPIRY_SECONDS \<le> now - t)"

definition begin_acquire :: "string \<Rightarrow> bool \<Rightarrow> int \<Rightarrow> int \<Rightarrow> 'e contender \<Rightarrow> 'e contender" where
  "begin_acquire token hb timeout now c =
     c\<lparr>ct_phase := Trying, ct_token := token, ct_heartbeat := hb, ct_deadline := now + max timeout 0,
       ct_last_busy := None, ct_first_attempt := True\<rparr>"

definition on_acquired :: "int \<Rightarrow> 'e contender \<Rightarrow> 'e contender" where
  "on_acquired now c =
     c\<lparr>ct_phase := Holding, ct_lost := False, ct_beating := ct_heartbeat c, ct_last_alive := now,
       ct_next_beat := now + heartbeat_interval\<rparr>"

definition sleep_until :: "int \<Rightarrow> 'e contender \<Rightarrow> int" where
  "sleep_until now c = now + min POLL_INTERVAL_SECONDS (ct_deadline c - now)"

text \<open>A statement of the loop that is under way, and what it does to the store. An exception may come
  before or after its effect.\<close>

fun statement_of :: "('s, 'e) lease_store \<Rightarrow> int \<Rightarrow> 'e contender \<Rightarrow> 's \<Rightarrow> 's option" where
  "statement_of st now c s =
     (case ct_phase c of
        Trying \<Rightarrow> if ct_first_attempt c \<or> \<not> may_reclaim now c then None else Some s
      | Taking e \<Rightarrow> Some (snd (st_take st e now s))
      | Acquiring \<Rightarrow> Some (snd (st_try_acquire st (ct_token c) now s))
      | _ \<Rightarrow> None)"

inductive lease_move :: "('s, 'e) lease_store \<Rightarrow> int \<Rightarrow> 'e contender \<Rightarrow> 's \<Rightarrow> 'e contender \<Rightarrow> 's \<Rightarrow> bool"
  for st now where
  no_look: "ct_phase c = Trying \<Longrightarrow> ct_first_attempt c \<or> \<not> may_reclaim now c
    \<Longrightarrow> lease_move st now c s (c\<lparr>ct_phase := Acquiring, ct_first_attempt := False\<rparr>) s"
| nothing_seen: "ct_phase c = Trying \<Longrightarrow> \<not> ct_first_attempt c \<Longrightarrow> may_reclaim now c \<Longrightarrow> st_look st now s = None
    \<Longrightarrow> lease_move st now c s (c\<lparr>ct_phase := Acquiring\<rparr>) s"
| expired_seen: "ct_phase c = Trying \<Longrightarrow> \<not> ct_first_attempt c \<Longrightarrow> may_reclaim now c \<Longrightarrow> st_look st now s = Some e
    \<Longrightarrow> lease_move st now c s (c\<lparr>ct_phase := Taking e\<rparr>) s"
| takes: "ct_phase c = Taking e \<Longrightarrow> st_take st e now s = (b, s')
    \<Longrightarrow> lease_move st now c s (c\<lparr>ct_phase := Acquiring\<rparr>) s'"
| acquires: "ct_phase c = Acquiring \<Longrightarrow> st_try_acquire st (ct_token c) now s = (True, s')
    \<Longrightarrow> lease_move st now c s (on_acquired now c) s'"
| refused: "ct_phase c = Acquiring \<Longrightarrow> st_try_acquire st (ct_token c) now s = (False, s')
    \<Longrightarrow> lease_move st now c s (c\<lparr>ct_phase := Pausing\<rparr>) s'"
| busy: "statement_of st now c s \<noteq> None
    \<Longrightarrow> lease_move st now c s (c\<lparr>ct_phase := Pausing, ct_last_busy := Some now\<rparr>) s"
| fails: "statement_of st now c s = Some s1 \<Longrightarrow> s' \<in> {s, s1}
    \<Longrightarrow> lease_move st now c s (c\<lparr>ct_phase := Over\<rparr>) s'"
| interrupted: "statement_of st now c s = Some s1 \<Longrightarrow> s' \<in> {s, s1}
    \<Longrightarrow> lease_move st now c s (c\<lparr>ct_phase := Releasing\<rparr>) s'"
| gives_up: "ct_phase c = Pausing \<Longrightarrow> ct_deadline c \<le> now \<Longrightarrow> lease_move st now c s (c\<lparr>ct_phase := Over\<rparr>) s"
| sleeps: "ct_phase c = Pausing \<Longrightarrow> now < ct_deadline c
    \<Longrightarrow> lease_move st now c s (c\<lparr>ct_phase := Sleeping (sleep_until now c)\<rparr>) s"
| wakes: "ct_phase c = Sleeping t \<Longrightarrow> t \<le> now \<Longrightarrow> lease_move st now c s (c\<lparr>ct_phase := Trying\<rparr>) s"
| beats: "ct_beating c \<Longrightarrow> ct_next_beat c \<le> now \<Longrightarrow> st_refresh st (ct_token c) now s = (True, s')
    \<Longrightarrow> lease_move st now c s (c\<lparr>ct_last_alive := now, ct_next_beat := now + heartbeat_interval\<rparr>) s'"
| taken_over: "ct_beating c \<Longrightarrow> ct_next_beat c \<le> now \<Longrightarrow> st_refresh st (ct_token c) now s = (False, s')
    \<Longrightarrow> lease_move st now c s (c\<lparr>ct_lost := True, ct_beating := False\<rparr>) s'"
| beat_busy: "ct_beating c \<Longrightarrow> ct_next_beat c \<le> now
    \<Longrightarrow> lease_move st now c s (c\<lparr>ct_last_alive := now, ct_next_beat := now + busy_retry_delay\<rparr>) s"
| beat_fails: "ct_beating c \<Longrightarrow> ct_next_beat c \<le> now \<Longrightarrow> s' \<in> {s, snd (st_refresh st (ct_token c) now s)}
    \<Longrightarrow> lease_move st now c s
          (if LEASE_EXPIRY_SECONDS \<le> now - ct_last_alive c then c\<lparr>ct_lost := True, ct_beating := False\<rparr>
           else c\<lparr>ct_next_beat := now + heartbeat_interval\<rparr>) s'"
| lets_go: "ct_phase c = Holding \<Longrightarrow> lease_move st now c s (c\<lparr>ct_phase := Releasing\<rparr>) s"
| stops_beating: "ct_phase c \<in> {Releasing, Over} \<Longrightarrow> lease_move st now c s (c\<lparr>ct_beating := False\<rparr>) s"
| releases: "ct_phase c = Releasing \<Longrightarrow> s' \<in> {s, snd (st_release st (ct_token c) s)}
    \<Longrightarrow> lease_move st now c s (c\<lparr>ct_phase := Over\<rparr>) s'"
| dies: "lease_move st now c s (c\<lparr>ct_alive := False\<rparr>) s"

subsection \<open>All contenders\<close>

record ('s, 'e) lease_system =
  ly_store :: 's
  ly_now :: int
  ly_contenders :: "nat \<Rightarrow> 'e contender"
  ly_tokens :: "string list"

text \<open>A contender starts with a token that nobody has used; \<open>uuid4\<close> gives it.\<close>

inductive lease_step :: "('s, 'e) lease_store \<Rightarrow> ('s, 'e) lease_system \<Rightarrow> ('s, 'e) lease_system \<Rightarrow> bool"
  for st where
  starts: "ct_alive (ly_contenders y i) \<Longrightarrow> ct_phase (ly_contenders y i) = Idle \<Longrightarrow> token \<notin> set (ly_tokens y)
    \<Longrightarrow> starts_with token UNREFRESHED_TOKEN_PREFIX = (\<not> hb)
    \<Longrightarrow> lease_step st y (y\<lparr>ly_contenders := (ly_contenders y)(i := begin_acquire token hb timeout (ly_now y) (ly_contenders y i)),
          ly_tokens := token # ly_tokens y\<rparr>)"
| moves: "ct_alive (ly_contenders y i) \<Longrightarrow> lease_move st (ly_now y) (ly_contenders y i) (ly_store y) c s
    \<Longrightarrow> lease_step st y (y\<lparr>ly_contenders := (ly_contenders y)(i := c), ly_store := s\<rparr>)"
| time_passes: "0 \<le> t \<Longrightarrow> lease_step st y (y\<lparr>ly_now := ly_now y + t\<rparr>)"

text \<open>Runs along which every state before a step satisfies \<open>P\<close>.\<close>

inductive lease_runs ::
  "('s, 'e) lease_store \<Rightarrow> (('s, 'e) lease_system \<Rightarrow> bool) \<Rightarrow> ('s, 'e) lease_system \<Rightarrow> ('s, 'e) lease_system \<Rightarrow> bool"
  for st P where
  stay: "lease_runs st P y y"
| go_on: "lease_runs st P x y \<Longrightarrow> P y \<Longrightarrow> lease_step st y z \<Longrightarrow> lease_runs st P x z"

text \<open>The lease is held as the caller sees it: \<open>acquire\<close> has returned \<open>True\<close>, \<open>release\<close> has not begun.\<close>

definition holds_lease :: "('s, 'e) lease_system \<Rightarrow> nat \<Rightarrow> bool" where
  "holds_lease y i \<longleftrightarrow> ct_alive (ly_contenders y i) \<and> ct_phase (ly_contenders y i) = Holding"

subsection \<open>What a lease promises\<close>

text \<open>The lease as its users think of it: nobody's, or somebody's since a time. It is granted when it is
  free, renewed and freed for its owner alone, and taken from a holder only when its last renewal is older
  than the expiry of its token.\<close>

inductive lease_rule ::
  "(string \<Rightarrow> int) \<Rightarrow> string \<Rightarrow> int \<Rightarrow> (string \<times> int) option \<Rightarrow> (string \<times> int) option \<Rightarrow> bool"
  for expiry_of token now where
  keeps: "lease_rule expiry_of token now h h"
| grants: "lease_rule expiry_of token now None (Some (token, now))"
| renews: "lease_rule expiry_of token now (Some (token, a)) (Some (token, now))"
| frees: "lease_rule expiry_of token now (Some (token, a)) None"
| expires: "a + expiry_of t < now \<Longrightarrow> lease_rule expiry_of token now (Some (t, a)) None"

inductive_cases lease_rule_held_E: "lease_rule expiry_of token now (Some (t, a)) h"
inductive_cases lease_stepE: "lease_step st y z"

definition taking_valid :: "('e \<Rightarrow> int \<Rightarrow> bool) \<Rightarrow> int \<Rightarrow> 'e contender \<Rightarrow> bool" where
  "taking_valid valid now c = (case ct_phase c of Taking e \<Rightarrow> valid e now | _ \<Rightarrow> True)"

definition own_tokens :: "('s, 'e) lease_system \<Rightarrow> bool" where
  "own_tokens y \<longleftrightarrow>
     (\<forall>i. ct_phase (ly_contenders y i) \<noteq> Idle \<longrightarrow> ct_token (ly_contenders y i) \<in> set (ly_tokens y)) \<and>
     (\<forall>i j. ct_phase (ly_contenders y i) \<noteq> Idle \<longrightarrow> ct_phase (ly_contenders y j) \<noteq> Idle \<longrightarrow>
        ct_token (ly_contenders y i) = ct_token (ly_contenders y j) \<longrightarrow> i = j) \<and>
     (\<forall>i. ct_phase (ly_contenders y i) = Idle \<longrightarrow> \<not> ct_beating (ly_contenders y i))"

definition holds_row :: "('s \<Rightarrow> (string \<times> int) option) \<Rightarrow> 's \<Rightarrow> 'e contender \<Rightarrow> bool" where
  "holds_row holder s c \<longleftrightarrow> (ct_phase c = Holding \<longrightarrow> (\<exists>a. holder s = Some (ct_token c, a)))"

text \<open>Everybody is before \<open>acquire\<close>; then the lease is timely when the row of a live holder never gets older
  than its expiry, which is what the heartbeat is for.\<close>

definition lease_start :: "('s, 'e) lease_system \<Rightarrow> bool" where
  "lease_start y \<longleftrightarrow> (\<forall>i. ct_phase (ly_contenders y i) = Idle \<and> \<not> ct_beating (ly_contenders y i))"

definition timely :: "('s \<Rightarrow> (string \<times> int) option) \<Rightarrow> (string \<Rightarrow> int) \<Rightarrow> ('s, 'e) lease_system \<Rightarrow> bool" where
  "timely holder expiry_of y \<longleftrightarrow>
     (\<forall>i a. ct_phase (ly_contenders y i) = Holding \<longrightarrow> holder (ly_store y) = Some (ct_token (ly_contenders y i), a) \<longrightarrow>
        ly_now y \<le> a + expiry_of (ct_token (ly_contenders y i)))"

lemma move_keeps_token:
  assumes "lease_move st now c s c' s'"
  shows "ct_token c' = ct_token c \<and> (ct_phase c' = Idle \<longleftrightarrow> ct_phase c = Idle)"
  using assms by cases (auto simp: on_acquired_def split: lease_phase.splits if_splits)

lemma idle_move:
  assumes "lease_move st now c s c' s'" "ct_phase c = Idle" "\<not> ct_beating c"
  shows "s' = s \<and> \<not> ct_beating c'"
  using assms by cases auto

lemma move_to_taking:
  assumes "lease_move st now c s c' s'" "ct_phase c' = Taking e"
  shows "ct_phase c = Taking e \<or> st_look st now s = Some e"
  using assms by cases (auto simp: on_acquired_def split: if_splits)

lemma move_to_holding:
  assumes "lease_move st now c s c' s'" "ct_phase c' = Holding"
  shows "ct_phase c = Holding \<or> st_try_acquire st (ct_token c) now s = (True, s')"
  using assms by cases (auto simp: on_acquired_def split: if_splits)

lemma move_from_releasing:
  assumes "lease_move st now c s c' s'" "ct_phase c = Releasing"
  shows "ct_phase c' \<in> {Releasing, Over}"
  using assms by cases (auto split: if_splits)

locale lease_contract =
  fixes st :: "('s, 'e) lease_store"
    and holder :: "'s \<Rightarrow> (string \<times> int) option"
    and valid :: "'e \<Rightarrow> int \<Rightarrow> bool"
    and expiry_of :: "string \<Rightarrow> int"
    and wf :: "'s \<Rightarrow> bool"
  assumes acquired: "wf s \<Longrightarrow> st_try_acquire st t now s = (True, s') \<Longrightarrow>
      wf s' \<and> holder s = None \<and> holder s' = Some (t, now)"
    and not_acquired: "wf s \<Longrightarrow> st_try_acquire st t now s = (False, s') \<Longrightarrow> s' = s"
    and looked: "wf s \<Longrightarrow> st_look st now s = Some e \<Longrightarrow> valid e now"
    and stays_valid: "valid e now \<Longrightarrow> now \<le> now' \<Longrightarrow> valid e now'"
    and taken: "wf s \<Longrightarrow> valid e now \<Longrightarrow> st_take st e now s = (b, s') \<Longrightarrow>
      wf s' \<and> (holder s' = holder s \<or> (\<exists>t a. holder s = Some (t, a) \<and> a + expiry_of t < now \<and> holder s' = None))"
    and refreshed: "wf s \<Longrightarrow> st_refresh st t now s = (b, s') \<Longrightarrow>
      wf s' \<and> b = (\<exists>a. holder s = Some (t, a)) \<and> holder s' = (if b then Some (t, now) else holder s)"
    and released: "wf s \<Longrightarrow> st_release st t s = (b, s') \<Longrightarrow>
      wf s' \<and> b = (\<exists>a. holder s = Some (t, a)) \<and> holder s' = (if b then None else holder s)"
begin

lemma try_acquire_rule:
  assumes "wf s"
  shows "wf (snd (st_try_acquire st t now s)) \<and>
    lease_rule expiry_of t now (holder s) (holder (snd (st_try_acquire st t now s)))"
proof (cases "st_try_acquire st t now s")
  case (Pair b s')
  then show ?thesis
    using acquired [OF assms, of t now s'] not_acquired [OF assms, of t now s']
    by (cases b) (auto intro: assms lease_rule.intros)
qed

lemma take_rule:
  assumes "wf s" "valid e now"
  shows "wf (snd (st_take st e now s)) \<and>
    lease_rule expiry_of t now (holder s) (holder (snd (st_take st e now s)))"
  using taken [OF assms, of "fst (st_take st e now s)" "snd (st_take st e now s)"]
  by (auto intro: lease_rule.intros)

lemma refresh_rule:
  assumes "wf s"
  shows "wf (snd (st_refresh st t now s)) \<and>
    lease_rule expiry_of t now (holder s) (holder (snd (st_refresh st t now s)))"
  using refreshed [OF assms, of t now "fst (st_refresh st t now s)" "snd (st_refresh st t now s)"]
  by (auto intro: lease_rule.intros split: if_splits)

lemma release_rule:
  assumes "wf s"
  shows "wf (snd (st_release st t s)) \<and>
    lease_rule expiry_of t now (holder s) (holder (snd (st_release st t s)))"
  using released [OF assms, of t "fst (st_release st t s)" "snd (st_release st t s)"]
  by (auto intro: lease_rule.intros split: if_splits)

lemma statement_rule:
  assumes "wf s" "taking_valid valid now c" "statement_of st now c s = Some s1" "s' \<in> {s, s1}"
  shows "wf s' \<and> lease_rule expiry_of (ct_token c) now (holder s) (holder s')"
  using assms try_acquire_rule [OF assms(1), of "ct_token c" now] take_rule [OF assms(1), of _ now "ct_token c"]
  by (auto simp: taking_valid_def intro: lease_rule.keeps split: lease_phase.splits if_splits)

lemma move_rule:
  assumes "lease_move st now c s c' s'" "wf s" "taking_valid valid now c"
  shows "wf s' \<and> lease_rule expiry_of (ct_token c) now (holder s) (holder s')"
  using assms
proof cases
  case (takes e b)
  then show ?thesis
    using take_rule [OF assms(2), of e now "ct_token c"] assms(3) by (simp add: taking_valid_def)
next
  case (acquires)
  then show ?thesis using try_acquire_rule [OF assms(2), of "ct_token c" now] by simp
next
  case (refused)
  then show ?thesis using try_acquire_rule [OF assms(2), of "ct_token c" now] by simp
next
  case (beats)
  then show ?thesis using refresh_rule [OF assms(2), of "ct_token c" now] by simp
next
  case (taken_over)
  then show ?thesis using refresh_rule [OF assms(2), of "ct_token c" now] by simp
next
  case (beat_fails)
  then show ?thesis using refresh_rule [OF assms(2), of "ct_token c" now] assms(2) by (auto intro: lease_rule.keeps)
next
  case (releases)
  then show ?thesis using release_rule [OF assms(2), of "ct_token c" now] assms(2) by (auto intro: lease_rule.keeps)
next
  case (fails s1)
  show ?thesis by (rule statement_rule [OF assms(2,3) fails(2,3)])
next
  case (interrupted s1)
  show ?thesis by (rule statement_rule [OF assms(2,3) interrupted(2,3)])
qed (simp_all add: assms(2) lease_rule.keeps)

lemma own_move_keeps_row:
  assumes "lease_move st now c s c' s'" "wf s" "ct_phase c = Holding" "holder s = Some (ct_token c, a)"
  shows "\<exists>a'. holder s' = Some (ct_token c, a')"
proof -
  have refresh: "\<exists>a'. holder (snd (st_refresh st (ct_token c) now s)) = Some (ct_token c, a')"
    using refreshed [OF assms(2) surjective_pairing, of "ct_token c" now] assms(4) by (auto split: if_splits)
  show ?thesis
    using assms(1) assms(3,4) refresh by cases (auto split: if_splits)
qed

lemma other_move_keeps_row:
  assumes "lease_move st now c s c' s'" "wf s" "taking_valid valid now c" "ct_token c \<noteq> t"
    and "holder s = Some (t, a)" "now \<le> a + expiry_of t"
  shows "holder s' = Some (t, a)"
proof -
  have "lease_rule expiry_of (ct_token c) now (Some (t, a)) (holder s')"
    using move_rule [OF assms(1-3)] assms(5) by simp
  then show ?thesis by (rule lease_rule_held_E) (use assms(4,6) in auto)
qed

lemma move_keeps_taking_valid:
  assumes "lease_move st now c s c' s'" "wf s" "taking_valid valid now c"
  shows "taking_valid valid now c'"
  using assms(3) move_to_taking [OF assms(1)] looked [OF assms(2)]
  by (fastforce simp: taking_valid_def split: lease_phase.splits)

lemma own_move_holds_row:
  assumes "lease_move st now c s c' s'" "wf s" "holds_row holder s c"
  shows "holds_row holder s' c'"
proof -
  have "\<exists>a. holder s' = Some (ct_token c', a)" if "ct_phase c' = Holding"
    using move_to_holding [OF assms(1) that]
  proof
    assume "ct_phase c = Holding"
    then show ?thesis
      using own_move_keeps_row [OF assms(1,2)] assms(3) move_keeps_token [OF assms(1)] by (auto simp: holds_row_def)
  next
    assume "st_try_acquire st (ct_token c) now s = (True, s')"
    then show ?thesis using acquired [OF assms(2)] move_keeps_token [OF assms(1)] by auto
  qed
  then show ?thesis by (simp add: holds_row_def)
qed

definition lease_inv :: "('s, 'e) lease_system \<Rightarrow> bool" where
  "lease_inv y \<longleftrightarrow> wf (ly_store y) \<and> own_tokens y \<and>
     (\<forall>i. taking_valid valid (ly_now y) (ly_contenders y i) \<and> holds_row holder (ly_store y) (ly_contenders y i))"

lemma inv_starts:
  assumes "lease_inv y" "ct_phase (ly_contenders y i) = Idle" "token \<notin> set (ly_tokens y)"
  shows "lease_inv (y\<lparr>ly_contenders := (ly_contenders y)(i := begin_acquire token hb timeout (ly_now y) (ly_contenders y i)),
    ly_tokens := token # ly_tokens y\<rparr>)"
  using assms by (auto simp: lease_inv_def own_tokens_def taking_valid_def holds_row_def begin_acquire_def)

lemma inv_time:
  assumes "lease_inv y" "0 \<le> t"
  shows "lease_inv (y\<lparr>ly_now := ly_now y + t\<rparr>)"
  using assms stays_valid [of _ "ly_now y" "ly_now y + t"]
  by (auto simp: lease_inv_def own_tokens_def taking_valid_def split: lease_phase.splits)

lemma own_tokens_move:
  assumes "own_tokens y" "lease_move st (ly_now y) (ly_contenders y i) (ly_store y) c s"
  shows "own_tokens (y\<lparr>ly_contenders := (ly_contenders y)(i := c), ly_store := s\<rparr>)"
proof -
  let ?f = "(ly_contenders y)(i := c)"
  have same: "ct_token (?f j) = ct_token (ly_contenders y j) \<and> (ct_phase (?f j) = Idle \<longleftrightarrow> ct_phase (ly_contenders y j) = Idle)"
    for j using move_keeps_token [OF assms(2)] by simp
  have idle: "ct_phase (ly_contenders y j) = Idle \<Longrightarrow> \<not> ct_beating (?f j)" for j
    using assms(1) idle_move [OF assms(2)] by (auto simp: own_tokens_def)
  show ?thesis using assms(1) idle unfolding own_tokens_def by (simp add: same del: fun_upd_apply)
qed

lemma other_holds_row:
  assumes "lease_inv y" "timely holder expiry_of y" "j \<noteq> i"
    and "lease_move st (ly_now y) (ly_contenders y i) (ly_store y) c s"
  shows "holds_row holder s (ly_contenders y j)"
proof (cases "ct_phase (ly_contenders y i) = Idle")
  case True
  then have "s = ly_store y" using idle_move [OF assms(4)] assms(1) by (auto simp: lease_inv_def own_tokens_def)
  then show ?thesis using assms(1) by (simp add: lease_inv_def)
next
  case False
  let ?c = "ly_contenders y j"
  have "\<exists>a. holder s = Some (ct_token ?c, a)" if held: "ct_phase ?c = Holding"
  proof -
    obtain a where a: "holder (ly_store y) = Some (ct_token ?c, a)"
      using assms(1) held by (auto simp: lease_inv_def holds_row_def)
    have "ct_token (ly_contenders y i) \<noteq> ct_token ?c"
      using assms(1,3) False held by (auto simp: lease_inv_def own_tokens_def)
    then show ?thesis
      using other_move_keeps_row [OF assms(4) _ _ _ a] assms(1,2) held a by (auto simp: lease_inv_def timely_def)
  qed
  then show ?thesis by (simp add: holds_row_def)
qed

lemma inv_moves:
  assumes "lease_inv y" "timely holder expiry_of y"
    and "lease_move st (ly_now y) (ly_contenders y i) (ly_store y) c s"
  shows "lease_inv (y\<lparr>ly_contenders := (ly_contenders y)(i := c), ly_store := s\<rparr>)"
proof -
  have c: "wf (ly_store y)" "taking_valid valid (ly_now y) (ly_contenders y i)"
    "holds_row holder (ly_store y) (ly_contenders y i)" "own_tokens y"
    using assms(1) by (simp_all add: lease_inv_def)
  have "holds_row holder s (((ly_contenders y)(i := c)) j)" for j
    using other_holds_row [OF assms(1,2) _ assms(3)] own_move_holds_row [OF assms(3) c(1,3)] by simp
  moreover have "taking_valid valid (ly_now y) (((ly_contenders y)(i := c)) j)" for j
    using move_keeps_taking_valid [OF assms(3) c(1,2)] assms(1) by (simp add: lease_inv_def)
  ultimately show ?thesis
    using move_rule [OF assms(3) c(1,2)] own_tokens_move [OF c(4) assms(3)] unfolding lease_inv_def by simp
qed

lemma inv_step:
  assumes "lease_step st y z" "lease_inv y" "timely holder expiry_of y"
  shows "lease_inv z"
  using assms(1)
proof (rule lease_stepE)
qed (use assms(2,3) inv_starts inv_moves inv_time in auto)

lemma inv_start: "lease_start y \<Longrightarrow> wf (ly_store y) \<Longrightarrow> lease_inv y"
  by (simp add: lease_start_def lease_inv_def own_tokens_def taking_valid_def holds_row_def)

lemma inv_runs:
  assumes "lease_runs st (timely holder expiry_of) x y" "lease_inv x"
  shows "lease_inv y"
  using assms by (induction rule: lease_runs.induct) (auto intro: inv_step)

lemma one_holder:
  assumes "lease_inv y" "holds_lease y i" "holds_lease y j"
  shows "i = j"
proof -
  have row: "\<exists>a. holder (ly_store y) = Some (ct_token (ly_contenders y k), a)" if "holds_lease y k" for k
    using assms(1) that unfolding lease_inv_def holds_row_def holds_lease_def by blast
  have "ct_token (ly_contenders y i) = ct_token (ly_contenders y j)"
    using row [OF assms(2)] row [OF assms(3)] by auto
  then show ?thesis using assms by (auto simp: lease_inv_def own_tokens_def holds_lease_def)
qed

lemma mutual_exclusion:
  assumes "lease_start x" "wf (ly_store x)" "lease_runs st (timely holder expiry_of) x y"
    and "holds_lease y i" "holds_lease y j"
  shows "i = j"
  using one_holder [OF inv_runs [OF assms(3) inv_start [OF assms(1,2)]] assms(4,5)] .

text \<open>Whatever the timing, a step changes the lease only as its rule allows.\<close>

definition untimed_inv :: "('s, 'e) lease_system \<Rightarrow> bool" where
  "untimed_inv y \<longleftrightarrow> wf (ly_store y) \<and> (\<forall>i. taking_valid valid (ly_now y) (ly_contenders y i))"

lemma step_rule:
  assumes "lease_step st y z" "untimed_inv y"
  shows "untimed_inv z \<and> (\<exists>i. lease_rule expiry_of (ct_token (ly_contenders y i)) (ly_now y)
    (holder (ly_store y)) (holder (ly_store z)))"
  using assms(1)
proof (rule lease_stepE)
  fix i c s
  assume z: "z = y\<lparr>ly_contenders := (ly_contenders y)(i := c), ly_store := s\<rparr>"
    and move: "lease_move st (ly_now y) (ly_contenders y i) (ly_store y) c s"
  have c: "wf (ly_store y)" "taking_valid valid (ly_now y) (ly_contenders y i)"
    using assms(2) by (simp_all add: untimed_inv_def)
  show ?thesis
    using move_rule [OF move c] move_keeps_taking_valid [OF move c] assms(2)
    unfolding z untimed_inv_def by auto
next
  fix t :: int
  assume "z = y\<lparr>ly_now := ly_now y + t\<rparr>" "0 \<le> t"
  then show ?thesis
    using assms(2) stays_valid [of _ "ly_now y" "ly_now y + t"]
    by (auto simp: untimed_inv_def taking_valid_def intro: lease_rule.keeps split: lease_phase.splits)
qed (use assms(2) in \<open>auto simp: untimed_inv_def taking_valid_def begin_acquire_def intro: lease_rule.keeps\<close>)

lemma untimed_runs:
  assumes "lease_runs st P x y" "untimed_inv x"
  shows "untimed_inv y"
  using assms by (induction rule: lease_runs.induct) (auto dest: step_rule)

lemma untimed_start: "lease_start y \<Longrightarrow> wf (ly_store y) \<Longrightarrow> untimed_inv y"
  by (simp add: lease_start_def untimed_inv_def taking_valid_def)

lemma runs_follow_rule:
  assumes "lease_start x" "wf (ly_store x)" "lease_runs st P x y" "lease_step st y z"
  shows "\<exists>i. lease_rule expiry_of (ct_token (ly_contenders y i)) (ly_now y) (holder (ly_store y)) (holder (ly_store z))"
  using step_rule [OF assms(4) untimed_runs [OF assms(3) untimed_start [OF assms(1,2)]]] by simp

end

subsection \<open>The lock table keeps the promise\<close>

text \<open>The primary key, or the seeded row, gives a lock at most one row.\<close>

definition row_holder :: "lease_row list \<Rightarrow> (string \<times> int) option" where
  "row_holder rows =
     (case rows of [r] \<Rightarrow> (case lr_owner r of Some t \<Rightarrow> Some (t, lr_stamp r) | None \<Rightarrow> None) | _ \<Rightarrow> None)"

definition at_most_one_row :: "lease_row list \<Rightarrow> bool" where
  "at_most_one_row rows \<longleftrightarrow> length rows \<le> 1"

definition token_expiry :: "string \<Rightarrow> int" where
  "token_expiry t = (if starts_with t UNREFRESHED_TOKEN_PREFIX then LEGACY_LEASE_EXPIRY_SECONDS else LEASE_EXPIRY_SECONDS)"

lemma at_most_one_row_cases:
  assumes "at_most_one_row rows"
  obtains "rows = []" | r where "rows = [r]"
  using assms by (cases rows) (auto simp: at_most_one_row_def)

lemma sql_try_acquire_answers:
  assumes "at_most_one_row rows" "sql_try_acquire d t now rows = (b, rows')"
  shows "at_most_one_row rows' \<and> (if b then row_holder rows = None \<and> row_holder rows' = Some (t, now) else rows' = rows)"
  using assms(1) by (rule at_most_one_row_cases)
    (use assms(2) in \<open>auto simp: sql_try_acquire_def row_holder_def at_most_one_row_def split: if_splits\<close>)

lemma free_rows_answers:
  assumes "at_most_one_row rows" "free_rows d P rows = (b, rows')"
  shows "at_most_one_row rows' \<and> b = (\<exists>r. rows = [r] \<and> P r) \<and> (if b then row_holder rows' = None else rows' = rows)"
  using assms(1) by (rule at_most_one_row_cases)
    (use assms(2) in \<open>auto simp: free_rows_def row_holder_def at_most_one_row_def split: if_splits\<close>)

lemma row_holder_eq_Some: "row_holder rows = Some (t, a) \<longleftrightarrow> (\<exists>r. rows = [r] \<and> lr_owner r = Some t \<and> lr_stamp r = a)"
  by (auto simp: row_holder_def split: list.splits option.splits)

lemma reclaimable_expired:
  "reclaimable d LEASE_EXPIRY_SECONDS now r \<Longrightarrow> lr_owner r = Some t \<Longrightarrow> lr_stamp r + token_expiry t < now"
  by (auto simp: reclaimable_def token_expiry_def split: if_splits)

lemma sql_reclaim_takes_expired:
  assumes "at_most_one_row rows" "sql_reclaim_expired d LEASE_EXPIRY_SECONDS now rows = (b, rows')"
  shows "at_most_one_row rows' \<and> (row_holder rows' = row_holder rows \<or>
    (\<exists>t a. row_holder rows = Some (t, a) \<and> a + token_expiry t < now \<and> row_holder rows' = None))"
proof -
  note free = free_rows_answers [OF assms(1) assms(2) [unfolded sql_reclaim_expired_def]]
  show ?thesis
  proof (cases "row_holder rows")
    case None
    then show ?thesis using free by (cases b) auto
  next
    case (Some h)
    then show ?thesis using free reclaimable_expired by (cases h; cases b) (auto simp: row_holder_eq_Some)
  qed
qed

lemma sql_refresh_answers:
  assumes "at_most_one_row rows" "sql_refresh t now rows = (b, rows')"
  shows "at_most_one_row rows' \<and> b = (\<exists>a. row_holder rows = Some (t, a)) \<and>
    row_holder rows' = (if b then Some (t, now) else row_holder rows)"
  using assms(1) by (rule at_most_one_row_cases)
    (use assms(2) in \<open>auto simp: sql_refresh_def row_holder_def at_most_one_row_def split: option.splits\<close>)

lemma sql_release_answers:
  assumes "at_most_one_row rows" "sql_release d t rows = (b, rows')"
  shows "at_most_one_row rows' \<and> b = (\<exists>a. row_holder rows = Some (t, a)) \<and>
    row_holder rows' = (if b then None else row_holder rows)"
  using free_rows_answers [OF assms(1) assms(2) [unfolded sql_release_def]]
  by (auto simp: row_holder_eq_Some)

lemmas sql_store_answers = sql_try_acquire_answers sql_reclaim_takes_expired sql_refresh_answers sql_release_answers

interpretation sql_lease: lease_contract "sql_store d" row_holder "\<lambda>e now. True" token_expiry at_most_one_row
  apply unfold_locales
  subgoal using sql_try_acquire_answers by (fastforce simp: sql_store_def)
  subgoal using sql_try_acquire_answers by (fastforce simp: sql_store_def)
  subgoal by simp
  subgoal by simp
  subgoal by (simp add: sql_store_def sql_reclaim_takes_expired)
  subgoal by (simp only: sql_store_def lease_store.simps) (rule sql_refresh_answers)
  subgoal by (simp only: sql_store_def lease_store.simps) (rule sql_release_answers)
  done

subsection \<open>The lease document keeps the promise\<close>

text \<open>A document written by a lease has a timestamp that can be read. The evidence of an expired lease is the
  timestamp that was seen: whoever renews or replaces the document changes it.\<close>

definition document_holder :: "lease_document option \<Rightarrow> (string \<times> int) option" where
  "document_holder s =
     (case s of None \<Rightarrow> None
      | Some doc \<Rightarrow> (case ld_acquired doc of None \<Rightarrow> None | Some a \<Rightarrow> Some (ld_owner doc, a)))"

definition dated :: "lease_document option \<Rightarrow> bool" where
  "dated s = (case s of None \<Rightarrow> True | Some doc \<Rightarrow> ld_acquired doc \<noteq> None)"

definition seen_expired :: "int option \<Rightarrow> int \<Rightarrow> bool" where
  "seen_expired seen now = (case seen of None \<Rightarrow> False | Some a \<Rightarrow> a + LEASE_EXPIRY_SECONDS < now)"

lemmas mongo_defs = mongo_store_def mongo_try_acquire_def mongo_look_def mongo_take_def mongo_refresh_def mongo_release_def
  is_expired_def document_holder_def dated_def seen_expired_def

lemma dated_cases:
  assumes "dated s"
  obtains "s = None" | t a where "s = Some \<lparr>ld_owner = t, ld_acquired = Some a\<rparr>"
  using assms by (cases s; cases "the s") (auto simp: dated_def)

interpretation mongo_lease: lease_contract mongo_store document_holder seen_expired "\<lambda>_. LEASE_EXPIRY_SECONDS" dated
  apply unfold_locales
  subgoal by (erule dated_cases) (auto simp: mongo_defs)
  subgoal by (erule dated_cases) (auto simp: mongo_defs)
  subgoal by (erule dated_cases) (auto simp: mongo_defs split: if_splits)
  subgoal by (auto simp: seen_expired_def split: option.splits)
  subgoal by (erule dated_cases) (auto simp: mongo_defs split: if_splits option.splits)
  subgoal by (erule dated_cases) (auto simp: mongo_defs split: if_splits)
  subgoal by (erule dated_cases) (auto simp: mongo_defs split: if_splits)
  done

subsection \<open>Taking the lease\<close>

lemma move_run:
  assumes "lease_runs st P x y" "P y" "ct_alive (ly_contenders y i)"
    and "lease_move st (ly_now y) (ly_contenders y i) (ly_store y) c s"
  shows "lease_runs st P x (y\<lparr>ly_contenders := (ly_contenders y)(i := c), ly_store := s\<rparr>)"
  using assms(1,2) by (rule lease_runs.go_on) (rule lease_step.moves [OF assms(3,4)])

lemma start_run:
  assumes "lease_runs st P x y" "P y" "ct_alive (ly_contenders y i)" "ct_phase (ly_contenders y i) = Idle"
    and "token \<notin> set (ly_tokens y)" "starts_with token UNREFRESHED_TOKEN_PREFIX = (\<not> hb)"
  shows "lease_runs st P x (y\<lparr>ly_contenders := (ly_contenders y)(i := begin_acquire token hb timeout (ly_now y) (ly_contenders y i)),
    ly_tokens := token # ly_tokens y\<rparr>)"
  using assms(1,2) by (rule lease_runs.go_on) (rule lease_step.starts [OF assms(3-6)])

lemma acquires_freed_row:
  assumes "reclaimable d LEASE_EXPIRY_SECONDS now r" "sql_reclaim_expired d LEASE_EXPIRY_SECONDS now [r] = (b, rows)"
  shows "\<exists>rows'. sql_try_acquire d t now rows = (True, rows') \<and> row_holder rows' = Some (t, now)"
  using assms by (auto simp: sql_reclaim_expired_def free_rows_def sql_try_acquire_def row_holder_def split: if_splits)

definition waits_for_lease :: "('s, 'e) lease_system \<Rightarrow> nat \<Rightarrow> bool" where
  "waits_for_lease y i \<longleftrightarrow>
     (let c = ly_contenders y i
      in ct_alive c \<and> ct_phase c = Trying \<and> \<not> ct_first_attempt c \<and> may_reclaim (ly_now y) c)"

definition idle_contender :: "'e contender" where
  "idle_contender =
     \<lparr>ct_phase = Idle, ct_token = [], ct_heartbeat = True, ct_deadline = 0, ct_last_busy = None, ct_first_attempt = True,
      ct_lost = False, ct_beating = False, ct_last_alive = 0, ct_next_beat = 0, ct_alive = True\<rparr>"

definition lease_example :: "'s \<Rightarrow> ('s, 'e) lease_system" where
  "lease_example s = \<lparr>ly_store = s, ly_now = 0, ly_contenders = (\<lambda>_. idle_contender), ly_tokens = []\<rparr>"

lemmas lease_example_defs = lease_example_def idle_contender_def begin_acquire_def on_acquired_def

lemma example_run:
  assumes "st_try_acquire st ''t'' 0 s = (True, s')" "\<And>y. \<forall>i. ct_phase (ly_contenders y i) \<noteq> Holding \<Longrightarrow> P y"
  shows "\<exists>y z. lease_runs st P (lease_example s) y \<and> P y \<and> lease_step st y z \<and> holds_lease z 0"
proof -
  let ?x = "lease_example s :: ('a, 'b) lease_system"
  let ?c0 = "begin_acquire ''t'' True 0 0 (ly_contenders ?x 0)"
  let ?c1 = "?c0\<lparr>ct_phase := Acquiring, ct_first_attempt := False\<rparr>"
  let ?y0 = "?x\<lparr>ly_contenders := (ly_contenders ?x)(0 := ?c0), ly_tokens := [''t'']\<rparr>"
  let ?y1 = "?y0\<lparr>ly_contenders := (ly_contenders ?y0)(0 := ?c1), ly_store := s\<rparr>"
  let ?y2 = "?y1\<lparr>ly_contenders := (ly_contenders ?y1)(0 := on_acquired 0 ?c1), ly_store := s'\<rparr>"
  have P: "P ?x" "P ?y0" "P ?y1" by (rule assms(2), simp add: lease_example_defs)+
  have x: "lease_runs st P ?x ?x" by (rule lease_runs.stay)
  have "lease_step st ?x ?y0"
    using lease_step.starts [of ?x 0 "''t''" True st 0]
    by (simp add: lease_example_defs UNREFRESHED_TOKEN_PREFIX_def)
  then have "lease_runs st P ?x ?y0" by (rule lease_runs.go_on [OF x P(1)])
  moreover have "lease_move st 0 ?c0 s ?c1 s"
    by (rule lease_move.no_look) (simp_all add: lease_example_defs)
  then have "lease_step st ?y0 ?y1"
    using lease_step.moves [of ?y0 0 st ?c1 s] by (simp add: lease_example_defs)
  ultimately have "lease_runs st P ?x ?y1" using P(2) lease_runs.go_on by blast
  moreover have "lease_move st 0 ?c1 s (on_acquired 0 ?c1) s'"
    by (rule lease_move.acquires) (simp_all add: lease_example_defs assms(1))
  then have "lease_step st ?y1 ?y2"
    using lease_step.moves [of ?y1 0 st "on_acquired 0 ?c1" s'] by (simp add: lease_example_defs)
  ultimately show ?thesis using P(3) by (intro exI [of _ ?y1] exI [of _ ?y2]) (simp add: holds_lease_def lease_example_defs)
qed

lemma lease_start_example: "lease_start (lease_example s)"
  by (simp add: lease_start_def lease_example_defs)

lemma timely_nobody: "\<forall>i. ct_phase (ly_contenders y i) \<noteq> Holding \<Longrightarrow> timely h e y"
  by (simp add: timely_def)

subsection \<open>Properties\<close>

text \<open>C38. Expired leases come free: a waiter that has seen no busy store for a lease window, and is not in its
  first attempt, can take the lock from a row whose last renewal is older than its expiry; it then holds the
  lock with a fresh row.\<close>

theorem expired_lease_is_taken:
  assumes "waits_for_lease y i" "ly_store y = [r]" "reclaimable d LEASE_EXPIRY_SECONDS (ly_now y) r"
  shows "\<exists>z. lease_runs (sql_store d) (\<lambda>_. True) y z \<and> holds_lease z i \<and>
    row_holder (ly_store z) = Some (ct_token (ly_contenders y i), ly_now y)"
proof -
  let ?c = "ly_contenders y i" and ?st = "sql_store d" and ?now = "ly_now y"
  obtain b rows where freed: "sql_reclaim_expired d LEASE_EXPIRY_SECONDS ?now [r] = (b, rows)" by fastforce
  then obtain rows' where got: "sql_try_acquire d (ct_token ?c) ?now rows = (True, rows')"
    and held: "row_holder rows' = Some (ct_token ?c, ?now)"
    using acquires_freed_row [OF assms(3)] by metis
  let ?c1 = "?c\<lparr>ct_phase := Taking ()\<rparr>" and ?c2 = "?c\<lparr>ct_phase := Acquiring\<rparr>"
  let ?y1 = "y\<lparr>ly_contenders := (ly_contenders y)(i := ?c1), ly_store := [r]\<rparr>"
  let ?y2 = "y\<lparr>ly_contenders := (ly_contenders y)(i := ?c2), ly_store := rows\<rparr>"
  let ?y3 = "y\<lparr>ly_contenders := (ly_contenders y)(i := on_acquired ?now ?c2), ly_store := rows'\<rparr>"
  have c: "ct_alive ?c" "ct_phase ?c = Trying" "\<not> ct_first_attempt ?c" "may_reclaim ?now ?c"
    using assms(1) by (simp_all add: waits_for_lease_def Let_def)
  have "lease_move ?st ?now ?c [r] ?c1 [r]"
    using c by (intro lease_move.expired_seen) (simp_all add: sql_store_def)
  then have "lease_runs ?st (\<lambda>_. True) y ?y1"
    using move_run [OF lease_runs.stay TrueI c(1), of ?st ?c1 "[r]"] assms(2) by simp
  moreover have "lease_move ?st ?now ?c1 [r] ?c2 rows"
    using lease_move.takes [of ?c1 "()" ?st ?now "[r]" b rows] freed by (simp add: sql_store_def)
  ultimately have "lease_runs ?st (\<lambda>_. True) y ?y2"
    using move_run [of ?st "\<lambda>_. True" y ?y1 i ?c2 rows] c(1) assms(2) by simp
  moreover have "lease_move ?st ?now ?c2 rows (on_acquired ?now ?c2) rows'"
    using lease_move.acquires [of ?c2 ?st ?now rows rows'] got by (simp add: sql_store_def)
  ultimately have "lease_runs ?st (\<lambda>_. True) y ?y3"
    using move_run [of ?st "\<lambda>_. True" y ?y2 i "on_acquired ?now ?c2" rows'] c(1) by simp
  then show ?thesis using held c(1) by (intro exI [of _ ?y3]) (simp add: holds_lease_def on_acquired_def)
qed

definition orphaned_lease :: "(lease_row list, unit) lease_system" where
  "orphaned_lease =
     (lease_example [\<lparr>lr_owner = Some ''a'', lr_stamp = - 40000\<rparr>])\<lparr>ly_contenders := (\<lambda>_. idle_contender)
       (0 := idle_contender\<lparr>ct_phase := Trying, ct_token := ''b'', ct_first_attempt := False\<rparr>)\<rparr>"

theorem expired_lease_is_taken_witness:
  "\<exists>z. lease_runs (sql_store \<lparr>sd_seeded_row = False, sd_legacy_now = None\<rparr>) (\<lambda>_. True) orphaned_lease z \<and>
    holds_lease z 0 \<and> row_holder (ly_store z) = Some (''b'', 0)"
  using expired_lease_is_taken [of orphaned_lease 0 "\<lparr>lr_owner = Some ''a'', lr_stamp = - 40000\<rparr>"
    "\<lparr>sd_seeded_row = False, sd_legacy_now = None\<rparr>"]
  by (simp add: orphaned_lease_def lease_example_defs waits_for_lease_def may_reclaim_def reclaimable_def
    UNREFRESHED_TOKEN_PREFIX_def LEASE_EXPIRY_SECONDS_def)

text \<open>C34. Mutual exclusion in the lock table: from a start where nobody holds the lock, along any
  interleaving of the contenders' statements, failures, deaths and time in which no row of a holder gets
  older than its expiry, two contenders that hold the lock are the same one.\<close>

theorem lease_mutual_exclusion:
  assumes "lease_start x" "length (ly_store x) \<le> 1"
    and "lease_runs (sql_store d) (timely row_holder token_expiry) x y"
    and "holds_lease y i" "holds_lease y j"
  shows "i = j"
  using sql_lease.mutual_exclusion [OF assms(1) _ assms(3-5)] assms(2) by (simp add: at_most_one_row_def)

theorem lease_mutual_exclusion_witness:
  "\<exists>y. holds_lease (y :: (lease_row list, unit) lease_system) 0 \<and> (\<forall>j. holds_lease y j \<longrightarrow> j = 0)"
proof -
  let ?st = "sql_store \<lparr>sd_seeded_row = False, sd_legacy_now = None\<rparr>" and ?P = "timely row_holder token_expiry"
  have "\<exists>y z. lease_runs ?st ?P (lease_example []) y \<and> ?P y \<and> lease_step ?st y z \<and> holds_lease z 0"
    by (rule example_run [OF _ timely_nobody]) (simp_all add: sql_store_def sql_try_acquire_def)
  then obtain y where y: "lease_runs ?st ?P (lease_example []) y" "holds_lease y 0"
    using lease_runs.go_on by blast
  have "j = 0" if "holds_lease y j" for j
    by (rule lease_mutual_exclusion [OF lease_start_example _ y(1) that y(2)]) (simp add: lease_example_def)
  then show ?thesis using y(2) by blast
qed

text \<open>C35. Mutual exclusion with a lease document, under the same condition.\<close>

theorem document_mutual_exclusion:
  assumes "lease_start x" "dated (ly_store x)"
    and "lease_runs mongo_store (timely document_holder (\<lambda>_. LEASE_EXPIRY_SECONDS)) x y"
    and "holds_lease y i" "holds_lease y j"
  shows "i = j"
  by (rule mongo_lease.mutual_exclusion [OF assms])

theorem document_mutual_exclusion_witness:
  "\<exists>y. holds_lease (y :: (lease_document option, int option) lease_system) 0 \<and> (\<forall>j. holds_lease y j \<longrightarrow> j = 0)"
proof -
  let ?P = "timely document_holder (\<lambda>_. LEASE_EXPIRY_SECONDS)"
  have "\<exists>y z. lease_runs mongo_store ?P (lease_example None) y \<and> ?P y \<and> lease_step mongo_store y z \<and> holds_lease z 0"
    by (rule example_run [OF _ timely_nobody]) (simp_all add: mongo_store_def mongo_try_acquire_def)
  then obtain y where y: "lease_runs mongo_store ?P (lease_example None) y" "holds_lease y 0"
    using lease_runs.go_on by blast
  have "j = 0" if "holds_lease y j" for j
    by (rule document_mutual_exclusion [OF lease_start_example _ y(1) that y(2)]) (simp add: lease_example_def dated_def)
  then show ?thesis using y(2) by blast
qed

text \<open>C36. The lease in the lock table follows its abstract rule whatever the timing: every step keeps it,
  grants it while it is free, renews or frees it for the contender whose token it carries, or takes it from a
  holder whose last renewal is older than the expiry of its token; so a contender whose lease was taken can
  neither renew nor remove the lease of its successor.\<close>

theorem lease_table_refines_rule:
  assumes "lease_start x" "length (ly_store x) \<le> 1" "lease_runs (sql_store d) (\<lambda>_. True) x y"
    and "lease_step (sql_store d) y z"
  shows "\<exists>i. lease_rule token_expiry (ct_token (ly_contenders y i)) (ly_now y) (row_holder (ly_store y)) (row_holder (ly_store z))"
  using sql_lease.runs_follow_rule [OF assms(1) _ assms(3,4)] assms(2) by (simp add: at_most_one_row_def)

theorem lease_table_refines_rule_witness:
  "\<exists>y z i. lease_step (sql_store \<lparr>sd_seeded_row = False, sd_legacy_now = None\<rparr>) y z \<and> holds_lease z 0 \<and>
    lease_rule token_expiry (ct_token (ly_contenders y i)) (ly_now y) (row_holder (ly_store y)) (row_holder (ly_store z))"
proof -
  let ?st = "sql_store \<lparr>sd_seeded_row = False, sd_legacy_now = None\<rparr>"
  have "\<exists>y z. lease_runs ?st (\<lambda>_. True) (lease_example []) y \<and> True \<and> lease_step ?st y z \<and> holds_lease z 0"
    by (rule example_run) (simp_all add: sql_store_def sql_try_acquire_def)
  then obtain y z where y: "lease_runs ?st (\<lambda>_. True) (lease_example []) y" "lease_step ?st y z" "holds_lease z 0" by blast
  have "length (ly_store (lease_example [])) \<le> 1" by (simp add: lease_example_def)
  then show ?thesis using lease_table_refines_rule [OF lease_start_example _ y(1,2)] y(2,3) by blast
qed

text \<open>C37. The lease document follows the rule as well, although the look at it and its removal are two
  statements: the removal names the timestamp that was seen, and the document of a successor has another.\<close>

theorem lease_document_refines_rule:
  assumes "lease_start x" "dated (ly_store x)" "lease_runs mongo_store (\<lambda>_. True) x y" "lease_step mongo_store y z"
  shows "\<exists>i. lease_rule (\<lambda>_. LEASE_EXPIRY_SECONDS) (ct_token (ly_contenders y i)) (ly_now y)
    (document_holder (ly_store y)) (document_holder (ly_store z))"
  by (rule mongo_lease.runs_follow_rule [OF assms])

theorem lease_document_refines_rule_witness:
  "\<exists>y z i. lease_step mongo_store y z \<and> holds_lease z 0 \<and> lease_rule (\<lambda>_. LEASE_EXPIRY_SECONDS)
    (ct_token (ly_contenders y i)) (ly_now y) (document_holder (ly_store y)) (document_holder (ly_store z))"
proof -
  have "\<exists>y z. lease_runs mongo_store (\<lambda>_. True) (lease_example None) y \<and> True \<and> lease_step mongo_store y z \<and> holds_lease z 0"
    by (rule example_run) (simp_all add: mongo_store_def mongo_try_acquire_def)
  then obtain y z where y: "lease_runs mongo_store (\<lambda>_. True) (lease_example None) y" "lease_step mongo_store y z"
    "holds_lease z 0" by blast
  have "dated (ly_store (lease_example None :: (lease_document option, int option) lease_system))"
    by (simp add: lease_example_def dated_def)
  then show ?thesis using lease_document_refines_rule [OF lease_start_example _ y(1,2)] y(2,3) by blast
qed

end
