(* ===== verification/RepairHistory.thy ===== *)
theory RepairHistory
  imports Plans
begin

text \<open>
  What a repair does to the rows of the history table: the update of \<open>repair_migration_history\<close> and the
  delete of \<open>delete_failed_migration_entry\<close> (\<open>db/plugins/base_history_manager.py\<close>), the marker row of
  \<open>delete_marker\<close> as it is read back, and the loop of \<open>commands/repair_command.py\<close> over the planned
  actions. A repair that succeeds settles the history: planned again, it has nothing to remove and nothing
  to mark.
\<close>

subsection \<open>The statements\<close>

text \<open>\<open>success_value=True\<close> is what \<open>repair_checksum\<close> passes.\<close>

definition realign_row :: "string \<Rightarrow> int \<Rightarrow> migration \<Rightarrow> migration" where
  "realign_row name k r = (if script_name r = name then r\<lparr>checksum := Some k, success := VBool True\<rparr> else r)"

definition repair_migration_history :: "string \<Rightarrow> int \<Rightarrow> migration list \<Rightarrow> bool \<times> migration list" where
  "repair_migration_history name k rows =
     (list_ex (\<lambda>r. script_name r = name) rows, map (realign_row name k) rows)"

definition delete_failed_migration_entry :: "string \<Rightarrow> migration list \<Rightarrow> nat \<times> migration list" where
  "delete_failed_migration_entry name rows =
     (length (filter (\<lambda>r. script_name r = name \<and> success r = VBool False) rows),
      filter (\<lambda>r. \<not> (script_name r = name \<and> success r = VBool False)) rows)"

text \<open>A recorded marker as it is read back: the database gives its rank.\<close>

definition read_back :: "int \<Rightarrow> migration \<Rightarrow> migration" where
  "read_back rank m = m\<lparr>content := [], checksum := norm_checksum (checksum m), success := VBool True, installed_rank := Some rank\<rparr>"

subsection \<open>The actions\<close>

definition original_type_name :: "repair_details \<Rightarrow> string" where
  "original_type_name d =
     (case rd_original_type d of
        Some t \<Rightarrow> type_name t
      | None \<Rightarrow> if starts_with (rd_script d) ''V'' then type_name SQL
                else if starts_with (rd_script d) ''R'' then type_name REPEATABLE
                else if starts_with (rd_script d) ''U'' then type_name UNDO_SQL else type_name SQL)"

definition delete_reason :: "repair_details \<Rightarrow> string" where
  "delete_reason d = (if truthy (rd_description d) then the (rd_description d) else ''Marked as deleted via repair command'')"

text \<open>One action on the rows; \<open>None\<close> when it raises. The rank of a new row is a function of the rows.\<close>

definition repair_rows_by :: "(migration list \<Rightarrow> int) \<Rightarrow> repair_action \<Rightarrow> migration list \<Rightarrow> migration list option" where
  "repair_rows_by rank a rows =
     (let d = ra_details a in
      case ra_kind a of
        CHECKSUM_MISMATCH \<Rightarrow>
          (case rd_new_checksum d of
             None \<Rightarrow> None
           | Some k \<Rightarrow> (case repair_migration_history (rd_script d) k rows of (updated, rows') \<Rightarrow> if updated then Some rows' else None))
      | MISSING_SCRIPT \<Rightarrow>
          (case delete_marker (rd_script d) (rd_version d) (delete_reason d) (original_type_name d) of
             Inl e \<Rightarrow> None | Inr m \<Rightarrow> Some (rows @ [read_back (rank rows) m]))
      | FAILED_MIGRATION \<Rightarrow> Some (snd (delete_failed_migration_entry (rd_script d) rows)))"

fun repair_rows_all :: "(migration list \<Rightarrow> int) \<Rightarrow> repair_action list \<Rightarrow> migration list \<Rightarrow> migration list option" where
  "repair_rows_all rank [] rows = Some rows"
| "repair_rows_all rank (a # as) rows =
     (case repair_rows_by rank a rows of None \<Rightarrow> None | Some rows' \<Rightarrow> repair_rows_all rank as rows')"

subsection \<open>What stays of a row\<close>

text \<open>The rows that count: no delete markers, and successful. What the actions do to one of them.\<close>

definition live :: "migration list \<Rightarrow> migration list" where
  "live rows = filter (\<lambda>r. mtype r \<noteq> DELETE \<and> succeeded r) rows"

text \<open>Rows as the history table has them: named, ranked, with a boolean outcome that is never null; a delete
  marker is only recorded as a success.\<close>

definition stored_history :: "migration list \<Rightarrow> bool" where
  "stored_history rows \<longleftrightarrow>
     list_all (\<lambda>r. script_name r \<noteq> [] \<and> installed_rank r \<noteq> None
       \<and> (success r = VBool True \<or> success r = VBool False \<and> mtype r \<noteq> DELETE)) rows"

fun realigned :: "repair_action list \<Rightarrow> migration \<Rightarrow> migration" where
  "realigned [] r = r"
| "realigned (a # as) r =
     realigned as (case rd_new_checksum (ra_details a) of
       Some k \<Rightarrow> if ra_kind a = CHECKSUM_MISMATCH then realign_row (rd_script (ra_details a)) k r else r
     | None \<Rightarrow> r)"

definition failed_name :: "migration list \<Rightarrow> string \<Rightarrow> bool" where
  "failed_name rows n \<longleftrightarrow> list_ex (\<lambda>r. script_name r = n \<and> mtype r \<noteq> DELETE \<and> success r = VBool False) rows"

definition realigns :: "repair_action list \<Rightarrow> string \<Rightarrow> bool" where
  "realigns as n \<longleftrightarrow> list_ex (\<lambda>a. ra_kind a = CHECKSUM_MISMATCH \<and> rd_script (ra_details a) = n) as"

lemma realign_row_fields [simp]:
  "script_name (realign_row n k r) = script_name r" "version (realign_row n k r) = version r"
  "mtype (realign_row n k r) = mtype r" "installed_rank (realign_row n k r) = installed_rank r"
  "resolved (realign_row n k r) = resolved r"
  by (simp_all add: realign_row_def)

lemma realigned_fields [simp]:
  "script_name (realigned as r) = script_name r" "version (realigned as r) = version r"
  "mtype (realigned as r) = mtype r" "installed_rank (realigned as r) = installed_rank r"
  by (induction as arbitrary: r) (auto split: option.split)

lemma realigned_success: "success r = VBool True \<Longrightarrow> success (realigned as r) = VBool True"
  by (induction as arbitrary: r) (auto simp: realign_row_def split: option.split)

lemma not_realigned: "\<not> realigns as (script_name r) \<Longrightarrow> realigned as r = r"
  by (induction as arbitrary: r) (auto simp: realigns_def realign_row_def split: option.split)

lemma delete_marker_fields:
  assumes "delete_marker n v d t = Inr m"
  shows "script_name m = n" "mtype m = DELETE" "n \<noteq> []"
  using assms new_migration_fields new_migration_type(1) unfolding delete_marker_def Let_def by blast+

text \<open>The three cases of a step that did not raise.\<close>

lemma repair_step_cases:
  assumes "repair_rows_by rank a rows = Some rows'"
  obtains (realign) k where "ra_kind a = CHECKSUM_MISMATCH" "rd_new_checksum (ra_details a) = Some k"
      "rows' = map (realign_row (rd_script (ra_details a)) k) rows"
    | (mark) m where "ra_kind a = MISSING_SCRIPT" "rows' = rows @ [read_back (rank rows) m]"
      "script_name m = rd_script (ra_details a)" "mtype m = DELETE" "script_name m \<noteq> []"
    | (remove) "ra_kind a = FAILED_MIGRATION"
      "rows' = filter (\<lambda>r. \<not> (script_name r = rd_script (ra_details a) \<and> success r = VBool False)) rows"
  using assms
proof (cases "ra_kind a")
  case CHECKSUM_MISMATCH
  then obtain k where "rd_new_checksum (ra_details a) = Some k" "rows' = map (realign_row (rd_script (ra_details a)) k) rows"
    using assms by (auto simp: repair_rows_by_def Let_def repair_migration_history_def split: option.splits if_splits)
  with CHECKSUM_MISMATCH show ?thesis by (rule realign)
next
  case MISSING_SCRIPT
  then obtain m where m: "delete_marker (rd_script (ra_details a)) (rd_version (ra_details a))
      (delete_reason (ra_details a)) (original_type_name (ra_details a)) = Inr m" "rows' = rows @ [read_back (rank rows) m]"
    using assms by (auto simp: repair_rows_by_def Let_def split: sum.splits)
  show ?thesis using delete_marker_fields [OF m(1)] by (intro mark [OF MISSING_SCRIPT m(2)]) simp_all
next
  case FAILED_MIGRATION
  then have "rows' = filter (\<lambda>r. \<not> (script_name r = rd_script (ra_details a) \<and> success r = VBool False)) rows"
    using assms by (simp add: repair_rows_by_def Let_def delete_failed_migration_entry_def)
  with FAILED_MIGRATION show ?thesis by (rule remove)
qed

lemma read_back_fields [simp]:
  "script_name (read_back k m) = script_name m" "mtype (read_back k m) = mtype m"
  "installed_rank (read_back k m) = Some k" "success (read_back k m) = VBool True"
  by (simp_all add: read_back_def)

lemma stored_step:
  assumes "repair_rows_by rank a rows = Some rows'" "stored_history rows"
  shows "stored_history rows'"
  using assms(1)
  by (cases rule: repair_step_cases)
    (use assms(2) in \<open>auto simp: stored_history_def list_all_iff realign_row_def\<close>)

lemma live_step:
  assumes "repair_rows_by rank a rows = Some rows'" "stored_history rows"
    and "\<And>n. realigns [a] n \<Longrightarrow> \<not> failed_name rows n"
  shows "live rows' = map (realigned [a]) (live rows)"
  using assms(1)
proof (cases rule: repair_step_cases)
  case (realign k)
  let ?n = "rd_script (ra_details a)"
  have "\<not> failed_name rows ?n" using realign assms(3) by (simp add: realigns_def)
  then have "mtype r \<noteq> DELETE \<and> succeeded (realign_row ?n k r) \<longleftrightarrow> mtype r \<noteq> DELETE \<and> succeeded r"
    if "r \<in> set rows" for r
    using that assms(2) by (auto simp: failed_name_def list_ex_iff stored_history_def list_all_iff realign_row_def)
  then have "live (map (realign_row ?n k) rows) = map (realign_row ?n k) (live rows)"
    unfolding live_def filter_map comp_def by (auto intro!: arg_cong [where f = "map _"] filter_cong)
  moreover have "realigned [a] = realign_row ?n k" using realign by (auto intro: ext)
  ultimately show ?thesis using realign by simp
next
  case (mark m)
  then have "realigned [a] = (\<lambda>r. r)" by (auto intro: ext split: option.split)
  with mark show ?thesis by (simp add: live_def)
next
  case remove
  then have "realigned [a] = (\<lambda>r. r)" by (auto intro: ext split: option.split)
  with remove show ?thesis by (auto simp: live_def intro: filter_cong)
qed

lemma failed_step:
  assumes "repair_rows_by rank a rows = Some rows'" "r \<in> set rows'" "success r = VBool False" "mtype r \<noteq> DELETE"
  shows "r \<in> set rows \<and> \<not> (ra_kind a = FAILED_MIGRATION \<and> rd_script (ra_details a) = script_name r)"
  using assms(1) by (cases rule: repair_step_cases)
    (use assms(2-4) in \<open>auto simp: realign_row_def split: if_splits\<close>)

lemma marker_step:
  assumes "repair_rows_by rank a rows = Some rows'"
    and "(\<exists>r \<in> set rows. mtype r = DELETE \<and> success r = VBool True \<and> script_name r = n)
      \<or> ra_kind a = MISSING_SCRIPT \<and> rd_script (ra_details a) = n"
  shows "\<exists>r \<in> set rows'. mtype r = DELETE \<and> success r = VBool True \<and> script_name r = n"
  using assms(1)
proof (cases rule: repair_step_cases)
  case (realign k)
  then obtain r where r: "r \<in> set rows" "mtype r = DELETE" "success r = VBool True" "script_name r = n" using assms(2) by auto
  then show ?thesis using realign by (intro bexI [of _ "realign_row (rd_script (ra_details a)) k r"]) (auto simp: realign_row_def)
next
  case (mark m)
  then show ?thesis using assms(2) by auto
next
  case remove
  then show ?thesis using assms(2) by auto
qed

subsection \<open>All actions\<close>

lemma realigns_Cons: "realigns (a # as) n \<longleftrightarrow> realigns [a] n \<or> realigns as n"
  by (simp add: realigns_def)

lemma realigned_Cons: "realigned (a # as) r = realigned as (realigned [a] r)"
  by simp

lemma failed_name_step:
  "repair_rows_by rank a rows = Some rows' \<Longrightarrow> failed_name rows' n \<Longrightarrow> failed_name rows n"
  unfolding failed_name_def list_ex_iff by (blast dest: failed_step)

lemma stored_all:
  "repair_rows_all rank as rows = Some rows' \<Longrightarrow> stored_history rows \<Longrightarrow> stored_history rows'"
  by (induction as arbitrary: rows) (auto dest: stored_step split: option.splits)

lemma live_all:
  assumes "repair_rows_all rank as rows = Some rows'" "stored_history rows"
    and "\<And>n. realigns as n \<Longrightarrow> \<not> failed_name rows n"
  shows "live rows' = map (realigned as) (live rows)"
  using assms
proof (induction as arbitrary: rows)
  case (Cons a as)
  then obtain rows1 where s: "repair_rows_by rank a rows = Some rows1" "repair_rows_all rank as rows1 = Some rows'"
    by (auto split: option.splits)
  have "live rows' = map (realigned as) (live rows1)"
    by (rule Cons.IH [OF s(2) stored_step [OF s(1) Cons.prems(2)]])
      (use Cons.prems(3) failed_name_step [OF s(1)] realigns_Cons in blast)
  moreover have "live rows1 = map (realigned [a]) (live rows)"
    by (rule live_step [OF s(1) Cons.prems(2)]) (use Cons.prems(3) realigns_Cons in blast)
  ultimately show ?case by (simp only: list.map_comp comp_def realigned_Cons [symmetric])
qed (auto simp: map_idI)

lemma failed_all:
  assumes "repair_rows_all rank as rows = Some rows'" "r \<in> set rows'" "success r = VBool False" "mtype r \<noteq> DELETE"
  shows "r \<in> set rows \<and> (\<forall>a \<in> set as. \<not> (ra_kind a = FAILED_MIGRATION \<and> rd_script (ra_details a) = script_name r))"
  using assms
proof (induction as arbitrary: rows)
  case (Cons a as)
  then obtain rows1 where s: "repair_rows_by rank a rows = Some rows1" "repair_rows_all rank as rows1 = Some rows'"
    by (auto split: option.splits)
  note rest = Cons.IH [OF s(2) Cons.prems(2-4)]
  then show ?case using failed_step [OF s(1) _ Cons.prems(3,4)] by auto
qed simp

lemma marked_all:
  assumes "repair_rows_all rank as rows = Some rows'"
    and "(\<exists>r \<in> set rows. mtype r = DELETE \<and> success r = VBool True \<and> script_name r = n)
      \<or> (\<exists>a \<in> set as. ra_kind a = MISSING_SCRIPT \<and> rd_script (ra_details a) = n)"
  shows "\<exists>r \<in> set rows'. mtype r = DELETE \<and> success r = VBool True \<and> script_name r = n"
  using assms
proof (induction as arbitrary: rows)
  case (Cons a as)
  then obtain rows1 where s: "repair_rows_by rank a rows = Some rows1" "repair_rows_all rank as rows1 = Some rows'"
    by (auto split: option.splits)
  show ?case
    by (rule Cons.IH [OF s(2)]) (use Cons.prems(2) marker_step [OF s(1)] in auto)
qed simp

lemma realigned_to:
  assumes "\<And>a. a \<in> set as \<Longrightarrow> ra_kind a = CHECKSUM_MISMATCH \<Longrightarrow> rd_script (ra_details a) = script_name r
      \<Longrightarrow> rd_new_checksum (ra_details a) = Some k"
    and "realigns as (script_name r) \<or> checksum r = Some k"
  shows "checksum (realigned as r) = Some k"
  using assms
proof (induction as arbitrary: r)
  case (Cons a as)
  let ?r = "realigned [a] r"
  have one: "ra_kind a = CHECKSUM_MISMATCH \<Longrightarrow> rd_script (ra_details a) = script_name r \<Longrightarrow> checksum ?r = Some k"
    using Cons.prems(1) [of a] by (simp add: realign_row_def)
  have other: "\<not> realigns [a] (script_name r) \<Longrightarrow> ?r = r" by (rule not_realigned)
  have "checksum (realigned as ?r) = Some k"
  proof (rule Cons.IH)
    show "realigns as (script_name ?r) \<or> checksum ?r = Some k"
      using Cons.prems(2) one other realigns_Cons [of a as "script_name r"]
      by (cases "realigns [a] (script_name r)") (auto simp: realigns_def)
    show "rd_new_checksum (ra_details b) = Some k"
      if "b \<in> set as" "ra_kind b = CHECKSUM_MISMATCH" "rd_script (ra_details b) = script_name ?r" for b
      using Cons.prems(1) [of b] that(1,2) that(3) [unfolded realigned_fields] by simp
  qed
  then show ?case by (subst realigned_Cons)
qed (auto simp: realigns_def)

subsection \<open>Live rows decide what is missing, drifted and undone\<close>

lemma successful_of_live: "successful_non_delete_records rows = filter (\<lambda>r. mtype r \<noteq> UNDO_SQL) (live rows)"
  by (auto simp: successful_non_delete_records_def live_def intro: filter_cong)

lemma live_realigned_fields:
  assumes "live rows' = map (realigned as) (live rows)"
  shows "successful_non_delete_records rows' = map (realigned as) (successful_non_delete_records rows)"
  unfolding successful_of_live assms by (simp add: filter_map comp_def)

lemma filter_live: "(\<And>r. P r \<Longrightarrow> mtype r \<noteq> DELETE \<and> succeeded r) \<Longrightarrow> filter P rows = filter P (live rows)"
  by (auto simp: live_def intro: filter_cong)

lemma realigned_succeeded:
  "stored_history rows \<Longrightarrow> r \<in> set (live rows) \<Longrightarrow> succeeded (realigned as r)"
  using realigned_success [of r as] by (auto simp: live_def stored_history_def list_all_iff)

lemma inactive_same:
  assumes "live rows' = map (realigned as) (live rows)" "stored_history rows"
  shows "inactive_version rows' v \<longleftrightarrow> inactive_version rows v"
proof -
  have same: "latest_rank P rows' = latest_rank P rows \<and> (filter P rows' = [] \<longleftrightarrow> filter P rows = [])"
    if P: "\<And>r. P r \<Longrightarrow> mtype r \<noteq> DELETE \<and> succeeded r"
      and r: "\<And>r. r \<in> set (live rows) \<Longrightarrow> P (realigned as r) \<longleftrightarrow> P r" for P
  proof -
    have "filter P rows' = map (realigned as) (filter (P \<circ> realigned as) (live rows))"
      by (simp only: filter_live [of P rows', OF P] assms(1) filter_map)
    also have "filter (P \<circ> realigned as) (live rows) = filter P (live rows)" by (rule filter_cong) (simp_all add: r)
    also have "\<dots> = filter P rows" by (rule filter_live [OF P, symmetric])
    finally show ?thesis by (simp add: latest_rank_def image_image installed_rank_of_def)
  qed
  have rows: "applies_row v (realigned as r) \<longleftrightarrow> applies_row v r" "undoes_row v (realigned as r) \<longleftrightarrow> undoes_row v r"
    if "r \<in> set (live rows)" for r
    using realigned_succeeded [OF assms(2) that] that
    by (auto simp: applies_row_def undoes_row_def has_version_def version_str_def live_def)
  have live: "applies_row v r \<Longrightarrow> mtype r \<noteq> DELETE \<and> succeeded r" "undoes_row v r \<Longrightarrow> mtype r \<noteq> DELETE \<and> succeeded r" for r
    by (auto simp: applies_row_def undoes_row_def)
  have "latest_rank (applies_row v) rows' = latest_rank (applies_row v) rows" using same [of "applies_row v", OF live(1) rows(1)] by blast
  moreover have "latest_rank (undoes_row v) rows' = latest_rank (undoes_row v) rows
      \<and> (filter (undoes_row v) rows' = [] \<longleftrightarrow> filter (undoes_row v) rows = [])" using same [of "undoes_row v", OF live(2) rows(2)] by blast
  ultimately show ?thesis by (simp only: inactive_version_iff)
qed

lemma last_rows_iff:
  "r \<in> set (last_rows rows) \<longleftrightarrow> script_name r \<noteq> []
     \<and> (\<exists>xs. filter (\<lambda>x. script_name x = script_name r) rows = xs @ [r])"
proof (induction rows)
  case (Cons x xs)
  have ex: "list_ex (\<lambda>y. script_name y = script_name x) xs \<longleftrightarrow> filter (\<lambda>y. script_name y = script_name x) xs \<noteq> []"
    by (auto simp: list_ex_iff filter_empty_conv)
  have "(\<exists>ys. x # zs = ys @ [r]) \<longleftrightarrow> (if zs = [] then r = x else \<exists>ys. zs = ys @ [r])" for zs :: "migration list"
    by (cases zs rule: rev_cases) (auto simp: Cons_eq_append_conv)
  then show ?case using Cons ex by (cases "script_name x = script_name r") auto
qed simp

subsection \<open>The scripts are listed\<close>

lemma loaded_listed:
  assumes "load_source f src w = Inr (cat, w')"
  shows "set (catalog_list cat) = set (all_scripts_of cat)"
proof -
  obtain dv st where dv: "get_all_scripts f (src_dir src) (src_recursive src) (src_additional src) (src_recursive_map src) w = Inr dv"
    and st: "load_loop f (src_dir src) (src_additional src) (dv_metadata dv) (dv_scripts dv) initial_load = Inr st"
    and cat: "cat = sort_catalog st"
    using assms by (auto simp: load_source_def load_migration_scripts_def)
  have "discovery_ok \<lparr>dv_scripts = [], dv_metadata = [], dv_warn = w\<rparr>" by (simp add: discovery_ok_def)
  then have "case get_all_scripts f (src_dir src) (src_recursive src) (src_additional src) (src_recursive_map src) w of
      Inl e \<Rightarrow> \<exists>d. e = DirectoryPermissionError d \<and> \<not> fs_readable f d | Inr dv \<Rightarrow> discovery_ok dv"
    unfolding get_all_scripts_def by (rule discover_dirs_ok)
  then have ok: "\<forall>ref \<in> set (dv_scripts dv). discovered_ok (dv_metadata dv) ref"
    by (simp add: dv discovery_ok_def)
  have "dkeys (ls_catalog st) = catalog_keys"
    using load_loop_spec [OF st ok] by (simp add: initial_load_def empty_catalog_def dkeys_def catalog_keys_def)
  from catalog_five [OF this] obtain a b r d e
    where "ls_catalog st = [(SQL, a), (UNDO_SQL, b), (REPEATABLE, r), (BASELINE, d), (CALLBACK, e)]" by metis
  then show ?thesis
    by (auto simp: cat catalog_list_def all_scripts_of_def sort_catalog_def Let_def dget_or_def dget_def)
qed

subsection \<open>A repaired history is settled\<close>

text \<open>The parts of the state a repair looks at.\<close>

lemma change_of_repeatable:
  assumes "ch \<in> set (determine_checksum_changes ms previous)"
  shows "\<exists>m \<in> set ms. mtype m = REPEATABLE \<and> cc_script ch = script_name m"
proof -
  obtain m where "m \<in> set ms" and m: "(if mtype m \<noteq> REPEATABLE then None
      else case (checksum m, lookup_checksum previous (script_name m)) of
         (Some k, Some p) \<Rightarrow>
           if k \<noteq> 0 \<and> p \<noteq> 0 \<and> checksums_differ p k
           then Some \<lparr>cc_script = script_name m, cc_previous = p, cc_current = k\<rparr> else None
       | _ \<Rightarrow> None) = Some ch"
    using assms unfolding determine_checksum_changes_def List.map_filter_def by auto
  moreover have "mtype m = REPEATABLE \<and> cc_script ch = script_name m"
    using m by (auto split: if_splits option.splits)
  ultimately show ?thesis by blast
qed

lemma state_parts:
  assumes "build_analysis_context None applied = Inr c"
    and "st = assemble_state applied c (Some cat) pending"
  shows "failed_scripts st = script_name ` {r \<in> set applied. failure_recorded r \<and> script_name r \<noteq> []}"
    and "ms_checksum_drift st = find_checksum_drift (all_scripts_of cat) applied"
    and "map script_name (ms_missing_applied st) = map script_name
      (missing_applied (map (mark_pending pending) (catalog_list cat))
        (without_undone (map (mark_applied (Some (catalog_list cat))) applied)
          (filter (\<lambda>v. v \<notin> set (ac_reapplied c)) (ac_undone c))))"
    and "cc_script ` set (ms_checksum_changes st) \<subseteq> script_name ` {m \<in> set pending. mtype m = REPEATABLE}"
proof -
  have mark: "script_name (mark_applied ss m) = script_name m" for ss m
    by (simp add: mark_applied_def Let_def split: option.split)
  have "set (ha_failed (analyse_history applied c)) = {r \<in> set applied. failure_recorded r}"
    by (simp add: analyse_history_def Let_def analyse_rows(1))
  moreover have "ms_failed_objects st = map (mark_applied (Some (catalog_list cat))) (ha_failed (analyse_history applied c))"
    by (simp add: assms(2) assemble_state_def Let_def build_applied_entries_def)
  moreover have "script_name ` {m \<in> mark_applied ss ` S. script_name m \<noteq> []} = script_name ` {m \<in> S. script_name m \<noteq> []}" for ss S
    by (auto simp: mark image_def)
  ultimately show "failed_scripts st = script_name ` {r \<in> set applied. failure_recorded r \<and> script_name r \<noteq> []}"
    by (simp add: failed_scripts_def)
  show "ms_checksum_drift st = find_checksum_drift (all_scripts_of cat) applied"
    by (simp add: assms(2) assemble_state_def Let_def build_applied_entries_def)
  show "map script_name (ms_missing_applied st) = map script_name
      (missing_applied (map (mark_pending pending) (catalog_list cat))
        (without_undone (map (mark_applied (Some (catalog_list cat))) applied)
          (filter (\<lambda>v. v \<notin> set (ac_reapplied c)) (ac_undone c))))"
    by (simp add: assms(2) assemble_state_def Let_def build_applied_entries_def analyse_history_def)
  have "ms_checksum_changes st = determine_checksum_changes (map (mark_pending pending) pending)
      (ha_repeatable_checksums (analyse_history applied c))"
    by (simp add: assms(2) assemble_state_def Let_def build_applied_entries_def)
  then show "cc_script ` set (ms_checksum_changes st) \<subseteq> script_name ` {m \<in> set pending. mtype m = REPEATABLE}"
    using change_of_repeatable by (fastforce simp: mark_pending_def split: if_splits)
qed

lemma planned_actions:
  assumes "a \<in> set (route_repairs st [] rs)"
  shows "rd_script (ra_details a) = ra_script a"
proof -
  have "\<forall>a \<in> set (route_repairs st removed rs). rd_script (ra_details a) = ra_script a" for removed
    by (induction st removed rs rule: route_repairs.induct) (simp_all add: Let_def)
  with assms show ?thesis by blast
qed

text \<open>Missing scripts by name: what the last live row says.\<close>

definition kept_versions :: "migration list \<Rightarrow> migration \<Rightarrow> bool" where
  "kept_versions applied m \<longleftrightarrow> versioned m \<longrightarrow> \<not> inactive_version applied (version_str m)"

definition on_disk :: "catalog \<Rightarrow> string \<Rightarrow> bool" where
  "on_disk cat n \<longleftrightarrow> n \<in> script_name ` set (all_scripts_of cat) \<union> path_name ` script_name ` set (all_scripts_of cat)"

definition missing_name :: "catalog \<Rightarrow> migration list \<Rightarrow> string \<Rightarrow> bool" where
  "missing_name cat applied n \<longleftrightarrow> n \<noteq> [] \<and> \<not> on_disk cat n \<and> \<not> on_disk cat (path_name n)
     \<and> n \<notin> script_name ` {d \<in> set applied. mtype d = DELETE}
     \<and> (\<exists>xs r. filter (\<lambda>x. script_name x = n) (filter (kept_versions applied) (successful_non_delete_records applied)) = xs @ [r]
          \<and> mtype r \<noteq> BASELINE \<and> str_lower (version_str r) \<noteq> ''baseline'')"

lemma mark_applied_fields [simp]:
  "script_name (mark_applied ss m) = script_name m" "mtype (mark_applied ss m) = mtype m"
  "version (mark_applied ss m) = version m" "success (mark_applied ss m) = success m"
  "version_str (mark_applied ss m) = version_str m"
  by (simp_all add: mark_applied_def Let_def version_str_def split: option.split)

lemma successful_kept:
  assumes "\<And>v. v \<in> set U \<longleftrightarrow> inactive_version applied v"
  shows "successful_non_delete_records (without_undone (map (mark_applied ss) applied) U)
    = map (mark_applied ss) (filter (kept_versions applied) (successful_non_delete_records applied))"
  unfolding successful_non_delete_records_def without_undone_def filter_map filter_filter comp_def
  by (auto simp: kept_versions_def assms intro!: arg_cong [where f = "map _"] filter_cong)

lemma missing_names:
  assumes "build_analysis_context None applied = Inr c" "load_source f src w = Inr (cat, w')"
    and "st = assemble_state applied c (Some cat) pending"
  shows "script_name ` set (ms_missing_applied st) = {n. missing_name cat applied n}"
proof -
  let ?mark = "mark_applied (Some (catalog_list cat))" and ?os = "map (mark_pending pending) (catalog_list cat)"
  let ?U = "filter (\<lambda>v. v \<notin> set (ac_reapplied c)) (ac_undone c)"
  let ?rows = "filter (kept_versions applied) (successful_non_delete_records applied)"
  have U: "v \<in> set ?U \<longleftrightarrow> inactive_version applied v" for v using context_fields(1) [OF assms(1)] by auto
  have rows: "successful_non_delete_records (without_undone (map ?mark applied) ?U) = map ?mark ?rows"
    by (rule successful_kept [OF U])
  have os: "script_name ` set ?os = script_name ` set (all_scripts_of cat)"
  proof -
    have "script_name (mark_pending pending m) = script_name m" for m by (simp add: mark_pending_def)
    then show ?thesis using loaded_listed [OF assms(2)] by (simp add: image_image)
  qed
  have del: "script_name ` {d \<in> set (without_undone (map ?mark applied) ?U). mtype d = DELETE}
      = script_name ` {d \<in> set applied. mtype d = DELETE}"
    by (auto simp: without_undone_def image_def)
  have last: "r \<in> set (last_rows (map ?mark ?rows)) \<longleftrightarrow> script_name r \<noteq> []
      \<and> (\<exists>xs. map ?mark (filter (\<lambda>x. script_name x = script_name r) ?rows) = xs @ [r])" for r
    unfolding last_rows_iff filter_map comp_def by simp
  have "script_name ` set (ms_missing_applied st) = script_name ` set (filter (gone ?os (without_undone (map ?mark applied) ?U)) (last_rows (map ?mark ?rows)))"
    using arg_cong [OF state_parts(3) [OF assms(1,3)], of set] by (simp only: missing_applied_filter rows set_map)
  also have "\<dots> = {n. missing_name cat applied n}"
  proof (intro set_eqI iffI)
    fix n assume "n \<in> script_name ` set (filter (gone ?os (without_undone (map ?mark applied) ?U)) (last_rows (map ?mark ?rows)))"
    then obtain r where r: "n = script_name r" "gone ?os (without_undone (map ?mark applied) ?U) r" "n \<noteq> []"
        "\<exists>xs. map ?mark (filter (\<lambda>x. script_name x = script_name r) ?rows) = xs @ [r]" using last by auto
    then obtain xs r0 where "filter (\<lambda>x. script_name x = n) ?rows = xs @ [r0]" "r = ?mark r0"
      by (auto simp: map_eq_append_conv)
    then show "n \<in> {n. missing_name cat applied n}"
      using r(1-3) unfolding gone_def os del missing_name_def on_disk_def by auto
  next
    fix n assume "n \<in> {n. missing_name cat applied n}"
    then obtain xs r0 where r0: "filter (\<lambda>x. script_name x = n) ?rows = xs @ [r0]" "mtype r0 \<noteq> BASELINE"
        "str_lower (version_str r0) \<noteq> ''baseline''" and m: "missing_name cat applied n" by (auto simp: missing_name_def)
    have n: "script_name r0 = n" using arg_cong [OF r0(1), of set] by auto
    have "?mark r0 \<in> set (last_rows (map ?mark ?rows))" unfolding last using r0(1) n m by (auto simp: missing_name_def)
    moreover have "gone ?os (without_undone (map ?mark applied) ?U) (?mark r0)"
      using m r0 n unfolding gone_def os del missing_name_def on_disk_def by simp
    ultimately show "n \<in> script_name ` set (filter (gone ?os (without_undone (map ?mark applied) ?U)) (last_rows (map ?mark ?rows)))"
      using n by (intro image_eqI [of _ _ "?mark r0"]) simp_all
  qed
  finally show ?thesis .
qed

text \<open>The checksum actions of a plan.\<close>

lemma drift_repairs_from:
  "r \<in> set (drift_repairs recorded ds) \<Longrightarrow> \<exists>d \<in> set ds. \<not> cd_repeatable d \<and> cd_current d \<noteq> None
     \<and> r = checksum_repair (cd_script_name d) (cd_applied d) (cd_current d)"
  by (induction recorded ds rule: drift_repairs.induct) (auto split: if_splits)

lemma checksum_actions:
  assumes "a \<in> set (route_repairs st [] (repair_rows st))" "ra_kind a = CHECKSUM_MISMATCH"
  shows "ra_script a \<in> cc_script ` set (ms_checksum_changes st)
    \<or> (\<exists>d \<in> set (ms_checksum_drift st). \<not> cd_repeatable d \<and> cd_current d \<noteq> None
        \<and> ra_script a = cd_script_name d \<and> rd_new_checksum (ra_details a) = cd_current d)"
proof -
  have "a \<in> set (filter (\<lambda>a. ra_kind a = CHECKSUM_MISMATCH) (route_repairs st [] (repair_rows st)))" using assms by simp
  then obtain r where r: "r \<in> set (repair_rows st)" "routed_kind st r = CHECKSUM_MISMATCH" "a = action_of st r"
    by (auto simp: route_others)
  have "rd_type r = CHECKSUM_MISMATCH" using r(2) by (auto simp: routed_kind_def split: if_splits)
  then have "r \<in> set (detect_checksum_changes st) \<or> (\<exists>recorded. r \<in> set (drift_repairs recorded (ms_checksum_drift st)))"
    using r(1) by (auto simp: repair_rows_def found_rows_def missing_repair_def failed_repair_def)
  then show ?thesis
    using drift_repairs_from r(3) by (fastforce simp: detect_checksum_changes_def checksum_repair_def action_of_def)
qed

lemma last_success_realigned:
  assumes "live rows' = map (realigned as) (live rows)"
  shows "last_success rows' n = map_option (realigned as) (last_success rows n)"
proof -
  have "List.find (\<lambda>r. script_name r = n) (map (realigned as) xs) = map_option (realigned as) (List.find (\<lambda>r. script_name r = n) xs)" for xs
    by (induction xs) auto
  then show ?thesis by (simp add: last_success_def live_realigned_fields [OF assms] rev_map)
qed

lemma drift_entry_iff:
  "d \<in> set (find_checksum_drift scripts applied) \<longleftrightarrow> drift_of scripts applied (cd_script_name d) = Some d
     \<and> (\<exists>r \<in> set applied. script_name r = cd_script_name d \<and> script_name r \<noteq> [] \<and> mtype r \<notin> {UNKNOWN, DELETE, UNDO_SQL, BASELINE})"
proof -
  let ?ns = "map script_name (filter (\<lambda>r. script_name r \<noteq> [] \<and> mtype r \<notin> {UNKNOWN, DELETE, UNDO_SQL, BASELINE}) applied)"
  have "d \<in> set (List.map_filter (drift_of scripts applied) ns) \<longleftrightarrow> (\<exists>n \<in> set ns. drift_of scripts applied n = Some d)" for ns
    unfolding List.map_filter_def by force
  then have "d \<in> set (find_checksum_drift scripts applied) \<longleftrightarrow> (\<exists>n \<in> set ?ns. drift_of scripts applied n = Some d)"
    unfolding find_checksum_drift_entries by (simp add: first_by_names)
  also have "\<dots> \<longleftrightarrow> drift_of scripts applied (cd_script_name d) = Some d \<and> cd_script_name d \<in> set ?ns"
    using drift_of_name [of scripts applied _ d] by blast
  finally show ?thesis by (auto simp: image_iff)
qed

lemma drift_of_cases:
  assumes "drift_of scripts applied n = Some d"
  obtains s a where "script_for scripts n = Some s" "last_success applied n = Some a"
    "cd_current d = norm_checksum (checksum s)" "cd_repeatable d \<longleftrightarrow> mtype a = REPEATABLE"
    "\<not> (norm_checksum (checksum a) = norm_checksum (checksum s) \<and> checksum s \<noteq> None)"
  using assms by (auto simp: drift_of_def split: option.splits if_splits)

lemma script_for_on_disk:
  assumes "script_for (all_scripts_of cat) n = Some s"
  shows "on_disk cat n \<or> on_disk cat (path_name n)"
proof -
  have "s \<in> set (all_scripts_of cat) \<and> (script_name s = n \<or> script_name s = path_name n)"
    using assms by (auto simp: script_for_def find_Some_iff split: option.splits)
  then have "n \<in> script_name ` set (all_scripts_of cat) \<or> path_name n \<in> script_name ` set (all_scripts_of cat)"
    by (metis image_eqI)
  then show ?thesis unfolding on_disk_def Un_iff by blast
qed

text \<open>Nothing that drifted and could be realigned is left, unless a failed row of the script was removed instead.\<close>

lemma drift_settled:
  assumes live: "live rows = map (realigned as) (live applied)"
    and d: "drift_of scripts rows n = Some d" "\<not> cd_repeatable d" "cd_current d \<noteq> None"
    and realigned: "\<And>d. drift_of scripts applied n = Some d \<Longrightarrow> \<not> cd_repeatable d \<Longrightarrow> cd_current d \<noteq> None \<Longrightarrow> realigns as n"
    and to: "\<And>a. a \<in> set as \<Longrightarrow> ra_kind a = CHECKSUM_MISMATCH \<Longrightarrow> rd_script (ra_details a) = n
      \<Longrightarrow> \<exists>d. drift_of scripts applied n = Some d \<and> rd_new_checksum (ra_details a) = cd_current d"
  shows False
proof -
  obtain s a' where s: "script_for scripts n = Some s" and a': "last_success rows n = Some a'"
    and cur: "cd_current d = norm_checksum (checksum s)" and rep: "cd_repeatable d \<longleftrightarrow> mtype a' = REPEATABLE"
    and drift: "\<not> (norm_checksum (checksum a') = norm_checksum (checksum s) \<and> checksum s \<noteq> None)"
    using d(1) by (rule drift_of_cases)
  obtain a where a: "last_success applied n = Some a" "a' = realigned as a"
    using a' last_success_realigned [OF live, of n] by auto
  have n: "script_name a = n" using a(1) by (auto simp: last_success_def find_Some_iff)
  have known: "checksum s \<noteq> None" using d(3) cur by simp
  show False
  proof (cases "drift_of scripts applied n")
    case None
    then have "norm_checksum (checksum a) = norm_checksum (checksum s)" using s a(1) known by (simp add: drift_of_def split: if_splits)
    moreover have "\<not> realigns as n" using to None unfolding realigns_def list_ex_iff by fastforce
    ultimately show False using drift known not_realigned [of as a] a(2) n by simp
  next
    case (Some d0)
    have d0: "cd_current d0 = norm_checksum (checksum s)" "\<not> cd_repeatable d0"
      using Some s a rep d(2) by (auto simp: drift_of_def split: if_splits)
    then obtain k where k: "cd_current d0 = Some k" using known by (cases "checksum s") (simp_all add: norm_checksum_def)
    have "realigns as n" using realigned [OF Some] d0(2) k by simp
    then have "checksum (realigned as a) = Some k"
      using to Some k n by (intro realigned_to) auto
    then show False using drift known a(2) d0(1) k norm_checksum_idem [of "checksum s"] by simp
  qed
qed

text \<open>The actions of a plan, by kind.\<close>

lemma failed_actions:
  "(\<exists>a \<in> set (route_repairs st [] (repair_rows st)). ra_kind a = FAILED_MIGRATION \<and> ra_script a = n) \<longleftrightarrow> n \<in> failed_scripts st"
proof -
  have "set (failed_names (route_repairs st [] (repair_rows st))) = failed_scripts st"
    using route_failed [of st "[]" "repair_rows st"] failed_rows by simp
  then have "ra_script ` {a \<in> set (route_repairs st [] (repair_rows st)). ra_kind a = FAILED_MIGRATION} = failed_scripts st"
    by (simp add: failed_names_def)
  from this [symmetric] show ?thesis by (auto simp: image_iff)
qed

lemma missing_actions:
  "(\<exists>a \<in> set (route_repairs st [] (repair_rows st)). ra_kind a = MISSING_SCRIPT \<and> ra_script a = n)
    \<longleftrightarrow> n \<in> script_name ` set (ms_missing_applied st)"
proof -
  have "map ra_script (filter (\<lambda>a. ra_kind a = MISSING_SCRIPT) (route_repairs st [] (repair_rows st))) = map script_name (ms_missing_applied st)"
    by (simp only: route_others [of MISSING_SCRIPT st "[]" "repair_rows st", OF repair_kind.distinct(5)] missing_rows
        list.map_comp comp_def action_of_fields repair_row_fields)
  then have "ra_script ` {a \<in> set (route_repairs st [] (repair_rows st)). ra_kind a = MISSING_SCRIPT} = script_name ` set (ms_missing_applied st)"
    by (metis set_filter set_map)
  from this [symmetric] show ?thesis by (auto simp: image_iff)
qed

lemma realigned_scripts:
  assumes "realigns (route_repairs st [] (repair_rows st)) n"
  shows "n \<notin> failed_scripts st"
proof -
  obtain a where a: "a \<in> set (route_repairs st [] (repair_rows st))" "ra_kind a = CHECKSUM_MISMATCH" "rd_script (ra_details a) = n"
    using assms by (auto simp: realigns_def list_ex_iff)
  then have "ra_script a = n" using planned_actions [OF a(1)] by simp
  then show ?thesis using realigned_not_failed [of st "repair_rows st"] a(1,2) by blast
qed

lemma stored_failed:
  assumes "stored_history rows" "build_analysis_context None rows = Inr c" "st = assemble_state rows c (Some cat) pending"
  shows "n \<in> failed_scripts st \<longleftrightarrow> failed_name rows n"
proof -
  have "failure_recorded r \<and> script_name r \<noteq> [] \<longleftrightarrow> mtype r \<noteq> DELETE \<and> success r = VBool False" if "r \<in> set rows" for r
    using that assms(1) by (auto simp: failure_recorded_def stored_history_def list_all_iff)
  then show ?thesis unfolding state_parts(1) [OF assms(2,3)] by (auto simp: failed_name_def list_ex_iff)
qed

lemma stored_context:
  assumes "stored_history rows"
  shows "\<exists>c. build_analysis_context target rows = Inr c"
proof -
  have "\<not> list_ex (\<lambda>m. installed_rank m = None) rows" using assms by (auto simp: stored_history_def list_all_iff list_ex_iff)
  then show ?thesis by (simp add: build_analysis_context_def sort_applied_migrations_def)
qed

text \<open>No script is missing any more.\<close>

lemma missing_settled:
  assumes run: "repair_rows_all rank as applied = Some rows" and stored: "stored_history applied"
    and live: "live rows = map (realigned as) (live applied)"
    and marks: "\<And>n. missing_name cat applied n \<Longrightarrow> \<exists>a \<in> set as. ra_kind a = MISSING_SCRIPT \<and> rd_script (ra_details a) = n"
  shows "\<not> missing_name cat rows n"
proof
  assume n: "missing_name cat rows n"
  have kept: "kept_versions rows (realigned as r) \<longleftrightarrow> kept_versions applied r" for r
    by (simp add: kept_versions_def inactive_same [OF live stored] version_str_def)
  have "filter (\<lambda>x. script_name x = n) (filter (kept_versions rows) (successful_non_delete_records rows))
      = map (realigned as) (filter (\<lambda>x. script_name x = n) (filter (kept_versions applied) (successful_non_delete_records applied)))"
    unfolding live_realigned_fields [OF live] filter_map comp_def kept by simp
  moreover have none: "r \<in> set applied \<Longrightarrow> mtype r = DELETE \<Longrightarrow> script_name r \<noteq> n" for r
  proof
    assume r: "r \<in> set applied" "mtype r = DELETE" "script_name r = n"
    then have "success r = VBool True" using stored by (auto simp: stored_history_def list_all_iff)
    then have "\<exists>r \<in> set rows. mtype r = DELETE \<and> success r = VBool True \<and> script_name r = n"
      using marked_all [OF run, of n] r by blast
    then show False using n unfolding missing_name_def by blast
  qed
  ultimately have "missing_name cat applied n"
    using n unfolding missing_name_def by (auto simp: map_eq_append_conv version_str_def)
  from marked_all [OF run disjI2, OF marks [OF this]] n show False unfolding missing_name_def by blast
qed

definition repeatable_scripts :: "catalog \<Rightarrow> string set" where
  "repeatable_scripts cat = script_name ` {m \<in> set (all_scripts_of cat). mtype m = REPEATABLE}"

lemma changes_repeatable:
  assumes "build_analysis_context None applied = Inr c" "st = assemble_state applied c (Some cat) pending"
    and "set pending \<subseteq> set (all_scripts_of cat)"
  shows "cc_script ` set (ms_checksum_changes st) \<subseteq> repeatable_scripts cat"
  using state_parts(4) [OF assms(1,2)] assms(3) by (auto simp: repeatable_scripts_def)

text \<open>The actions of the first plan, and their effect on the rows.\<close>

lemma repaired_live:
  assumes "build_analysis_context None applied = Inr c" "st = assemble_state applied c (Some cat) pending"
    and "stored_history applied" "as = route_repairs st [] (repair_rows st)" "repair_rows_all rank as applied = Some rows"
  shows "live rows = map (realigned as) (live applied)"
  by (rule live_all [OF assms(5,3)])
    (use realigned_scripts [of st] stored_failed [OF assms(3,1,2)] assms(4) in simp)

lemma drift_realigned:
  assumes ctx: "build_analysis_context None applied = Inr c" "st = assemble_state applied c (Some cat) pending"
    and as: "as = route_repairs st [] (repair_rows st)" and disk: "load_source f src w = Inr (cat, w')"
    and n: "n \<notin> failed_scripts st" "r \<in> set applied" "script_name r = n" "n \<noteq> []" "mtype r \<notin> {UNKNOWN, DELETE, UNDO_SQL, BASELINE}"
    and d: "drift_of (all_scripts_of cat) applied n = Some d" "\<not> cd_repeatable d" "cd_current d \<noteq> None"
  shows "realigns as n"
proof -
  have name: "cd_script_name d = n" using d(1) by (rule drift_of_name)
  have "d \<in> set (ms_checksum_drift st)"
    unfolding state_parts(2) [OF ctx] drift_entry_iff name by (intro conjI bexI [of _ r]) (use d(1) n(2-5) in simp_all)
  then have "n \<in> cd_script_name ` {d \<in> set (ms_checksum_drift st). \<not> cd_repeatable d \<and> cd_current d \<noteq> None}"
    using d(2,3) name by (intro image_eqI [of _ _ d]) simp_all
  then have "n \<in> ra_script ` set as" using drift_rows unfolding as by (rule rev_subsetD)
  then obtain a where a: "a \<in> set as" "n = ra_script a" by (rule imageE)
  have "ra_kind a \<noteq> FAILED_MIGRATION" using failed_actions [of st n] a n(1) unfolding as by blast
  moreover have "ra_kind a \<noteq> MISSING_SCRIPT"
  proof
    assume "ra_kind a = MISSING_SCRIPT"
    then have "n \<in> script_name ` set (ms_missing_applied st)" using missing_actions [of st n] a unfolding as by blast
    then have "missing_name cat applied n" unfolding missing_names [OF ctx(1) disk ctx(2)] by simp
    moreover obtain s where "script_for (all_scripts_of cat) n = Some s" using d(1) by (rule drift_of_cases)
    ultimately show False using script_for_on_disk unfolding missing_name_def by blast
  qed
  ultimately have "ra_kind a = CHECKSUM_MISMATCH" by (cases "ra_kind a") simp_all
  moreover have "rd_script (ra_details a) = n" using planned_actions [OF a(1) [unfolded as]] a(2) by simp
  ultimately show ?thesis using a(1) by (auto simp: realigns_def list_ex_iff)
qed

lemma realigned_drift:
  assumes ctx: "build_analysis_context None applied = Inr c" "st = assemble_state applied c (Some cat) pending"
    and pending: "set pending \<subseteq> set (all_scripts_of cat)"
    and a: "a \<in> set (route_repairs st [] (repair_rows st))" "ra_kind a = CHECKSUM_MISMATCH" "rd_script (ra_details a) = n"
    and n: "n \<notin> repeatable_scripts cat"
  shows "\<exists>d. drift_of (all_scripts_of cat) applied n = Some d \<and> rd_new_checksum (ra_details a) = cd_current d"
proof -
  have "ra_script a = n" using planned_actions [OF a(1)] a(3) by simp
  with checksum_actions [OF a(1,2)] changes_repeatable [OF ctx pending] n
  obtain d where d: "d \<in> set (ms_checksum_drift st)" "cd_script_name d = n" "rd_new_checksum (ra_details a) = cd_current d"
    by auto
  then have "drift_of (all_scripts_of cat) applied n = Some d" unfolding state_parts(2) [OF ctx] drift_entry_iff by blast
  then show ?thesis using d(3) by blast
qed

text \<open>A row of a script stays, with its type, or is a failed one.\<close>

lemma row_origin:
  assumes "repair_rows_all rank as applied = Some rows" "stored_history applied"
    and "live rows = map (realigned as) (live applied)" "r \<in> set rows" "mtype r \<noteq> DELETE"
  shows "\<exists>r0 \<in> set applied. script_name r0 = script_name r \<and> mtype r0 = mtype r"
proof (cases "success r = VBool False")
  case True
  then show ?thesis using failed_all [OF assms(1,4) True assms(5)] by blast
next
  case False
  then have "r \<in> set (live rows)"
    using stored_all [OF assms(1,2)] assms(4,5) by (auto simp: live_def stored_history_def list_all_iff)
  then show ?thesis unfolding assms(3) by (auto simp: live_def)
qed

text \<open>An action runs through when its script has a successful row, and actions keep such rows.\<close>

definition runnable :: "migration list \<Rightarrow> repair_action \<Rightarrow> bool" where
  "runnable rows a \<longleftrightarrow>
     (case ra_kind a of
        CHECKSUM_MISMATCH \<Rightarrow> rd_new_checksum (ra_details a) \<noteq> None
          \<and> list_ex (\<lambda>r. script_name r = rd_script (ra_details a) \<and> success r = VBool True) rows
      | MISSING_SCRIPT \<Rightarrow> rd_script (ra_details a) \<noteq> []
      | FAILED_MIGRATION \<Rightarrow> True)"

lemma runnable_step:
  assumes "runnable rows a"
  shows "\<exists>rows'. repair_rows_by rank a rows = Some rows'"
proof (cases "ra_kind a")
  case CHECKSUM_MISMATCH
  then obtain k where "rd_new_checksum (ra_details a) = Some k" "list_ex (\<lambda>r. script_name r = rd_script (ra_details a)) rows"
    using assms by (auto simp: runnable_def list_ex_iff)
  then show ?thesis using CHECKSUM_MISMATCH by (simp add: repair_rows_by_def Let_def repair_migration_history_def)
next
  case MISSING_SCRIPT
  then have "rd_script (ra_details a) \<noteq> []" using assms by (simp add: runnable_def)
  then have "\<exists>m. delete_marker (rd_script (ra_details a)) v r t = Inr m" for v r t
    by (simp add: delete_marker_def new_migration_def Let_def)
  then obtain m where "delete_marker (rd_script (ra_details a)) (rd_version (ra_details a))
      (delete_reason (ra_details a)) (original_type_name (ra_details a)) = Inr m" by metis
  then show ?thesis using MISSING_SCRIPT by (simp add: repair_rows_by_def Let_def)
next
  case FAILED_MIGRATION
  then show ?thesis by (simp add: repair_rows_by_def Let_def)
qed

lemma runnable_stays:
  assumes "repair_rows_by rank a rows = Some rows'" "runnable rows b"
  shows "runnable rows' b"
proof -
  have "list_ex (\<lambda>r. script_name r = n \<and> success r = VBool True) rows'"
    if n: "list_ex (\<lambda>r. script_name r = n \<and> success r = VBool True) rows" for n
    using assms(1)
  proof (cases rule: repair_step_cases)
    case (realign k)
    obtain r where "r \<in> set rows" "script_name r = n" "success r = VBool True" using n by (auto simp: list_ex_iff)
    then have "script_name (realign_row (rd_script (ra_details a)) k r) = n
        \<and> success (realign_row (rd_script (ra_details a)) k r) = VBool True"
      by (simp add: realign_row_def)
    then show ?thesis using realign \<open>r \<in> set rows\<close> by (auto simp: list_ex_iff)
  qed (use n in \<open>auto simp: list_ex_iff\<close>)
  then show ?thesis using assms(2) by (auto simp: runnable_def split: repair_kind.splits)
qed

lemma runnable_all: "list_all (runnable rows) as \<Longrightarrow> \<exists>rows'. repair_rows_all rank as rows = Some rows'"
proof (induction as arbitrary: rows)
  case (Cons a as)
  then obtain rows1 where "repair_rows_by rank a rows = Some rows1" using runnable_step [of rows a] by auto
  then show ?case using Cons runnable_stays by (auto simp: list_all_iff)
qed simp

text \<open>C39. A repair settles the history: planned again over the repaired rows and the same scripts, a repair has
  no failed row to remove and no script to mark as deleted, and what it would still realign is a repeatable
  script or a script whose failed row the first repair removed.\<close>

theorem repair_settles:
  assumes plan: "plan_repairs f src applied w = Inr (p, w1)" and stored: "stored_history applied"
    and run: "repair_rows_all rank (rp_actions p) applied = Some rows"
    and disk: "load_source f src w = Inr (cat, w1)" "load_source f src w2 = Inr (cat, w3)"
  shows "\<exists>q. plan_repairs f src rows w2 = Inr (q, w3)
    \<and> (\<forall>a \<in> set (rp_actions q). ra_kind a = CHECKSUM_MISMATCH
        \<and> ra_script a \<in> failed_scripts (rp_state p) \<union> repeatable_scripts cat)"
proof -
  let ?as = "rp_actions p" and ?pend = "\<lambda>rows. filter (unresolved_script rows (all_scripts_of cat)) (all_scripts_of cat)"
  obtain st0 w' where "build_state f (Some src) None applied w = Inr (st0, w')"
    using plan by (auto simp: plan_repairs_def split: sum.splits)
  then obtain c where ctx: "build_analysis_context None applied = Inr c" "rp_state p = assemble_state applied c (Some cat) (?pend applied)"
    and as: "?as = route_repairs (rp_state p) [] (repair_rows (rp_state p))"
    using plan disk(1) by (elim plan_repairs_eq) (auto split: if_splits)
  note live = repaired_live [OF ctx stored as run]
  note stored' = stored_all [OF run stored]
  obtain c2 where ctx2: "build_analysis_context None rows = Inr c2" using stored_context [OF stored'] by blast
  obtain st2 where st2: "build_state f (Some src) None rows w2 = Inr (st2, w3)" "st2 = assemble_state rows c2 (Some cat) (?pend rows)"
    using ctx2 disk(2) compute_pending_filter [OF context_of_build [OF ctx2]] by (auto simp: build_state_def lift_state_def)
  have failed: "failed_scripts st2 = {}"
  proof -
    have "\<not> failed_name rows n" for n
    proof
      assume "failed_name rows n"
      then obtain r where r: "r \<in> set rows" "script_name r = n" "mtype r \<noteq> DELETE" "success r = VBool False"
        by (auto simp: failed_name_def list_ex_iff)
      note f = failed_all [OF run r(1,4,3)]
      then have "n \<in> failed_scripts (rp_state p)"
        using r stored_failed [OF stored ctx] by (auto simp: failed_name_def list_ex_iff)
      then show False using failed_actions [of "rp_state p" n] planned_actions f r(2) unfolding as by metis
    qed
    then show ?thesis using stored_failed [OF stored' ctx2 st2(2)] by auto
  qed
  have "\<not> missing_name cat rows n" for n
    by (rule missing_settled [OF run stored live])
      (use missing_actions [of "rp_state p"] missing_names [OF ctx(1) disk(1) ctx(2)] planned_actions as in \<open>metis mem_Collect_eq\<close>)
  then have missing: "ms_missing_applied st2 = []" using missing_names [OF ctx2 disk(2) st2(2)] by simp
  let ?q = "\<lparr>rp_state = st2, rp_actions = route_repairs st2 [] (repair_rows st2)\<rparr>"
  have q: "plan_repairs f src rows w2 = Inr (?q, w3)"
    using plan_repairs_eq [OF st2(1)] missing by (metis (no_types, lifting))
  have "ra_kind a = CHECKSUM_MISMATCH \<and> ra_script a \<in> failed_scripts (rp_state p) \<union> repeatable_scripts cat"
    if a: "a \<in> set (rp_actions ?q)" for a
  proof -
    have "ra_kind a \<noteq> FAILED_MIGRATION" using failed_actions [of st2 "ra_script a"] failed a by auto
    moreover have "ra_kind a \<noteq> MISSING_SCRIPT" using missing_actions [of st2 "ra_script a"] missing a by auto
    ultimately have kind: "ra_kind a = CHECKSUM_MISMATCH" by (cases "ra_kind a") simp_all
    have "ra_script a \<in> failed_scripts (rp_state p) \<union> repeatable_scripts cat"
    proof (rule ccontr)
      let ?n = "ra_script a"
      assume n: "?n \<notin> failed_scripts (rp_state p) \<union> repeatable_scripts cat"
      have a2: "a \<in> set (route_repairs st2 [] (repair_rows st2))" using a by simp
      have "cc_script ` set (ms_checksum_changes st2) \<subseteq> repeatable_scripts cat"
        by (rule changes_repeatable [OF ctx2 st2(2)]) simp
      then have "?n \<notin> cc_script ` set (ms_checksum_changes st2)" using n by blast
      with checksum_actions [OF a2 kind]
      obtain d where d: "d \<in> set (ms_checksum_drift st2)" "\<not> cd_repeatable d" "cd_current d \<noteq> None" "cd_script_name d = ?n"
        by metis
      then have drift: "drift_of (all_scripts_of cat) rows ?n = Some d"
        and "\<exists>r \<in> set rows. script_name r = ?n \<and> ?n \<noteq> [] \<and> mtype r \<notin> {UNKNOWN, DELETE, UNDO_SQL, BASELINE}"
        unfolding state_parts(2) [OF ctx2 st2(2)] drift_entry_iff by auto
      then obtain r where "r \<in> set applied" "script_name r = ?n" "?n \<noteq> []" "mtype r \<notin> {UNKNOWN, DELETE, UNDO_SQL, BASELINE}"
        using row_origin [OF run stored live] by (metis insertCI)
      note realigned = drift_realigned [OF ctx as disk(1) _ this]
      show False
        by (rule drift_settled [OF live drift d(2,3)])
          (use realigned realigned_drift [OF ctx] as n in auto)
    qed
    with kind show ?thesis by blast
  qed
  with q show ?thesis by blast
qed


text \<open>One script on disk, changed since it was applied; a failed row and a row whose script is gone.\<close>

definition one_script :: fs where
  "one_script = \<lparr>fs_resolve = Some, fs_is_dir = (\<lambda>p. True), fs_readable = (\<lambda>p. True),
     fs_list = (\<lambda>p b. [''V1__a.sql'']), fs_is_file = (\<lambda>p. True), fs_is_symlink = (\<lambda>p. False),
     fs_read = (\<lambda>p. Inr ''a'')\<rparr>"

definition one_source :: script_source where
  "one_source = \<lparr>src_dir = ''/m'', src_recursive = False, src_additional = [], src_recursive_map = []\<rparr>"

definition quiet :: warn_state where
  "quiet = \<lparr>reported = [], warnings = []\<rparr>"

definition one_loaded :: migration where
  "one_loaded =
     \<lparr>script_name = ''V1__a.sql'', version = Some ''1'', description = ''a'', mtype = SQL, tags = [],
      checksum = Some (- 390611389), content = ''a'', path = Some ''/m/V1__a.sql'', format = FSQL, success = VNone,
      status = ''PENDING'', execution_time = None, installed_on = None, installed_by = None, installed_rank = None,
      error_message = None, resolved = False\<rparr>"

definition one_catalog :: catalog where
  "one_catalog = [(SQL, [one_loaded]), (UNDO_SQL, []), (REPEATABLE, []), (BASELINE, []), (CALLBACK, [])]"

lemma one_file: "is_migration_file ''V1__a.sql''" "fm_type (parse_migration_filename ''V1__a.sql'') = SQL" "path_name ''/m/V1__a.sql'' = ''V1__a.sql''"
  by code_simp+

lemma one_migration: "load_migration_script one_script ''/m/V1__a.sql'' (Some (parse_migration_filename ''V1__a.sql'')) = Inr one_loaded"
  by code_simp

lemma one_discovery: "get_all_scripts one_script ''/m'' False [] [] quiet = Inr \<lparr>dv_scripts = [''V1__a.sql''], dv_metadata = [(''V1__a.sql'', \<lparr>ds_path = ''/m/V1__a.sql'', ds_resolved = ''/m/V1__a.sql'', ds_metadata = parse_migration_filename ''V1__a.sql''\<rparr>)], dv_warn = quiet\<rparr>"
  by (simp add: get_all_scripts_def resolved_map_def discover_file_def Let_def one_script_def one_file is_inside_def path_join_def DISCOVERED_TYPES_def dget_or_def dget_def)

lemma one_load: "load_source one_script one_source quiet = Inr (one_catalog, quiet)"
proof -
  let ?md = "parse_migration_filename ''V1__a.sql''"
  have place: "place_script one_script ''V1__a.sql'' ''/m/V1__a.sql'' ?md st = Inr (st\<lparr>ls_catalog := dset (ls_catalog st) SQL (ms @ [one_loaded])\<rparr>)"
    if "dget (ls_catalog st) SQL = Some ms" for st ms
    using that by (simp add: place_script_def one_migration one_file)
  show ?thesis
    by (simp add: load_source_def load_migration_scripts_def one_source_def one_discovery load_one_def script_path_of_def path_join_def
        ref_key_def Let_def one_file initial_load_def empty_catalog_def place dget_def sort_catalog_def dget_or_def one_catalog_def
        sorted_by_def)
qed

definition one_history :: "migration list" where
  "one_history = [sample_row SQL ''1'' ''V1__a.sql'' 1, (sample_row SQL ''2'' ''V2__b.sql'' 2)\<lparr>success := VBool False\<rparr>,
     sample_row SQL ''3'' ''V3__c.sql'' 3]"

definition one_state :: migration_state where
  "one_state = assemble_state one_history (case build_analysis_context None one_history of Inr c \<Rightarrow> c) (Some one_catalog)
     (filter (unresolved_script one_history (all_scripts_of one_catalog)) (all_scripts_of one_catalog))"
lemma one_kinds: "map ra_kind (route_repairs one_state [] (repair_rows one_state)) = [MISSING_SCRIPT, FAILED_MIGRATION, CHECKSUM_MISMATCH]" by code_simp

lemma one_context: "case build_analysis_context None one_history of Inr c \<Rightarrow> True | Inl e \<Rightarrow> False"
  by code_simp

lemma one_plan:
  "plan_repairs one_script one_source one_history quiet
     = Inr (\<lparr>rp_state = one_state, rp_actions = route_repairs one_state [] (repair_rows one_state)\<rparr>, quiet)"
proof -
  obtain c where c: "build_analysis_context None one_history = Inr c" using one_context by (auto split: sum.splits)
  have "build_state one_script (Some one_source) None one_history quiet = Inr (one_state, quiet)"
    using c compute_pending_filter [OF context_of_build [OF c], of one_catalog]
    by (simp add: build_state_def lift_state_def one_load one_state_def)
  then obtain cat where cat: "load_source one_script one_source quiet = Inr (cat, quiet)"
    and plan: "plan_repairs one_script one_source one_history quiet = (if all_scripts_of cat = [] \<and> ms_missing_applied one_state \<noteq> []
      then Inl (RepairSafetyError (length (ms_missing_applied one_state)) (src_dir one_source))
      else Inr (\<lparr>rp_state = one_state, rp_actions = route_repairs one_state [] (repair_rows one_state)\<rparr>, quiet))"
    by (rule plan_repairs_eq)
  have "all_scripts_of cat \<noteq> []" using cat by (auto simp: one_load one_catalog_def all_scripts_of_def)
  then show ?thesis unfolding plan by simp
qed

definition next_rank :: "migration list \<Rightarrow> int" where
  "next_rank rows = fold max (map installed_rank_of rows) 0 + 1"


theorem repair_settles_witness:
  "\<exists>p rows q. plan_repairs one_script one_source one_history quiet = Inr (p, quiet)
    \<and> map ra_kind (rp_actions p) = [MISSING_SCRIPT, FAILED_MIGRATION, CHECKSUM_MISMATCH]
    \<and> repair_rows_all next_rank (rp_actions p) one_history = Some rows
    \<and> plan_repairs one_script one_source rows quiet = Inr (q, quiet)
    \<and> (\<forall>a \<in> set (rp_actions q). ra_kind a = CHECKSUM_MISMATCH
        \<and> ra_script a \<in> failed_scripts (rp_state p) \<union> repeatable_scripts one_catalog)"
proof -
  let ?p = "\<lparr>rp_state = one_state, rp_actions = route_repairs one_state [] (repair_rows one_state)\<rparr>"
  have kinds: "map ra_kind (rp_actions ?p) = [MISSING_SCRIPT, FAILED_MIGRATION, CHECKSUM_MISMATCH]" using one_kinds by simp
  have "list_all (runnable one_history) (route_repairs one_state [] (repair_rows one_state))" by code_simp
  then obtain rows where rows: "repair_rows_all next_rank (rp_actions ?p) one_history = Some rows"
    using runnable_all [of one_history _ next_rank] by fastforce
  have "stored_history one_history" by code_simp
  from repair_settles [OF one_plan this rows one_load one_load] obtain q
    where "plan_repairs one_script one_source rows quiet = Inr (q, quiet)"
      "\<forall>a \<in> set (rp_actions q). ra_kind a = CHECKSUM_MISMATCH \<and> ra_script a \<in> failed_scripts (rp_state ?p) \<union> repeatable_scripts one_catalog"
    by blast
  with one_plan kinds rows show ?thesis by (intro exI [of _ ?p] exI [of _ rows] exI [of _ q]) simp
qed

end
