(* ===== verification/Spec2Isabelle.thy ===== *)
theory Spec2Isabelle
  imports UndoCommand Postgres Splitter Lease RepairHistory
begin

text \<open>
  dblift, a database migration tool in Python: a formal model of its core and the properties that make
  it correct. The sources are under \<open>src/dblift\<close>; paths below are relative to it.

  The program. Migration scripts lie in directories; their names say what they are (\<open>V1__a.sql\<close>,
  \<open>R__b.sql\<close>, \<open>U1__a.sql\<close>, ...). A history table in the database has one row per run of a script. Every
  command reads both, computes a state from them, plans, takes a lock that spans processes, runs scripts
  through an execution engine over a provider (one plugin per database), and records rows. What has been
  applied, what is pending, what an undo would revert and what a repair would change are decided by pure
  code over the rows and the scripts; what the database is left with is decided by the order of calls on
  the connection.

  The theories, each importing the ones it calls:

  \<^item> \<open>Prelude\<close>, \<open>PyString\<close>, \<open>PyRegex\<close>: the shared ground. Stable sorting by a comparator (locale
    \<open>comparator\<close>), dictionaries in insertion order, results that may be an error (\<open>rbind\<close>), the methods of
    Python's strings and paths, and the part of \<open>re\<close> the program uses as a backtracking matcher.
  \<^item> \<open>Versions\<close>: \<open>core/migration/version_utils.py\<close>, \<open>target_version.py\<close>. The comparison of versions is a
    total preorder; merging and target checks are stated over it.
  \<^item> \<open>Checksums\<close>, \<open>Migrations\<close>: the CRC-32 of a script on 32-bit words, and the objects of \<open>migration.py\<close>.
  \<^item> \<open>Filenames\<close>, \<open>Scripts\<close>: the grammar of file names (\<open>scripting/filename_parser.py\<close>, \<open>formats/\<close>), and
    discovery and loading of scripts (\<open>migration_script_manager.py\<close>) over a file system.
  \<^item> \<open>RankWins\<close>, \<open>ScriptStatus\<close>, \<open>StateService\<close>, \<open>StateManager\<close>: the rules of \<open>state/\<close> and \<open>rules/\<close>, from
    a single rule (which rank of a version wins) to \<open>build_state\<close>.
  \<^item> \<open>Plans\<close>, \<open>UndoPlan\<close>: what migrate, repair and undo would do (\<open>state/migrate_plan.py\<close>,
    \<open>repair_plan.py\<close>, \<open>undo_plan.py\<close>).
  \<^item> \<open>RepairHistory\<close>: what the actions of a repair do to the rows (\<open>commands/repair_command.py\<close>,
    \<open>db/plugins/base_history_manager.py\<close>), and the history planned again after them.
  \<^item> \<open>Journal\<close>, \<open>Runner\<close>, \<open>Effects\<close>, \<open>MigrateCommand\<close>, \<open>UndoCommand\<close>: the journal, one script with its
    callbacks (\<open>commands/_script_runner.py\<close>), and the commands with lock, handlers and loop. Their state
    \<open>run_state\<close> keeps the effects in order; lock, engine, checks and history answer as functions of the
    effects so far (record \<open>world\<close>).
  \<^item> \<open>Provider\<close>, \<open>TransactionPolicy\<close>, \<open>Engine\<close>, \<open>PythonExecutor\<close>, \<open>UnitOutcome\<close>, \<open>Postgres\<close>: the engine
    (\<open>executor/execution_engine.py\<close>, \<open>sql/sql_execution_service.py\<close>, \<open>executors/\<close>) over the interface of
    a provider; its contract is the locale \<open>transactional_provider\<close>, in which what a unit leaves in the
    database is proved; \<open>Postgres\<close> models \<open>db/sqlalchemy_provider.py\<close> with
    \<open>db/plugins/postgresql/provider.py\<close> and interprets the contract on it.
  \<^item> \<open>Tokenizer\<close>, \<open>Splitter\<close>: the scanner (\<open>core/sql_parser/lexical_tokenizer.py\<close>, \<open>base_tokenizer.py\<close>) and
    the cutting of tokens into statements (\<open>lexical_statement_parser.py\<close>, \<open>lexical_engine.py\<close>).
  \<^item> \<open>Lease\<close>: the migration lock held as a lease (\<open>db/plugins/lease_lock.py\<close>, \<open>sql_lease_store.py\<close> and the
    lock document of MongoDB), as a step relation of any number of contenders; the locale \<open>lease_contract\<close>
    is interpreted on both stores.

  Conventions. Exceptions are the left side of a sum, or an \<open>option\<close> where nothing is returned; a class
  with state is a record; a dictionary whose order matters is an association list, one that is only
  looked up a function. Integers are unbounded as in Python, except for the checksum, which is computed
  on words. Functions keep the names of the source, with a prefix where HOL has the name. Log texts are
  left out everywhere.

  Lemma groups. Every theory first proves the functional behaviour of its operations, errors included;
  then the invariants its callers use; a property is stated last, over those. The matcher, the parsers
  and the scanner are total: they recurse over structure or with a measure on what is left to read.
  Nothing has fuel; the one loop whose end is a theorem of its own, \<open>scan\<close>, is a \<open>partial_function\<close>, and
  \<open>script_tokens_returns\<close> shows that it returns for every script. Acquiring a lease may wait for ever and
  is a step relation; \<open>expired_lease_is_taken\<close> says when waiting ends.

  What is assumed. Every theorem about a command holds for every \<open>world\<close>. The theorems about PostgreSQL
  hold for every connection whose \<open>begin\<close> is refused while a transaction is in progress, that tells
  whether one is, and on which the schema and the history table exist (\<open>pg_world\<close>); a call that raises
  is taken to change nothing but that a transaction has begun. The scanner's and splitter's theorems
  hold for a specification without rules of a client. The lease theorems assume one clock, unique
  tokens, and for mutual exclusion that no holder's row gets older than its expiry. The repair theorems
  assume rows as the history table keeps them (\<open>stored_history\<close>). Characters are the first 256 code
  points; file contents are decoded text.

  Not modelled, and why. Command line, public API, configuration, logging and terminal output carry out or
  print what the modelled code decides. The plugins of the other databases repeat the PostgreSQL one with
  their own SQL, and the behaviour of their drivers is not in the repository. The rules of client programs
  (batches, delimiters, directives) and the facts about statements used by lint are left to later work; the
  larger part of the latter walks syntax trees of sqlglot, which is third-party. The commands info,
  validate, baseline, clean and import-flyway are thin over the state and the provider. Each module's
  theory says at its start what it leaves out of the code it models.

  What modelling showed. The undo of an unranked row is never superseded, against its comment;
  \<open>set_error\<close> rewrites words such as conversion; an undo plan fails with a KeyError on a history with a
  baseline and a generated part file; a COPY commits the transaction of a caller; a lost race for a
  schema drops the statements before it; the analysis text of a combined unit does not end where the unit
  is cut off; and a repair of a changed repeatable whose row has a directory in its name can never
  succeed. The theorems state the code as it is.
\<close>

end
